(* ===== verification/Prelude.thy ===== *)
theory Prelude
  imports Main "HOL-Library.AList" "HOL-Library.Word" "HOL-Library.List_Lexorder" "HOL-Library.Char_ord"
begin

text \<open>
  The shared vocabulary of the development.

  \<^item> Rust's \<open>HashMap\<close> and \<open>BTreeMap\<close> are association lists with distinct keys. The list order is
    the iteration order, which for a \<open>HashMap\<close> is unspecified: theorems quantify over the list, so
    they hold for every iteration order. Two hash maps are equal when they have the same lookups
    (\<open>hm_eq\<close>). A \<open>BTreeMap\<close> is kept sorted by its keys (\<open>bt_insert\<close>); strings are ordered
    lexicographically.
  \<^item> \<open>Result<T, E>\<close> is the sum type \<open>'e + 't\<close> with \<open>Inl\<close> for \<open>Err\<close>; the \<open>?\<close> operator is
    \<open>and_then\<close>.
  \<^item> \<open>i32\<close> values are integers; arithmetic that may leave the range is wrapped by \<open>i32\<close>, the
    two's complement reduction a release build performs.
  \<^item> \<open>u64\<close> and \<open>u32\<close> values are words; the saturating and checked operations of the standard
    library are defined here once.
\<close>

named_theorems hm_simps "lookups in updated association lists"
named_theorems i32_simps "i32 arithmetic inside the range"
named_theorems sat_simps "saturating word arithmetic on naturals"

section \<open>Results\<close>

type_synonym ('e, 'a) result = "'e + 'a"

definition and_then :: "('e, 'a) result \<Rightarrow> ('a \<Rightarrow> ('e, 'b) result) \<Rightarrow> ('e, 'b) result" where
  "and_then r f = (case r of Inl e \<Rightarrow> Inl e | Inr a \<Rightarrow> f a)"

lemma and_then_simps [simp]:
  "and_then (Inl e) f = Inl e"
  "and_then (Inr a) f = f a"
  by (simp_all add: and_then_def)

lemma and_then_eq_Inr_iff:
  "and_then r f = Inr b \<longleftrightarrow> (\<exists>a. r = Inr a \<and> f a = Inr b)"
  by (cases r) auto

lemma and_then_eq_Inl_iff:
  "and_then r f = Inl e \<longleftrightarrow> r = Inl e \<or> (\<exists>a. r = Inr a \<and> f a = Inl e)"
  by (cases r) auto

text \<open>Running a fallible operation over a list stops at the first error.\<close>

fun try_fold :: "('a \<Rightarrow> 's \<Rightarrow> ('e, 's) result) \<Rightarrow> 'a list \<Rightarrow> 's \<Rightarrow> ('e, 's) result" where
  "try_fold f [] s = Inr s"
| "try_fold f (x # xs) s = and_then (f x s) (try_fold f xs)"

fun try_map :: "('a \<Rightarrow> ('e, 'b) result) \<Rightarrow> 'a list \<Rightarrow> ('e, 'b list) result" where
  "try_map f [] = Inr []"
| "try_map f (x # xs) = and_then (f x) (\<lambda>y. and_then (try_map f xs) (\<lambda>ys. Inr (y # ys)))"

lemma try_fold_append:
  "try_fold f (xs @ ys) s = and_then (try_fold f xs s) (try_fold f ys)"
  by (induction xs arbitrary: s) (auto simp: and_then_def split: sum.splits)

lemma try_fold_map: "try_fold f (map g xs) s = try_fold (\<lambda>x. f (g x)) xs s"
proof (induction xs arbitrary: s)
  case (Cons x xs)
  then have "try_fold f (map g xs) = try_fold (\<lambda>x. f (g x)) xs" by blast
  then show ?case by simp
qed simp

lemma try_fold_invariant:
  assumes "try_fold f xs s = Inr t" and "P s"
    and "\<And>x u v. x \<in> set xs \<Longrightarrow> P u \<Longrightarrow> f x u = Inr v \<Longrightarrow> P v"
  shows "P t"
  using assms
proof (induction xs arbitrary: s)
  case Nil
  then show ?case by simp
next
  case (Cons x xs)
  from Cons.prems(1) obtain u where u: "f x s = Inr u" "try_fold f xs u = Inr t"
    by (auto simp: and_then_eq_Inr_iff)
  from Cons.prems(2) u(1) have "P u" by (rule Cons.prems(3) [rotated]) simp
  with u(2) show ?case by (rule Cons.IH) (use Cons.prems(3) in auto)
qed

lemma try_map_length: "try_map f xs = Inr ys \<Longrightarrow> length ys = length xs"
  by (induction xs arbitrary: ys) (auto simp: and_then_eq_Inr_iff)

lemma map_filter_cong:
  "(\<And>x. x \<in> set xs \<Longrightarrow> f x = g x) \<Longrightarrow> List.map_filter f xs = List.map_filter g xs"
  by (induction xs) (auto simp: map_filter_simps split: option.splits)

lemma mem_map_filter: "y \<in> set (List.map_filter f xs) \<longleftrightarrow> (\<exists>x \<in> set xs. f x = Some y)"
  by (induction xs) (auto simp: map_filter_simps split: option.splits)

lemma find_map_filter:
  assumes "\<And>x y. x \<in> set xs \<Longrightarrow> f x = Some y \<Longrightarrow> key y = key' x" and "distinct (map key' xs)"
  shows "List.find (\<lambda>y. key y = k) (List.map_filter f xs) =
    (case List.find (\<lambda>x. key' x = k) xs of None \<Rightarrow> None | Some x \<Rightarrow> f x)"
proof (use assms in \<open>induction xs\<close>)
  case Nil
  then show ?case by (simp add: map_filter_simps)
next
  case (Cons x xs)
  have "List.find (\<lambda>z. key' z = k) xs = None" if "key' x = k"
  proof -
    have "k \<notin> set (map key' xs)" using Cons.prems(2) that by auto
    then show ?thesis by (auto simp: find_None_iff)
  qed
  moreover have "key y = key' x" if "f x = Some y" for y using Cons.prems(1) that by simp
  moreover have "List.find (\<lambda>y. key y = k) (List.map_filter f xs) =
      (case List.find (\<lambda>x. key' x = k) xs of None \<Rightarrow> None | Some x \<Rightarrow> f x)"
    using Cons by simp
  ultimately show ?case by (cases "f x") (auto simp: map_filter_simps)
qed

fun flatten :: "'a option option \<Rightarrow> 'a option" where
  "flatten None = None"
| "flatten (Some x) = x"

lemma find_fst_map_of: "List.find (\<lambda>x. fst x = k) xs = map_option (Pair k) (map_of xs k)"
  by (induction xs) auto

lemma distinct_keys_map_filter:
  assumes "\<And>x y. x \<in> set xs \<Longrightarrow> f x = Some y \<Longrightarrow> key y = key' x" and "distinct (map key' xs)"
  shows "distinct (map key (List.map_filter f xs)) \<and> set (map key (List.map_filter f xs)) \<subseteq> set (map key' xs)"
proof (use assms in \<open>induction xs\<close>)
  case Nil
  then show ?case by (simp add: map_filter_simps)
next
  case (Cons x xs)
  then show ?case by (fastforce simp: map_filter_simps split: option.splits)
qed

section \<open>Hash maps as association lists\<close>

type_synonym ('k, 'v) hash_map = "('k \<times> 'v) list"

abbreviation hm_get :: "('k, 'v) hash_map \<Rightarrow> 'k \<Rightarrow> 'v option" where
  "hm_get m k \<equiv> map_of m k"

abbreviation hm_insert :: "'k \<Rightarrow> 'v \<Rightarrow> ('k, 'v) hash_map \<Rightarrow> ('k, 'v) hash_map" where
  "hm_insert k v m \<equiv> AList.update k v m"

abbreviation hm_remove :: "'k \<Rightarrow> ('k, 'v) hash_map \<Rightarrow> ('k, 'v) hash_map" where
  "hm_remove k m \<equiv> AList.delete k m"

abbreviation hm_keys :: "('k, 'v) hash_map \<Rightarrow> 'k list" where
  "hm_keys m \<equiv> map fst m"

abbreviation hm_wf :: "('k, 'v) hash_map \<Rightarrow> bool" where
  "hm_wf m \<equiv> distinct (hm_keys m)"

definition hm_eq :: "('k, 'v) hash_map \<Rightarrow> ('k, 'v) hash_map \<Rightarrow> bool" where
  "hm_eq m n \<longleftrightarrow>
     list_all (\<lambda>k. hm_get m k = hm_get n k) (hm_keys m) \<and>
     list_all (\<lambda>k. hm_get m k = hm_get n k) (hm_keys n)"

lemma hm_eq_iff: "hm_eq m n \<longleftrightarrow> map_of m = map_of n"
proof
  assume eq: "hm_eq m n"
  show "map_of m = map_of n"
  proof
    fix k
    show "map_of m k = map_of n k"
    proof (cases "k \<in> set (hm_keys m) \<union> set (hm_keys n)")
      case True
      with eq show ?thesis by (auto simp: hm_eq_def list_all_iff)
    next
      case False
      then show ?thesis by (simp add: map_of_eq_None_iff [THEN iffD2])
    qed
  qed
next
  assume "map_of m = map_of n"
  then show "hm_eq m n" by (simp add: hm_eq_def list_all_iff)
qed

lemma hm_get_insert [hm_simps, simp]: "hm_get (hm_insert k v m) = (hm_get m)(k \<mapsto> v)"
  by (rule update_conv')

lemma hm_get_remove [hm_simps, simp]: "hm_get (hm_remove k m) = (hm_get m)(k := None)"
  by (rule delete_conv')

lemma hm_wf_insert [simp]: "hm_wf m \<Longrightarrow> hm_wf (hm_insert k v m)"
  by (rule distinct_update)

lemma hm_wf_remove [simp]: "hm_wf m \<Longrightarrow> hm_wf (hm_remove k m)"
  by (rule distinct_delete)

lemma hm_keys_remove: "set (hm_keys (hm_remove k m)) = set (hm_keys m) - {k}"
  by (simp add: delete_keys)

lemma hm_get_mem: "hm_wf m \<Longrightarrow> hm_get m k = Some v \<longleftrightarrow> (k, v) \<in> set m"
  by (simp add: map_of_eq_Some_iff)

text \<open>A loop that inserts every entry of \<open>u\<close> into \<open>m\<close>.\<close>

lemma map_of_fold_insert:
  assumes "hm_wf u"
  shows "map_of (fold (\<lambda>(k, v) acc. hm_insert k v acc) u m) = map_of m ++ map_of u"
  using assms
proof (induction u arbitrary: m)
  case Nil
  then show ?case by simp
next
  case (Cons e u)
  obtain k v where e: "e = (k, v)" by (cases e)
  with Cons have IH: "map_of (fold (\<lambda>(k, v) acc. hm_insert k v acc) u (hm_insert k v m))
      = (map_of m)(k \<mapsto> v) ++ map_of u"
    by (simp add: hm_simps)
  from Cons.prems e have "map_of u k = None"
    by (simp add: map_of_eq_None_iff)
  with IH e show ?case
    by (auto simp: map_add_def fun_eq_iff split: option.splits)
qed

section \<open>B-tree maps as sorted association lists\<close>

type_synonym ('k, 'v) btree_map = "('k \<times> 'v) list"

fun bt_insert :: "'k::linorder \<Rightarrow> 'v \<Rightarrow> ('k, 'v) btree_map \<Rightarrow> ('k, 'v) btree_map" where
  "bt_insert k v [] = [(k, v)]"
| "bt_insert k v ((j, w) # m) =
     (if k < j then (k, v) # (j, w) # m
      else if k = j then (k, v) # m
      else (j, w) # bt_insert k v m)"

abbreviation bt_wf :: "('k::linorder, 'v) btree_map \<Rightarrow> bool" where
  "bt_wf m \<equiv> sorted_wrt (<) (map fst m)"

text \<open>\<open>map.entry(k).or_default()\<close> followed by a change of the value.\<close>

definition bt_entry :: "'k::linorder \<Rightarrow> 'v \<Rightarrow> ('v \<Rightarrow> 'v) \<Rightarrow> ('k, 'v) btree_map \<Rightarrow> ('k, 'v) btree_map" where
  "bt_entry k d f m = bt_insert k (f (case map_of m k of None \<Rightarrow> d | Some v \<Rightarrow> v)) m"

lemma bt_insert_keys: "set (map fst (bt_insert k v m)) = insert k (set (map fst m))"
  by (induction k v m rule: bt_insert.induct) (simp_all add: insert_commute)

lemma bt_wf_insert [simp]: "bt_wf m \<Longrightarrow> bt_wf (bt_insert k v m)"
proof (induction m)
  case Nil
  then show ?case by simp
next
  case (Cons e m)
  obtain j w where e: "e = (j, w)" by (cases e)
  show ?case
    using Cons bt_insert_keys [of k v m] by (auto simp: e)
qed

lemma map_of_bt_insert [simp]: "bt_wf m \<Longrightarrow> map_of (bt_insert k v m) = (map_of m)(k \<mapsto> v)"
proof (induction m)
  case Nil
  then show ?case by simp
next
  case (Cons e m)
  obtain j w where e: "e = (j, w)" by (cases e)
  from Cons.prems e have "\<forall>x \<in> set (map fst m). j < x" "bt_wf m" by auto
  with Cons.IH e show ?case by (auto simp: fun_eq_iff)
qed

lemma bt_entry_wf [simp]: "bt_wf m \<Longrightarrow> bt_wf (bt_entry k d f m)"
  by (simp add: bt_entry_def)

lemma map_of_bt_entry:
  "bt_wf m \<Longrightarrow> map_of (bt_entry k d f m) = (map_of m)(k \<mapsto> f (case map_of m k of None \<Rightarrow> d | Some v \<Rightarrow> v))"
  by (simp add: bt_entry_def)

lemma bt_wf_distinct: "bt_wf m \<Longrightarrow> hm_wf m"
  by (simp add: strict_sorted_iff)

section \<open>Machine integers\<close>

definition i32 :: "int \<Rightarrow> int" where
  "i32 x = (x + 2 ^ 31) mod 2 ^ 32 - 2 ^ 31"

definition is_i32 :: "int \<Rightarrow> bool" where
  "is_i32 x \<longleftrightarrow> - (2 ^ 31) \<le> x \<and> x < 2 ^ 31"

lemma i32_id [i32_simps]: "is_i32 x \<Longrightarrow> i32 x = x"
  by (simp add: i32_def is_i32_def)

lemma is_i32_i32: "is_i32 (i32 x)"
proof -
  have "0 \<le> (x + 2 ^ 31) mod 2 ^ 32" "(x + 2 ^ 31) mod 2 ^ 32 < (2 ^ 32 :: int)"
    by (rule pos_mod_sign, simp) (rule pos_mod_bound, simp)
  then show ?thesis by (simp add: i32_def is_i32_def)
qed

text \<open>Saturating and checked operations on unsigned words.\<close>

definition saturating_add :: "'a::len word \<Rightarrow> 'a word \<Rightarrow> 'a word" where
  "saturating_add a b = (if unat a + unat b < 2 ^ LENGTH('a) then a + b else - 1)"

definition saturating_mul :: "'a::len word \<Rightarrow> 'a word \<Rightarrow> 'a word" where
  "saturating_mul a b = (if unat a * unat b < 2 ^ LENGTH('a) then a * b else - 1)"

lemma unat_minus_one_max: "unat (- 1 :: 'a::len word) = 2 ^ LENGTH('a) - 1"
  by (simp add: unsigned_minus_1_eq_mask mask_eq_exp_minus_1)

lemma unat_saturating_add [sat_simps]:
  "unat (saturating_add a b) = min (unat a + unat b) (2 ^ LENGTH('a) - 1)"
  for a b :: "'a::len word"
  by (auto simp: saturating_add_def unat_minus_one_max unat_word_ariths min_def)

lemma unat_saturating_mul [sat_simps]:
  "unat (saturating_mul a b) = min (unat a * unat b) (2 ^ LENGTH('a) - 1)"
  for a b :: "'a::len word"
proof (cases "unat a * unat b < 2 ^ LENGTH('a)")
  case True
  then have "unat a * unat b \<le> 2 ^ LENGTH('a) - 1" by linarith
  with True show ?thesis
    by (simp only: saturating_mul_def if_True unat_word_ariths mod_less min_absorb1)
next
  case False
  then have "2 ^ LENGTH('a) - 1 \<le> unat a * unat b" by linarith
  with False show ?thesis
    by (simp only: saturating_mul_def if_False unat_minus_one_max min_absorb2)
qed

lemma unat_le_max: "unat a \<le> 2 ^ LENGTH('a) - 1" for a :: "'a::len word"
proof -
  have "unat a < 2 ^ LENGTH('a)" by (rule unsigned_less)
  then show ?thesis by linarith
qed

end
