(* ===== verification/Lfu_Cache.thy ===== *)
theory Lfu_Cache
  imports Prelude
begin

text \<open>
  The least-frequently-used cache of \<^verbatim>\<open>graph/src/util/lfu_cache.rs\<close>. Its queue comes from the
  \<^verbatim>\<open>priority-queue\<close> crate and is a parameter: \<open>pq_api\<close> lists the operations the cache calls and the
  locale \<open>priority_queue\<close> states their documented behaviour on the contents of the queue. Every
  operation of the cache is a definition over that interface. The lemmas show that the recorded
  total weight is the sum of the entry weights, what each operation does to the cached values,
  that \<open>remove\<close> and \<open>evict\<close> never reach their panics, and that eviction ends below the limit.
\<close>

section \<open>Entries and priorities\<close>

definition STALE_PERIOD :: nat where
  "STALE_PERIOD = 100"

record ('k, 'v) CacheEntry =
  ce_weight :: nat
  ce_key :: 'k
  ce_value :: 'v
  ce_will_stale :: bool

text \<open>\<open>(stale, Reverse frequency)\<close>: stale entries are larger, then smaller frequencies are.\<close>

datatype Reverse = Reverse nat

type_synonym Priority = "bool \<times> Reverse"

fun frequency :: "Priority \<Rightarrow> nat" where
  "frequency (s, Reverse f) = f"

fun priority_le :: "Priority \<Rightarrow> Priority \<Rightarrow> bool" where
  "priority_le (s, Reverse f) (t, Reverse g) = ((\<not> s \<and> t) \<or> (s = t \<and> g \<le> f))"

text \<open>Machine arithmetic on \<open>usize\<close>, as a release build computes it.\<close>

definition USIZE_MOD :: nat where
  "USIZE_MOD = 2 ^ 64"

definition usize_add :: "nat \<Rightarrow> nat \<Rightarrow> nat" where
  "usize_add a b = (a + b) mod USIZE_MOD"

definition usize_sub :: "nat \<Rightarrow> nat \<Rightarrow> nat" where
  "usize_sub a b = nat ((int a - int b) mod int USIZE_MOD)"

section \<open>The priority queue interface\<close>

text \<open>
  The item type of the queue compares and hashes by its key only, so an operation that takes an
  item finds the entry with the same key. \<open>get_mut\<close> and \<open>iter_mut\<close> hand out mutable references;
  here they take the function that is applied through the reference.
\<close>

record ('q, 'k, 'v) pq_api =
  pq_new :: 'q
  pq_push :: "('k, 'v) CacheEntry \<Rightarrow> Priority \<Rightarrow> 'q \<Rightarrow> 'q"
  pq_pop :: "'q \<Rightarrow> (('k, 'v) CacheEntry \<times> Priority) option \<times> 'q"
  pq_get :: "('k, 'v) CacheEntry \<Rightarrow> 'q \<Rightarrow> (('k, 'v) CacheEntry \<times> Priority) option"
  pq_get_mut :: "('k, 'v) CacheEntry \<Rightarrow> (('k, 'v) CacheEntry \<Rightarrow> ('k, 'v) CacheEntry) \<Rightarrow> 'q \<Rightarrow> 'q"
  pq_change_priority :: "('k, 'v) CacheEntry \<Rightarrow> Priority \<Rightarrow> 'q \<Rightarrow> Priority option \<times> 'q"
  pq_change_priority_by :: "('k, 'v) CacheEntry \<Rightarrow> (Priority \<Rightarrow> Priority) \<Rightarrow> 'q \<Rightarrow> 'q"
  pq_iter_mut :: "(('k, 'v) CacheEntry \<times> Priority \<Rightarrow> ('k, 'v) CacheEntry \<times> Priority) \<Rightarrow> 'q \<Rightarrow> 'q"
  pq_extend :: "(('k, 'v) CacheEntry \<times> Priority) list \<Rightarrow> 'q \<Rightarrow> 'q"
  pq_into_iter :: "'q \<Rightarrow> (('k, 'v) CacheEntry \<times> Priority) list"
  pq_len :: "'q \<Rightarrow> nat"

section \<open>The cache\<close>

record 'q LfuCache =
  queue :: 'q
  total_weight :: nat
  stale_counter :: nat

text \<open>
  The weights of keys and values are the \<open>CacheWeight\<close> methods of the type parameters, and
  \<open>size\<close> is the size of an entry in memory.
\<close>

record ('k, 'v) weights =
  key_weight :: "'k \<Rightarrow> nat"
  value_weight :: "'v \<Rightarrow> nat"
  size_of_entry :: nat
  default_value :: 'v

definition cache_key :: "('k, 'v) weights \<Rightarrow> 'k \<Rightarrow> ('k, 'v) CacheEntry" where
  "cache_key w key =
     \<lparr>ce_weight = 0, ce_key = key, ce_value = default_value w, ce_will_stale = False\<rparr>"

definition entry_weight :: "('k, 'v) weights \<Rightarrow> 'k \<Rightarrow> 'v \<Rightarrow> nat" where
  "entry_weight w key value = usize_add (usize_add (value_weight w value) (key_weight w key)) (size_of_entry w)"

definition lfu_new :: "('q, 'k, 'v) pq_api \<Rightarrow> 'q LfuCache" where
  "lfu_new api = \<lparr>queue = pq_new api, total_weight = 0, stale_counter = 0\<rparr>"

text \<open>
  \<open>get_mut\<close> bumps the frequency and clears the staleness mark of the entry for \<open>key\<close>, and returns
  the entry. What the caller writes through the returned reference is the argument \<open>f\<close>.
\<close>

fun bump_frequency :: "Priority \<Rightarrow> Priority" where
  "bump_frequency (s, Reverse f) = (s, Reverse (f + 1))"

definition lfu_get_mut ::
  "('q, 'k, 'v) pq_api \<Rightarrow> ('k, 'v) weights \<Rightarrow> 'k \<Rightarrow> (('k, 'v) CacheEntry \<Rightarrow> ('k, 'v) CacheEntry) \<Rightarrow>
   'q LfuCache \<Rightarrow> ('k, 'v) CacheEntry option \<times> 'q LfuCache" where
  "lfu_get_mut api w key f c =
     (let key_entry = cache_key w key;
          q1 = pq_change_priority_by api key_entry bump_frequency (queue c);
          q2 = pq_get_mut api key_entry (\<lambda>x. x\<lparr>ce_will_stale := False\<rparr>) q1;
          found = map_option fst (pq_get api key_entry q2);
          q3 = pq_get_mut api key_entry f q2
      in (found, c\<lparr>queue := q3\<rparr>))"

definition lfu_insert ::
  "('q, 'k, 'v) pq_api \<Rightarrow> ('k, 'v) weights \<Rightarrow> 'k \<Rightarrow> 'v \<Rightarrow> 'q LfuCache \<Rightarrow> 'q LfuCache" where
  "lfu_insert api w key value c =
     (let weight = entry_weight w key value in
      case lfu_get_mut api w key (\<lambda>e. e\<lparr>ce_weight := weight, ce_value := value\<rparr>) c of
        (None, c1) \<Rightarrow>
          c1\<lparr>total_weight := usize_add (total_weight c1) weight,
             queue := pq_push api
                        \<lparr>ce_weight = weight, ce_key = key, ce_value = value, ce_will_stale = False\<rparr>
                        (False, Reverse 1) (queue c1)\<rparr>
      | (Some entry, c1) \<Rightarrow>
          (let old_weight = ce_weight entry in
           c1\<lparr>total_weight := usize_add (usize_sub (total_weight c1) old_weight) weight\<rparr>))"

definition lfu_get ::
  "('q, 'k, 'v) pq_api \<Rightarrow> ('k, 'v) weights \<Rightarrow> 'k \<Rightarrow> 'q LfuCache \<Rightarrow> 'v option \<times> 'q LfuCache" where
  "lfu_get api w key c =
     (case lfu_get_mut api w key id c of (r, c1) \<Rightarrow> (map_option ce_value r, c1))"

text \<open>
  \<open>remove\<close> raises the entry to the largest priority and pops it. \<open>Inl\<close> is the failed assertion
  that the popped entry is the requested one.
\<close>

datatype lfu_panic = AssertKeyFailed | EmptyCacheOverweight

definition lfu_remove ::
  "('q, 'k, 'v) pq_api \<Rightarrow> ('k, 'v) weights \<Rightarrow> 'k \<Rightarrow> 'q LfuCache \<Rightarrow>
   (lfu_panic, 'v option \<times> 'q LfuCache) result" where
  "lfu_remove api w key c =
     (let key_entry = cache_key w key in
      case pq_change_priority api key_entry (True, Reverse 0) (queue c) of
        (None, q1) \<Rightarrow> Inr (None, c\<lparr>queue := q1\<rparr>)
      | (Some _, q1) \<Rightarrow>
          (case pq_pop api q1 of
             (None, q2) \<Rightarrow> Inr (None, c\<lparr>queue := q2\<rparr>)
           | (Some (e, _), q2) \<Rightarrow>
               (if ce_key e \<noteq> ce_key key_entry then Inl AssertKeyFailed
                else Inr (Some (ce_value e),
                          c\<lparr>queue := q2, total_weight := usize_sub (total_weight c) (ce_weight e)\<rparr>))))"

definition lfu_contains_key ::
  "('q, 'k, 'v) pq_api \<Rightarrow> ('k, 'v) weights \<Rightarrow> 'k \<Rightarrow> 'q LfuCache \<Rightarrow> bool" where
  "lfu_contains_key api w key c = (pq_get api (cache_key w key) (queue c) \<noteq> None)"

definition lfu_is_empty :: "('q, 'k, 'v) pq_api \<Rightarrow> 'q LfuCache \<Rightarrow> bool" where
  "lfu_is_empty api c = (pq_len api (queue c) = 0)"

definition lfu_len :: "('q, 'k, 'v) pq_api \<Rightarrow> 'q LfuCache \<Rightarrow> nat" where
  "lfu_len api c = pq_len api (queue c)"

text \<open>The marking pass over the entries at the end of a staleness period.\<close>

definition mark_stale ::
  "('k, 'v) CacheEntry \<times> Priority \<Rightarrow> ('k, 'v) CacheEntry \<times> Priority" where
  "mark_stale = (\<lambda>(e, (s, f)). (e\<lparr>ce_will_stale := True\<rparr>, (ce_will_stale e, f)))"

text \<open>
  The popping loop. Its recursion is bounded by the number of entries, so it runs on that much
  fuel plus one: a loop that pops from an empty queue panics instead of running on.
\<close>

fun evict_loop ::
  "nat \<Rightarrow> ('q, 'k, 'v) pq_api \<Rightarrow> nat \<Rightarrow> nat \<Rightarrow> 'q LfuCache \<Rightarrow> (lfu_panic, nat \<times> 'q LfuCache) result option"
where
  "evict_loop 0 api max_weight evicted c =
     (if total_weight c \<le> max_weight then Some (Inr (evicted, c)) else None)"
| "evict_loop (Suc fuel) api max_weight evicted c =
     (if total_weight c \<le> max_weight then Some (Inr (evicted, c))
      else (case pq_pop api (queue c) of
              (None, _) \<Rightarrow> Some (Inl EmptyCacheOverweight)
            | (Some (entry, _), q) \<Rightarrow>
                evict_loop fuel api max_weight (usize_add evicted (ce_weight entry))
                  (c\<lparr>queue := q,
                     total_weight := usize_sub (total_weight c) (ce_weight entry)\<rparr>)))"

definition evict_with_period ::
  "('q, 'k, 'v) pq_api \<Rightarrow> nat \<Rightarrow> nat \<Rightarrow> 'q LfuCache \<Rightarrow>
   (lfu_panic, (nat \<times> nat \<times> nat) option \<times> 'q LfuCache) result option" where
  "evict_with_period api max_weight stale_period c =
     (if total_weight c \<le> max_weight then Some (Inr (None, c))
      else
        (let c1 = c\<lparr>stale_counter := stale_counter c + 1\<rparr>;
             c2 = (if stale_counter c1 = stale_period
                   then c1\<lparr>stale_counter := 0, queue := pq_iter_mut api mark_stale (queue c1)\<rparr>
                   else c1);
             old_weight = total_weight c2
         in case evict_loop (Suc (pq_len api (queue c2))) api max_weight 0 c2 of
              None \<Rightarrow> None
            | Some (Inl p) \<Rightarrow> Some (Inl p)
            | Some (Inr (evicted, c3)) \<Rightarrow>
                Some (Inr (Some (evicted, old_weight, total_weight c3), c3))))"

definition evict ::
  "('q, 'k, 'v) pq_api \<Rightarrow> nat \<Rightarrow> 'q LfuCache \<Rightarrow>
   (lfu_panic, (nat \<times> nat \<times> nat) option \<times> 'q LfuCache) result option" where
  "evict api max_weight c = evict_with_period api max_weight STALE_PERIOD c"

text \<open>\<open>IntoIterator\<close> and \<open>Extend\<close> forward to the queue.\<close>

definition lfu_into_iter ::
  "('q, 'k, 'v) pq_api \<Rightarrow> 'q LfuCache \<Rightarrow> (('k, 'v) CacheEntry \<times> Priority) list" where
  "lfu_into_iter api c = pq_into_iter api (queue c)"

definition lfu_extend ::
  "('q, 'k, 'v) pq_api \<Rightarrow> (('k, 'v) CacheEntry \<times> Priority) list \<Rightarrow> 'q LfuCache \<Rightarrow> 'q LfuCache" where
  "lfu_extend api iter c = c\<lparr>queue := pq_extend api iter (queue c)\<rparr>"

section \<open>Contents, weights and the invariant\<close>

definition weight_sum :: "('k \<rightharpoonup> ('k, 'v) CacheEntry \<times> Priority) \<Rightarrow> nat" where
  "weight_sum m = (\<Sum>k \<in> dom m. ce_weight (fst (the (m k))))"

definition lfu_view ::
  "('q \<Rightarrow> 'k \<Rightarrow> (('k, 'v) CacheEntry \<times> Priority) option) \<Rightarrow> 'q LfuCache \<Rightarrow> 'k \<rightharpoonup> 'v" where
  "lfu_view items c k = map_option (ce_value \<circ> fst) (items (queue c) k)"

definition lfu_inv ::
  "('q \<Rightarrow> 'k \<Rightarrow> (('k, 'v) CacheEntry \<times> Priority) option) \<Rightarrow> 'q LfuCache \<Rightarrow> bool" where
  "lfu_inv items c \<longleftrightarrow>
     total_weight c = weight_sum (items (queue c)) mod USIZE_MOD \<and>
     (\<forall>k e p. items (queue c) k = Some (e, p) \<longrightarrow> 0 < frequency p)"

lemma mark_stale_simps [simp]:
  "ce_weight (fst (mark_stale x)) = ce_weight (fst x)"
  "ce_value (fst (mark_stale x)) = ce_value (fst x)"
  "ce_key (fst (mark_stale x)) = ce_key (fst x)"
  by (simp_all add: mark_stale_def split: prod.splits)

lemma weight_sum_empty [simp]: "weight_sum Map.empty = 0"
  by (simp add: weight_sum_def)

lemma weight_sum_remove:
  assumes "finite (dom m)" and "m k = Some (e, p)"
  shows "weight_sum m = weight_sum (m(k := None)) + ce_weight e"
proof -
  have "k \<in> dom m" using assms(2) by auto
  then have "weight_sum m = ce_weight (fst (the (m k))) + (\<Sum>j \<in> dom m - {k}. ce_weight (fst (the (m j))))"
    using assms(1) by (simp add: weight_sum_def sum.remove)
  also have "(\<Sum>j \<in> dom m - {k}. ce_weight (fst (the (m j)))) = weight_sum (m(k := None))"
    unfolding weight_sum_def by (rule sum.cong) auto
  finally show ?thesis using assms(2) by simp
qed

lemma weight_sum_update:
  assumes "finite (dom m)"
  shows "weight_sum (m(k \<mapsto> (e, p))) = weight_sum (m(k := None)) + ce_weight e"
  using assms weight_sum_remove [of "m(k \<mapsto> (e, p))" k e p] by (simp add: fun_upd_upd)

lemma weight_sum_cong:
  assumes "\<And>k. map_option (ce_weight \<circ> fst) (m k) = map_option (ce_weight \<circ> fst) (n k)"
  shows "weight_sum m = weight_sum n"
proof -
  have d: "dom m = dom n"
  proof (rule set_eqI)
    fix k show "(k \<in> dom m) = (k \<in> dom n)"
      using assms [of k] by (cases "m k"; cases "n k") auto
  qed
  moreover have "ce_weight (fst (the (m k))) = ce_weight (fst (the (n k)))" if "k \<in> dom n" for k
    using assms [of k] that d by (cases "m k"; cases "n k") auto
  ultimately show ?thesis
    unfolding weight_sum_def by (auto intro: sum.cong)
qed

lemma usize_add_mod [simp]: "usize_add (a mod USIZE_MOD) w = (a + w) mod USIZE_MOD"
  unfolding usize_add_def by (rule mod_add_left_eq)

lemma usize_sub_mod [simp]: "usize_sub ((a + w) mod USIZE_MOD) w = a mod USIZE_MOD"
proof -
  have "(int ((a + w) mod USIZE_MOD) - int w) mod int USIZE_MOD = int a mod int USIZE_MOD"
    by (simp add: zmod_int mod_diff_left_eq)
  also have "\<dots> = int (a mod USIZE_MOD)" by (simp add: zmod_int)
  finally show ?thesis by (simp only: usize_sub_def nat_int)
qed

lemma priority_le_max: "priority_le (True, Reverse 0) p \<Longrightarrow> p = (True, Reverse 0)"
  by (cases p; cases "snd p") auto

section \<open>The contract of the priority queue\<close>

locale priority_queue =
  fixes api :: "('q, 'k, 'v) pq_api"
    and items :: "'q \<Rightarrow> 'k \<Rightarrow> (('k, 'v) CacheEntry \<times> Priority) option"
  assumes finite_items: "finite (dom (items q))"
    and items_key: "items q k = Some (e, p) \<Longrightarrow> ce_key e = k"
    and items_new: "items (pq_new api) = Map.empty"
    and items_push: "items q (ce_key e) = None \<Longrightarrow>
      items (pq_push api e p q) = (items q)(ce_key e \<mapsto> (e, p))"
    and pop_empty: "items q = Map.empty \<Longrightarrow> fst (pq_pop api q) = None"
    and pop_max: "items q \<noteq> Map.empty \<Longrightarrow>
      \<exists>e p. fst (pq_pop api q) = Some (e, p) \<and> items q (ce_key e) = Some (e, p) \<and>
        items (snd (pq_pop api q)) = (items q)(ce_key e := None) \<and>
        (\<forall>k e' p'. items q k = Some (e', p') \<longrightarrow> priority_le p' p)"
    and get_items: "pq_get api e q = items q (ce_key e)"
    and items_get_mut: "(\<And>x. ce_key (f x) = ce_key x) \<Longrightarrow>
      items (pq_get_mut api e f q) =
        (items q)(ce_key e := map_option (map_prod f id) (items q (ce_key e)))"
    and change_priority_fst: "fst (pq_change_priority api e p q) = map_option snd (items q (ce_key e))"
    and change_priority_items: "items (snd (pq_change_priority api e p q)) =
        (items q)(ce_key e := map_option (map_prod id (\<lambda>_. p)) (items q (ce_key e)))"
    and change_priority_by_items: "items (pq_change_priority_by api e g q) =
        (items q)(ce_key e := map_option (map_prod id g) (items q (ce_key e)))"
    and items_iter_mut: "(\<And>x. ce_key (fst (h x)) = ce_key (fst x)) \<Longrightarrow>
      items (pq_iter_mut api h q) = (\<lambda>k. map_option h (items q k))"
    and items_extend: "distinct (map (ce_key \<circ> fst) xs) \<Longrightarrow>
      \<forall>x \<in> set xs. items q (ce_key (fst x)) = None \<Longrightarrow>
      items (pq_extend api xs q) = items q ++ map_of (map (\<lambda>x. (ce_key (fst x), x)) xs)"
    and into_iter_items: "set (pq_into_iter api q) = ran (items q)"
    and into_iter_distinct: "distinct (map (ce_key \<circ> fst) (pq_into_iter api q))"
    and len_items: "pq_len api q = card (dom (items q))"
begin

lemma bump_frequency_pos: "bump_frequency p = q \<Longrightarrow> 0 < frequency q"
  by (cases p; cases "snd p") auto

lemma items_lfu_get_mut:
  assumes "\<And>x. ce_key (f x) = ce_key x"
  shows "items (queue (snd (lfu_get_mut api w key f c))) =
    (items (queue c))(key :=
       map_option (\<lambda>(e, p). (f (e\<lparr>ce_will_stale := False\<rparr>), bump_frequency p)) (items (queue c) key))"
    and "fst (lfu_get_mut api w key f c) =
      map_option (\<lambda>(e, p). e\<lparr>ce_will_stale := False\<rparr>) (items (queue c) key)"
    and "total_weight (snd (lfu_get_mut api w key f c)) = total_weight c"
    and "stale_counter (snd (lfu_get_mut api w key f c)) = stale_counter c"
  using assms
  by (auto simp: lfu_get_mut_def Let_def cache_key_def items_get_mut change_priority_by_items get_items
      option.map_comp comp_def map_prod_def fun_eq_iff split: prod.splits intro!: option.map_cong)

lemma lfu_insert_view:
  "lfu_view items (lfu_insert api w key value c) = (lfu_view items c)(key \<mapsto> value)"
proof -
  let ?f = "\<lambda>e :: ('k, 'v) CacheEntry. e\<lparr>ce_weight := entry_weight w key value, ce_value := value\<rparr>"
  obtain r c1 where g: "lfu_get_mut api w key ?f c = (r, c1)" by (cases "lfu_get_mut api w key ?f c")
  note m = items_lfu_get_mut [where f = ?f and w = w and key = key and c = c, simplified g, simplified]
  show ?thesis
  proof (cases "items (queue c) key")
    case None
    with m(1,2) g show ?thesis
      by (auto simp: lfu_insert_def Let_def lfu_view_def fun_eq_iff items_push)
  next
    case (Some ep)
    with m(1,2) g show ?thesis
      by (cases ep) (auto simp: lfu_insert_def Let_def lfu_view_def fun_eq_iff)
  qed
qed

lemma lfu_insert_inv:
  assumes inv: "lfu_inv items c"
  shows "lfu_inv items (lfu_insert api w key value c)"
proof -
  let ?f = "\<lambda>e :: ('k, 'v) CacheEntry. e\<lparr>ce_weight := entry_weight w key value, ce_value := value\<rparr>"
  obtain r c1 where g: "lfu_get_mut api w key ?f c = (r, c1)" by (cases "lfu_get_mut api w key ?f c")
  note m = items_lfu_get_mut [where f = ?f and w = w and key = key and c = c, simplified g, simplified]
  show ?thesis
  proof (cases "items (queue c) key")
    case None
    then have "(items (queue c))(key := None) = items (queue c)" by auto
    with None m g inv show ?thesis
      by (auto simp: lfu_insert_def Let_def lfu_inv_def items_push weight_sum_update finite_items)
  next
    case (Some ep)
    obtain e p where ep: "ep = (e, p)" by (cases ep)
    have "weight_sum (items (queue c)) = weight_sum ((items (queue c))(key := None)) + ce_weight e"
      using Some ep by (simp add: weight_sum_remove finite_items)
    with Some ep m g inv show ?thesis
      by (auto simp: lfu_insert_def Let_def lfu_inv_def weight_sum_update finite_items
          dest: bump_frequency_pos)
  qed
qed

lemma lfu_get_result: "fst (lfu_get api w key c) = lfu_view items c key"
  and lfu_get_view: "lfu_view items (snd (lfu_get api w key c)) = lfu_view items c"
  using items_lfu_get_mut [where f = id and w = w and key = key and c = c]
  by (cases "items (queue c) key";
      auto simp: lfu_get_def lfu_view_def fun_eq_iff split: prod.splits)+

lemma lfu_get_inv:
  assumes "lfu_inv items c"
  shows "lfu_inv items (snd (lfu_get api w key c))"
proof -
  have q: "snd (lfu_get api w key c) = snd (lfu_get_mut api w key id c)"
    by (simp add: lfu_get_def split: prod.splits)
  have "weight_sum (items (queue (snd (lfu_get api w key c)))) = weight_sum (items (queue c))"
    unfolding q by (rule weight_sum_cong)
      (auto simp: items_lfu_get_mut option.map_comp comp_def split: prod.splits intro!: option.map_cong)
  with assms show ?thesis
    unfolding q by (auto simp: lfu_inv_def items_lfu_get_mut dest: bump_frequency_pos split: if_splits)
qed

lemma lfu_remove_spec:
  assumes inv: "lfu_inv items c"
  shows "\<exists>c'. lfu_remove api w key c = Inr (lfu_view items c key, c') \<and>
    lfu_view items c' = (lfu_view items c)(key := None) \<and> lfu_inv items c'"
proof (cases "items (queue c) key")
  case None
  define q1 where "q1 = snd (pq_change_priority api (cache_key w key) (True, Reverse 0) (queue c))"
  have "items q1 = items (queue c)"
    using None by (simp add: q1_def change_priority_items cache_key_def fun_upd_idem)
  moreover have "lfu_remove api w key c = Inr (None, c\<lparr>queue := q1\<rparr>)"
    using None change_priority_fst [of "cache_key w key" "(True, Reverse 0)" "queue c"]
    by (auto simp: lfu_remove_def q1_def cache_key_def Let_def split: prod.splits option.splits)
  ultimately show ?thesis using None inv by (simp add: lfu_inv_def lfu_view_def fun_eq_iff [of "lfu_view _ _"])
next
  case (Some ep)
  obtain e p where ep: "ep = (e, p)" by (cases ep)
  define q1 where "q1 = snd (pq_change_priority api (cache_key w key) (True, Reverse 0) (queue c))"
  have q1: "items q1 = (items (queue c))(key \<mapsto> (e, (True, Reverse 0)))"
    using Some ep by (simp add: q1_def change_priority_items cache_key_def)
  then have "items q1 \<noteq> Map.empty" by auto
  then obtain e2 p2 where pop: "fst (pq_pop api q1) = Some (e2, p2)" "items q1 (ce_key e2) = Some (e2, p2)"
      "items (snd (pq_pop api q1)) = (items q1)(ce_key e2 := None)"
      "\<forall>k e' p'. items q1 k = Some (e', p') \<longrightarrow> priority_le p' p2"
    using pop_max by blast
  from q1 have "items q1 key = Some (e, (True, Reverse 0))" by simp
  with pop(4) have "priority_le (True, Reverse 0) p2" by blast
  then have p2: "p2 = (True, Reverse 0)" by (rule priority_le_max)
  have same: "ce_key e2 = key"
  proof (rule ccontr)
    assume "ce_key e2 \<noteq> key"
    with pop(2) q1 p2 have "items (queue c) (ce_key e2) = Some (e2, (True, Reverse 0))" by simp
    with inv show False by (fastforce simp: lfu_inv_def)
  qed
  with pop(2) q1 have e2: "e2 = e" by simp
  let ?c' = "c\<lparr>queue := snd (pq_pop api q1), total_weight := usize_sub (total_weight c) (ce_weight e)\<rparr>"
  have run: "lfu_remove api w key c = Inr (Some (ce_value e), ?c')"
    using Some ep pop(1) same e2 q1_def change_priority_fst [of "cache_key w key" "(True, Reverse 0)" "queue c"]
    by (auto simp: lfu_remove_def cache_key_def Let_def split: prod.splits option.splits)
  have "weight_sum (items (queue c)) = weight_sum ((items (queue c))(key := None)) + ce_weight e"
    using Some ep by (simp add: weight_sum_remove finite_items)
  moreover have "items (queue ?c') = (items (queue c))(key := None)"
    using pop(3) q1 same by simp
  ultimately have "lfu_inv items ?c'" "lfu_view items ?c' = (lfu_view items c)(key := None)"
    using inv by (simp add: lfu_inv_def) (simp add: lfu_view_def fun_eq_iff pop(3) q1 same)
  with run Some ep show ?thesis by (auto simp: lfu_view_def)
qed

lemma evict_loop_spec:
  assumes "lfu_inv items c" and "card (dom (items (queue c))) \<le> fuel"
  shows "\<exists>ev c'. evict_loop fuel api max_weight ev0 c = Some (Inr (ev, c')) \<and>
    total_weight c' \<le> max_weight \<and> lfu_inv items c' \<and>
    items (queue c') \<subseteq>\<^sub>m items (queue c) \<and>
    (\<forall>k e p k' e' p'. items (queue c) k = Some (e, p) \<longrightarrow> items (queue c') k = None \<longrightarrow>
       items (queue c') k' = Some (e', p') \<longrightarrow> priority_le p' p)"
  using assms
proof (induction fuel arbitrary: c ev0)
  case 0
  then have "items (queue c) = Map.empty"
    using finite_items [of "queue c"] by simp
  with 0 have "total_weight c = 0" by (simp add: lfu_inv_def)
  with 0 show ?case by auto
next
  case (Suc fuel)
  show ?case
  proof (cases "total_weight c \<le> max_weight")
    case True
    with Suc.prems show ?thesis by auto
  next
    case False
    then have "items (queue c) \<noteq> Map.empty"
      using Suc.prems(1) by (auto simp: lfu_inv_def)
    then obtain e p where pop: "fst (pq_pop api (queue c)) = Some (e, p)"
        "items (queue c) (ce_key e) = Some (e, p)"
        "items (snd (pq_pop api (queue c))) = (items (queue c))(ce_key e := None)"
        "\<forall>k e' p'. items (queue c) k = Some (e', p') \<longrightarrow> priority_le p' p"
      using pop_max by blast
    let ?c1 = "c\<lparr>queue := snd (pq_pop api (queue c)),
                 total_weight := usize_sub (total_weight c) (ce_weight e)\<rparr>"
    have ws: "weight_sum (items (queue c)) = weight_sum ((items (queue c))(ce_key e := None)) + ce_weight e"
      using pop(2) by (simp add: weight_sum_remove finite_items)
    then have inv1: "lfu_inv items ?c1"
      using Suc.prems(1) pop(3) by (auto simp: lfu_inv_def)
    have "card (dom (items (queue ?c1))) < card (dom (items (queue c)))"
      using pop(2,3) finite_items by (auto simp: dom_fun_upd intro!: psubset_card_mono)
    then have card1: "card (dom (items (queue ?c1))) \<le> fuel" using Suc.prems(2) by simp
    obtain ev c' where IH: "evict_loop fuel api max_weight (usize_add ev0 (ce_weight e)) ?c1 = Some (Inr (ev, c'))"
        "total_weight c' \<le> max_weight" "lfu_inv items c'" "items (queue c') \<subseteq>\<^sub>m items (queue ?c1)"
        "\<forall>k e p k' e' p'. items (queue ?c1) k = Some (e, p) \<longrightarrow> items (queue c') k = None \<longrightarrow>
           items (queue c') k' = Some (e', p') \<longrightarrow> priority_le p' p"
      using Suc.IH [OF inv1 card1, of "usize_add ev0 (ce_weight e)"] by blast
    have sub: "items (queue c') \<subseteq>\<^sub>m items (queue c)"
      using IH(4) pop(3) by (fastforce simp: map_le_def split: if_splits)
    have "priority_le p' q" if "items (queue c) k = Some (d, q)" "items (queue c') k = None"
        "items (queue c') k' = Some (e', p')" for k d q k' e' p'
    proof (cases "k = ce_key e")
      case True
      with that(1) pop(2) have "q = p" by simp
      moreover have "items (queue c) k' = Some (e', p')"
        using that(3) sub by (metis domI map_le_def)
      ultimately show ?thesis using pop(4) by blast
    next
      case False
      with that(1) pop(3) have "items (queue ?c1) k = Some (d, q)" by simp
      with that(2,3) IH(5) show ?thesis by blast
    qed
    moreover have "evict_loop (Suc fuel) api max_weight ev0 c = Some (Inr (ev, c'))"
      using False pop(1) IH(1) by (auto split: prod.splits)
    ultimately show ?thesis using IH(2,3) sub by blast
  qed
qed

lemma mark_stale_items: "items (pq_iter_mut api mark_stale q) = (\<lambda>k. map_option mark_stale (items q k))"
  by (rule items_iter_mut) simp

lemma mark_stale_inv:
  assumes "lfu_inv items c"
  shows "lfu_inv items (c\<lparr>stale_counter := n, queue := pq_iter_mut api mark_stale (queue c)\<rparr>)"
proof -
  have "weight_sum (\<lambda>k. map_option mark_stale (items (queue c) k)) = weight_sum (items (queue c))"
    by (rule weight_sum_cong) (simp add: option.map_comp comp_def)
  moreover have "0 < frequency p'" if "mark_stale (e, p) = (e', p')" "0 < frequency p"
    for e e' :: "('k, 'v) CacheEntry" and p p'
    using that by (cases p; cases "snd p") (auto simp: mark_stale_def)
  ultimately show ?thesis
    using assms by (auto simp: lfu_inv_def mark_stale_items)
qed

lemma evict_with_period_spec:
  assumes "lfu_inv items c"
  shows "\<exists>r c'. evict_with_period api max_weight period c = Some (Inr (r, c')) \<and>
    total_weight c' \<le> max_weight \<and> lfu_inv items c' \<and>
    lfu_view items c' \<subseteq>\<^sub>m lfu_view items c"
proof (cases "total_weight c \<le> max_weight")
  case True
  with assms show ?thesis by (auto simp: evict_with_period_def)
next
  case False
  define c1 where "c1 = c\<lparr>stale_counter := stale_counter c + 1\<rparr>"
  define c2 where "c2 = (if stale_counter c1 = period
    then c1\<lparr>stale_counter := 0, queue := pq_iter_mut api mark_stale (queue c1)\<rparr> else c1)"
  have inv1: "lfu_inv items c1" using assms by (simp add: c1_def lfu_inv_def)
  then have inv2: "lfu_inv items c2" by (simp add: c2_def mark_stale_inv)
  have view2: "lfu_view items c2 = lfu_view items c"
    by (simp add: c2_def c1_def lfu_view_def mark_stale_items option.map_comp comp_def fun_eq_iff)
  obtain ev c' where e: "evict_loop (Suc (pq_len api (queue c2))) api max_weight 0 c2 = Some (Inr (ev, c'))"
      "total_weight c' \<le> max_weight" "lfu_inv items c'" "items (queue c') \<subseteq>\<^sub>m items (queue c2)"
    using evict_loop_spec [OF inv2, of "Suc (pq_len api (queue c2))" max_weight 0]
    by (auto simp: len_items)
  from e(4) have "lfu_view items c' \<subseteq>\<^sub>m lfu_view items c2"
    by (auto simp: map_le_def lfu_view_def dom_def) (metis option.distinct(1) option.exhaust_sel)?
  moreover have "evict_with_period api max_weight period c =
      Some (Inr (Some (ev, total_weight c2, total_weight c'), c'))"
    unfolding evict_with_period_def Let_def c1_def [symmetric] c2_def [symmetric]
    using False e(1) by (simp del: evict_loop.simps)
  ultimately show ?thesis using e(2,3) view2 by auto
qed

lemma lfu_new_inv: "lfu_inv items (lfu_new api)"
  and lfu_new_view: "lfu_view items (lfu_new api) = Map.empty"
  by (auto simp: lfu_new_def lfu_inv_def lfu_view_def items_new)

lemma lfu_contains_key_iff: "lfu_contains_key api w key c \<longleftrightarrow> lfu_view items c key \<noteq> None"
  by (simp add: lfu_contains_key_def lfu_view_def get_items cache_key_def)

end

section \<open>A reference queue\<close>

text \<open>
  A list of entries, in which the first entry for a key is the live one, implements the whole
  interface. It instantiates the contract, so that the lemmas above are not about an empty class
  of queues, and it evaluates.
\<close>

type_synonym ('k, 'v) lpq = "(('k, 'v) CacheEntry \<times> Priority) list"

definition lpq_keyed :: "('k, 'v) lpq \<Rightarrow> ('k \<times> ('k, 'v) CacheEntry \<times> Priority) list" where
  "lpq_keyed q = map (\<lambda>x. (ce_key (fst x), x)) q"

definition lpq_items :: "('k, 'v) lpq \<Rightarrow> 'k \<rightharpoonup> ('k, 'v) CacheEntry \<times> Priority" where
  "lpq_items q = map_of (lpq_keyed q)"

definition lpq_live :: "('k, 'v) lpq \<Rightarrow> ('k, 'v) lpq" where
  "lpq_live q = map snd (AList.clearjunk (lpq_keyed q))"

fun lpq_max :: "('k, 'v) CacheEntry \<times> Priority \<Rightarrow> ('k, 'v) lpq \<Rightarrow> ('k, 'v) CacheEntry \<times> Priority" where
  "lpq_max m [] = m"
| "lpq_max m (x # q) = lpq_max (if priority_le (snd x) (snd m) then m else x) q"

definition lpq_pop :: "('k, 'v) lpq \<Rightarrow> (('k, 'v) CacheEntry \<times> Priority) option \<times> ('k, 'v) lpq" where
  "lpq_pop q = (case lpq_live q of
       [] \<Rightarrow> (None, q)
     | x # xs \<Rightarrow> (let m = lpq_max x xs in
         (Some m, filter (\<lambda>y. ce_key (fst y) \<noteq> ce_key (fst m)) q)))"

definition lpq_adjust ::
  "'k \<Rightarrow> (('k, 'v) CacheEntry \<times> Priority \<Rightarrow> ('k, 'v) CacheEntry \<times> Priority) \<Rightarrow> ('k, 'v) lpq \<Rightarrow> ('k, 'v) lpq" where
  "lpq_adjust k h q = map (\<lambda>x. if ce_key (fst x) = k then h x else x) q"

definition lpq_api :: "(('k, 'v) lpq, 'k, 'v) pq_api" where
  "lpq_api =
     \<lparr>pq_new = [],
      pq_push = (\<lambda>e p q. (e, p) # q),
      pq_pop = lpq_pop,
      pq_get = (\<lambda>e q. lpq_items q (ce_key e)),
      pq_get_mut = (\<lambda>e f. lpq_adjust (ce_key e) (map_prod f id)),
      pq_change_priority = (\<lambda>e p q.
        (map_option snd (lpq_items q (ce_key e)), lpq_adjust (ce_key e) (map_prod id (\<lambda>_. p)) q)),
      pq_change_priority_by = (\<lambda>e g. lpq_adjust (ce_key e) (map_prod id g)),
      pq_iter_mut = map,
      pq_extend = (\<lambda>xs q. xs @ q),
      pq_into_iter = lpq_live,
      pq_len = (\<lambda>q. length (lpq_live q))\<rparr>"

lemma lpq_items_simps [simp]:
  "lpq_items [] = Map.empty"
  "lpq_items (x # q) = (lpq_items q)(ce_key (fst x) \<mapsto> x)"
  "lpq_items (q @ r) = lpq_items r ++ lpq_items q"
  by (simp_all add: lpq_items_def lpq_keyed_def)

lemma lpq_items_key: "lpq_items q k = Some x \<Longrightarrow> ce_key (fst x) = k"
  by (induction q) (auto split: if_splits)

lemma lpq_items_adjust:
  assumes "\<And>x. ce_key (fst (h x)) = ce_key (fst x)"
  shows "lpq_items (lpq_adjust k h q) = (lpq_items q)(k := map_option h (lpq_items q k))"
  by (induction q) (auto simp: lpq_adjust_def assms fun_eq_iff)

lemma lpq_items_map:
  assumes "\<And>x. ce_key (fst (h x)) = ce_key (fst x)"
  shows "lpq_items (map h q) = (\<lambda>k. map_option h (lpq_items q k))"
  by (induction q) (auto simp: assms fun_eq_iff)

lemma lpq_items_filter:
  "lpq_items (filter (\<lambda>y. ce_key (fst y) \<noteq> k) q) = (lpq_items q)(k := None)"
  by (induction q) (auto simp: fun_eq_iff)

lemma lpq_live_keys: "map (ce_key \<circ> fst) (lpq_live q) = map fst (AList.clearjunk (lpq_keyed q))"
proof -
  have "ce_key (fst (snd x)) = fst x" if "x \<in> set (AList.clearjunk (lpq_keyed q))" for x
  proof -
    have "map_of (lpq_keyed q) (fst x) = Some (snd x)"
      using that map_of_is_SomeI [OF distinct_clearjunk, of "fst x" "snd x"]
      by (simp add: map_of_clearjunk)
    then show ?thesis by (simp add: lpq_items_key lpq_items_def [symmetric])
  qed
  then show ?thesis by (simp add: lpq_live_def comp_def)
qed

lemma lpq_live_set: "set (lpq_live q) = ran (lpq_items q)"
  unfolding lpq_live_def lpq_items_def
  by (simp add: ran_distinct [OF distinct_clearjunk, symmetric] map_of_clearjunk)

lemma lpq_live_distinct: "distinct (map (ce_key \<circ> fst) (lpq_live q))"
  by (simp add: lpq_live_keys distinct_clearjunk)

lemma lpq_live_length: "length (lpq_live q) = card (dom (lpq_items q))"
proof -
  have "length (lpq_live q) = length (map fst (AList.clearjunk (lpq_keyed q)))"
    by (simp add: lpq_live_def)
  also have "\<dots> = card (set (map fst (AList.clearjunk (lpq_keyed q))))"
    by (rule distinct_card [OF distinct_clearjunk, symmetric])
  also have "\<dots> = card (dom (lpq_items q))"
    by (simp add: lpq_items_def dom_map_of_conv_image_fst [symmetric] map_of_clearjunk)
  finally show ?thesis .
qed

lemma priority_le_refl: "priority_le p p"
  by (cases p; cases "snd p") auto

lemma priority_le_trans: "priority_le p q \<Longrightarrow> priority_le q r \<Longrightarrow> priority_le p r"
  by (cases p; cases "snd p"; cases q; cases "snd q"; cases r; cases "snd r") auto

lemma priority_le_total: "priority_le p q \<or> priority_le q p"
  by (cases p; cases "snd p"; cases q; cases "snd q") auto

lemma lpq_max_in: "lpq_max m q \<in> insert m (set q)"
  by (induction q arbitrary: m) fastforce+

lemma lpq_max_ge: "x \<in> insert m (set q) \<Longrightarrow> priority_le (snd x) (snd (lpq_max m q))"
proof (induction q arbitrary: m x)
  case Nil
  then show ?case by (simp add: priority_le_refl)
next
  case (Cons y q)
  let ?m = "if priority_le (snd y) (snd m) then m else y"
  have "priority_le (snd ?m) (snd (lpq_max ?m q))" by (rule Cons.IH) simp
  moreover have "priority_le (snd m) (snd ?m)" "priority_le (snd y) (snd ?m)"
    using priority_le_refl priority_le_total [of "snd m" "snd y"] by auto
  ultimately have "priority_le (snd m) (snd (lpq_max ?m q))" "priority_le (snd y) (snd (lpq_max ?m q))"
    using priority_le_trans by blast+
  moreover have "priority_le (snd x) (snd (lpq_max ?m q))" if "x \<in> set q"
    by (rule Cons.IH) (simp add: that)
  ultimately show ?case using Cons.prems by (simp only: lpq_max.simps) auto
qed

lemma lpq_pop_empty: "lpq_items q = Map.empty \<Longrightarrow> fst (lpq_pop q) = None"
  using lpq_live_set [of q] by (simp add: lpq_pop_def)

lemma lpq_pop_max:
  assumes "lpq_items q \<noteq> Map.empty"
  shows "\<exists>e p. fst (lpq_pop q) = Some (e, p) \<and> lpq_items q (ce_key e) = Some (e, p) \<and>
    lpq_items (snd (lpq_pop q)) = (lpq_items q)(ce_key e := None) \<and>
    (\<forall>k e' p'. lpq_items q k = Some (e', p') \<longrightarrow> priority_le p' p)"
proof -
  have "ran (lpq_items q) \<noteq> {}" using assms by (auto simp: ran_def fun_eq_iff)
  then obtain x xs where l: "lpq_live q = x # xs"
    using lpq_live_set [of q] by (cases "lpq_live q") auto
  obtain e p where m: "lpq_max x xs = (e, p)" by (cases "lpq_max x xs")
  have "lpq_max x xs \<in> ran (lpq_items q)"
    using lpq_max_in [of x xs] lpq_live_set [of q, symmetric] l by simp
  then obtain k where k: "lpq_items q k = Some (e, p)"
    using m by (auto simp: ran_def)
  with lpq_items_key [OF k] have "lpq_items q (ce_key e) = Some (e, p)" by simp
  moreover have "priority_le p' p" if "lpq_items q k = Some (e', p')" for k e' p'
  proof -
    have "(e', p') \<in> insert x (set xs)"
      using that lpq_live_set [of q] l by (auto intro: ranI)
    from lpq_max_ge [OF this] m show ?thesis by simp
  qed
  moreover have "lpq_pop q = (Some (e, p), filter (\<lambda>y. ce_key (fst y) \<noteq> ce_key e) q)"
    using l m by (simp add: lpq_pop_def Let_def)
  ultimately show ?thesis
    by (intro exI [of _ e] exI [of _ p]) (simp add: lpq_items_filter del: split_paired_All)
qed

interpretation lpq: priority_queue lpq_api lpq_items
proof unfold_locales
  fix q :: "('k, 'v) lpq" and e :: "('k, 'v) CacheEntry"
  show "finite (dom (lpq_items q))" by (simp add: lpq_items_def finite_dom_map_of)
  show "lpq_items q k = Some (e, p) \<Longrightarrow> ce_key e = k" for k p
    using lpq_items_key [of q k "(e, p)"] by simp
  show "distinct (map (ce_key \<circ> fst) xs) \<Longrightarrow> \<forall>x\<in>set xs. lpq_items q (ce_key (fst x)) = None \<Longrightarrow>
      lpq_items (pq_extend lpq_api xs q) = lpq_items q ++ map_of (map (\<lambda>x. (ce_key (fst x), x)) xs)" for xs
    by (simp add: lpq_api_def) (simp add: lpq_items_def lpq_keyed_def)
  show "lpq_items q \<noteq> Map.empty \<Longrightarrow>
      \<exists>e p. fst (pq_pop lpq_api q) = Some (e, p) \<and> lpq_items q (ce_key e) = Some (e, p) \<and>
        lpq_items (snd (pq_pop lpq_api q)) = (lpq_items q)(ce_key e := None) \<and>
        (\<forall>k e' p'. lpq_items q k = Some (e', p') \<longrightarrow> priority_le p' p)"
    by (simp only: lpq_api_def pq_api.simps) (rule lpq_pop_max)
qed (simp_all add: lpq_api_def lpq_pop_empty lpq_items_adjust lpq_items_map
      lpq_live_set lpq_live_distinct lpq_live_length)

section \<open>Runs of the cache\<close>

text \<open>The caches a client can build with the safe operations.\<close>

inductive lfu_reachable :: "('q, 'k, 'v) pq_api \<Rightarrow> ('k, 'v) weights \<Rightarrow> 'q LfuCache \<Rightarrow> bool"
  for api :: "('q, 'k, 'v) pq_api" and w :: "('k, 'v) weights" where
  reach_new: "lfu_reachable api w (lfu_new api)"
| reach_insert: "lfu_reachable api w c \<Longrightarrow> lfu_reachable api w (lfu_insert api w key value c)"
| reach_get: "lfu_reachable api w c \<Longrightarrow> lfu_reachable api w (snd (lfu_get api w key c))"
| reach_remove: "lfu_reachable api w c \<Longrightarrow> lfu_remove api w key c = Inr (r, c') \<Longrightarrow> lfu_reachable api w c'"
| reach_evict: "lfu_reachable api w c \<Longrightarrow> evict_with_period api max_weight period c = Some (Inr (s, c')) \<Longrightarrow>
    lfu_reachable api w c'"

context priority_queue
begin

lemma lfu_reachable_inv: "lfu_reachable api w c \<Longrightarrow> lfu_inv items c"
proof (induction rule: lfu_reachable.induct)
  case (reach_remove c key r c')
  then show ?case using lfu_remove_spec [of c w key] by auto
next
  case (reach_evict c max_weight period s c')
  then show ?case using evict_with_period_spec [of c max_weight period] by auto
qed (simp_all add: lfu_new_inv lfu_insert_inv lfu_get_inv)

end

text \<open>A concrete cache: two entries, of which the first has been read once more.\<close>

definition sample_weights :: "(nat, nat) weights" where
  "sample_weights = \<lparr>key_weight = (\<lambda>_. 1), value_weight = id, size_of_entry = 8, default_value = 0\<rparr>"

definition sample_cache :: "(nat, nat) lpq LfuCache" where
  "sample_cache = snd (lfu_get lpq_api sample_weights 1
     (lfu_insert lpq_api sample_weights 2 30 (lfu_insert lpq_api sample_weights 1 20 (lfu_new lpq_api))))"

lemma sample_cache_reachable: "lfu_reachable lpq_api sample_weights sample_cache"
  unfolding sample_cache_def by (intro reach_get reach_insert reach_new)

lemmas lfu_eval = lfu_get_def lfu_get_mut_def lfu_insert_def lfu_new_def lfu_view_def cache_key_def
  entry_weight_def usize_add_def usize_sub_def USIZE_MOD_def lpq_api_def lpq_adjust_def lpq_pop_def
  lpq_live_def lpq_keyed_def sample_weights_def

lemma sample_cache_eval:
  "sample_cache =
     \<lparr>queue = [(\<lparr>ce_weight = 39, ce_key = 2, ce_value = 30, ce_will_stale = False\<rparr>, (False, Reverse 1)),
               (\<lparr>ce_weight = 29, ce_key = 1, ce_value = 20, ce_will_stale = False\<rparr>, (False, Reverse 2))],
      total_weight = 68, stale_counter = 0\<rparr>"
  by (simp add: sample_cache_def lfu_eval)

section \<open>Properties of the cache\<close>

text \<open>
  C10: in every cache a client can build by inserting, reading, removing and evicting, the field
  \<open>total_weight\<close> is the sum of the weights of the entries that are in the queue (modulo the size
  of \<open>usize\<close>), whatever the priority queue does beyond its documented contract.
\<close>

theorem lfu_total_weight:
  assumes "priority_queue api items" and "lfu_reachable api w c"
  shows "total_weight c = weight_sum (items (queue c)) mod USIZE_MOD"
  using priority_queue.lfu_reachable_inv [OF assms] by (simp add: lfu_inv_def)

theorem lfu_total_weight_witness:
  "total_weight sample_cache = weight_sum (lpq_items (queue sample_cache)) mod USIZE_MOD \<and>
   total_weight sample_cache = 68"
proof
  show "total_weight sample_cache = weight_sum (lpq_items (queue sample_cache)) mod USIZE_MOD"
    by (rule lfu_total_weight [OF lpq.priority_queue_axioms sample_cache_reachable])
  show "total_weight sample_cache = 68" by (simp add: sample_cache_eval)
qed

text \<open>
  \<open>remove\<close> on a reachable cache never fails its assertion: raising the entry to the priority
  \<open>(true, Reverse(0))\<close> makes it the one that is popped. The stored value is returned, only that
  key disappears, and the weight of the remaining entries is accounted for.
\<close>

theorem lfu_remove_correct:
  assumes "priority_queue api items" and "lfu_reachable api w c"
  shows "\<exists>c'. lfu_remove api w key c = Inr (lfu_view items c key, c') \<and>
    lfu_view items c' = (lfu_view items c)(key := None) \<and> lfu_inv items c'"
  using priority_queue.lfu_remove_spec [OF assms(1) priority_queue.lfu_reachable_inv [OF assms]] .

theorem lfu_remove_correct_witness:
  "\<exists>c'. lfu_remove lpq_api sample_weights 1 sample_cache = Inr (Some 20, c') \<and> lfu_view lpq_items c' 1 = None"
proof -
  have "lfu_view lpq_items sample_cache 1 = Some 20" by (simp add: sample_cache_eval lfu_view_def)
  then show ?thesis
    using lfu_remove_correct [OF lpq.priority_queue_axioms sample_cache_reachable, of 1] by auto
qed

text \<open>
  C20: \<open>evict\<close> on a reachable cache returns (it neither loops nor hits its panic about an empty
  cache), leaves a cache whose weight is at most the limit, and only drops entries.
\<close>

theorem lfu_evict_correct:
  assumes "priority_queue api items" and "lfu_reachable api w c"
  shows "\<exists>r c'. evict api max_weight c = Some (Inr (r, c')) \<and> total_weight c' \<le> max_weight \<and>
    lfu_inv items c' \<and> lfu_view items c' \<subseteq>\<^sub>m lfu_view items c"
  unfolding evict_def
  by (rule priority_queue.evict_with_period_spec [OF assms(1) priority_queue.lfu_reachable_inv [OF assms]])

theorem lfu_evict_correct_witness:
  "\<exists>r c'. evict lpq_api 30 sample_cache = Some (Inr (r, c')) \<and> total_weight c' \<le> 30"
  using lfu_evict_correct [OF lpq.priority_queue_axioms sample_cache_reachable, of 30] by blast

text \<open>
  C21: the eviction loop follows the documented policy. Every entry it drops has a priority at
  least as large as every entry it keeps: stale entries go before fresh ones, and among equally
  stale entries the less frequently used ones go first.
\<close>

theorem lfu_evict_order:
  assumes "priority_queue api items" and "lfu_reachable api w c"
    and "evict_loop fuel api max_weight 0 c = Some (Inr (ev, c'))"
    and "pq_len api (queue c) \<le> fuel"
    and "items (queue c) k = Some (e, p)" and "items (queue c') k = None"
    and "items (queue c') k' = Some (e', p')"
  shows "priority_le p' p"
proof -
  have "card (dom (items (queue c))) \<le> fuel"
    using assms(4) by (simp add: priority_queue.len_items [OF assms(1)])
  from priority_queue.evict_loop_spec [OF assms(1) priority_queue.lfu_reachable_inv [OF assms(1,2)] this,
      of max_weight 0] assms(3)
  have "\<forall>k e p k' e' p'. items (queue c) k = Some (e, p) \<longrightarrow> items (queue c') k = None \<longrightarrow>
       items (queue c') k' = Some (e', p') \<longrightarrow> priority_le p' p"
    by (simp del: split_paired_All)
  with assms(5-7) show ?thesis by blast
qed

theorem lfu_evict_order_witness:
  "\<exists>c'. evict_loop (Suc (Suc 0)) lpq_api 30 0 sample_cache = Some (Inr (39, c')) \<and>
     lpq_items (queue c') 2 = None \<and> lfu_view lpq_items c' 1 = Some 20 \<and>
     priority_le (False, Reverse 2) (False, Reverse 1)"
proof -
  let ?e1 = "\<lparr>ce_weight = 29, ce_key = 1, ce_value = 20, ce_will_stale = False\<rparr> :: (nat, nat) CacheEntry"
  let ?e2 = "\<lparr>ce_weight = 39, ce_key = 2, ce_value = 30, ce_will_stale = False\<rparr> :: (nat, nat) CacheEntry"
  let ?c' = "\<lparr>queue = [(?e1, (False, Reverse 2))], total_weight = 29, stale_counter = 0\<rparr>"
  have run: "evict_loop (Suc (Suc 0)) lpq_api 30 0 sample_cache = Some (Inr (39, ?c'))"
    and len: "pq_len lpq_api (queue sample_cache) \<le> Suc (Suc 0)"
    and e2: "lpq_items (queue sample_cache) 2 = Some (?e2, (False, Reverse 1))"
    and gone: "lpq_items (queue ?c') 2 = None"
    and kept: "lpq_items (queue ?c') 1 = Some (?e1, (False, Reverse 2))"
    by (simp_all add: sample_cache_eval lfu_eval)
  from lfu_evict_order [OF lpq.priority_queue_axioms sample_cache_reachable run len e2 gone kept]
  show ?thesis using run gone kept by (auto simp: lfu_view_def)
qed

text \<open>
  \<open>insert\<close> and \<open>get\<close> behave as a map: reading a key after an insertion returns the inserted
  value for that key and the earlier contents for every other key, reads change no contents, and
  \<open>contains_key\<close> says whether a read would return a value.
\<close>

theorem lfu_insert_get:
  assumes "priority_queue api items" and "lfu_reachable api w c"
  shows "fst (lfu_get api w k (lfu_insert api w key value c)) =
      (if k = key then Some value else fst (lfu_get api w k c)) \<and>
    lfu_view items (snd (lfu_get api w k c)) = lfu_view items c \<and>
    lfu_contains_key api w k c = (fst (lfu_get api w k c) \<noteq> None)"
  using priority_queue.lfu_get_result [OF assms(1)] priority_queue.lfu_insert_view [OF assms(1)]
    priority_queue.lfu_get_view [OF assms(1)] priority_queue.lfu_contains_key_iff [OF assms(1)]
  by simp

theorem lfu_insert_get_witness:
  "fst (lfu_get lpq_api sample_weights 1 (lfu_insert lpq_api sample_weights 1 99 sample_cache)) = Some 99 \<and>
   fst (lfu_get lpq_api sample_weights 2 (lfu_insert lpq_api sample_weights 1 99 sample_cache)) =
     fst (lfu_get lpq_api sample_weights 2 sample_cache)"
  using lfu_insert_get [OF lpq.priority_queue_axioms sample_cache_reachable, of 1 1 99]
    lfu_insert_get [OF lpq.priority_queue_axioms sample_cache_reachable, of 2 1 99] by simp



end
