(* ===== verification/Values.thy ===== *)
theory Values
  imports Prelude
begin

text \<open>
  The data model of the store, from \<^verbatim>\<open>graph/src/data/store/mod.rs\<close> and
  \<^verbatim>\<open>graph/src/data/graphql/ext.rs\<close>: attribute values, entities as maps from attribute names to
  values, the two ways of merging an update into an entity, and the validation of an entity
  against the object type of its schema. The lemmas give merging its meaning on maps and
  characterise exactly when validation accepts an entity.
\<close>

section \<open>Values\<close>

type_synonym u8 = "8 word"

text \<open>
  \<open>BigDecimal\<close> is kept as the pair that \<^verbatim>\<open>as_bigint_and_exponent\<close> returns; only its equality
  matters here. \<open>BigInt\<close> is an unbounded integer.
\<close>

datatype BigDecimal = BigDecimal int int

datatype ValueType =
    T_Boolean
  | T_BigInt
  | T_Bytes
  | T_BigDecimal
  | T_Int
  | T_String

datatype Value =
    V_String string
  | V_Int int
  | V_BigDecimal BigDecimal
  | V_Bool bool
  | V_List "Value list"
  | V_Null
  | V_Bytes "u8 list"
  | V_BigInt int

datatype value_error =
    TypeNotAvailable string
  | NotABigInt
  | MissingId
  | NonStringId

definition value_type_from_str :: "string \<Rightarrow> (value_error, ValueType) result" where
  "value_type_from_str s =
     (if s = ''Boolean'' then Inr T_Boolean
      else if s = ''BigInt'' then Inr T_BigInt
      else if s = ''Bytes'' then Inr T_Bytes
      else if s = ''BigDecimal'' then Inr T_BigDecimal
      else if s = ''Int'' then Inr T_Int
      else if s = ''String'' \<or> s = ''ID'' then Inr T_String
      else Inl (TypeNotAvailable s))"

definition is_scalar :: "string \<Rightarrow> bool" where
  "is_scalar s = (case value_type_from_str s of Inr _ \<Rightarrow> True | Inl _ \<Rightarrow> False)"

fun as_string :: "Value \<Rightarrow> string option" where
  "as_string (V_String s) = Some s"
| "as_string _ = None"

fun as_int :: "Value \<Rightarrow> int option" where
  "as_int (V_Int i) = Some i"
| "as_int _ = None"

fun as_big_decimal :: "Value \<Rightarrow> BigDecimal option" where
  "as_big_decimal (V_BigDecimal d) = Some d"
| "as_big_decimal _ = None"

fun as_bool :: "Value \<Rightarrow> bool option" where
  "as_bool (V_Bool b) = Some b"
| "as_bool _ = None"

fun as_list :: "Value \<Rightarrow> Value list option" where
  "as_list (V_List v) = Some v"
| "as_list _ = None"

fun as_bytes :: "Value \<Rightarrow> u8 list option" where
  "as_bytes (V_Bytes b) = Some b"
| "as_bytes _ = None"

fun as_bigint :: "Value \<Rightarrow> int option" where
  "as_bigint (V_BigInt b) = Some b"
| "as_bigint _ = None"

fun try_into_bigint :: "Value \<Rightarrow> (value_error, int option) result" where
  "try_into_bigint (V_BigInt n) = Inr (Some n)"
| "try_into_bigint V_Null = Inr None"
| "try_into_bigint _ = Inl NotABigInt"

fun type_name :: "Value \<Rightarrow> string" where
  "type_name (V_BigDecimal _) = ''BigDecimal''"
| "type_name (V_BigInt _) = ''BigInt''"
| "type_name (V_Bool _) = ''Boolean''"
| "type_name (V_Bytes _) = ''Bytes''"
| "type_name (V_Int _) = ''Int''"
| "type_name (V_List values) =
     (case values of v # _ \<Rightarrow> ''['' @ type_name v @ '']'' | [] \<Rightarrow> ''[Any]'')"
| "type_name V_Null = ''Null''"
| "type_name (V_String _) = ''String''"

fun is_assignable :: "Value \<Rightarrow> ValueType \<Rightarrow> bool \<Rightarrow> bool" where
  "is_assignable (V_String _) T_String is_list = True"
| "is_assignable (V_BigDecimal _) T_BigDecimal is_list = True"
| "is_assignable (V_BigInt _) T_BigInt is_list = True"
| "is_assignable (V_Bool _) T_Boolean is_list = True"
| "is_assignable (V_Bytes _) T_Bytes is_list = True"
| "is_assignable (V_Int _) T_Int is_list = True"
| "is_assignable V_Null _ is_list = True"
| "is_assignable (V_List vs) t is_list =
     (if is_list then list_all (\<lambda>v. is_assignable v t False) vs else False)"
| "is_assignable _ _ _ = False"

section \<open>Entities\<close>

type_synonym Attribute = string
type_synonym Entity = "(Attribute, Value) hash_map"

record EntityKey =
  subgraph_id :: string
  entity_type :: string
  entity_id :: string

definition is_poi :: "string \<Rightarrow> bool" where
  "is_poi ty = (ty = ''Poi$'')"

text \<open>
  The identifier of an entity. A \<open>Bytes\<close> identifier is printed as \<^verbatim>\<open>0x\<close> and its hex digits; the
  hex encoder comes from the \<^verbatim>\<open>hex\<close> crate and is the parameter \<open>hex\<close>.
\<close>

definition bytes_to_string :: "(u8 list \<Rightarrow> string) \<Rightarrow> u8 list \<Rightarrow> string" where
  "bytes_to_string hex b = ''0x'' @ hex b"

definition entity_get_id :: "(u8 list \<Rightarrow> string) \<Rightarrow> Entity \<Rightarrow> (value_error, string) result" where
  "entity_get_id hex e =
     (case hm_get e ''id'' of
        None \<Rightarrow> Inl MissingId
      | Some (V_String s) \<Rightarrow> Inr s
      | Some (V_Bytes b) \<Rightarrow> Inr (bytes_to_string hex b)
      | Some _ \<Rightarrow> Inl NonStringId)"

definition entity_new :: Entity where
  "entity_new = []"

text \<open>Merging: a loop over the entries of the update, in their iteration order.\<close>

definition merge :: "Entity \<Rightarrow> Entity \<Rightarrow> Entity" where
  "merge self update = fold (\<lambda>(key, value) e. hm_insert key value e) update self"

definition merge_remove_null_fields :: "Entity \<Rightarrow> Entity \<Rightarrow> Entity" where
  "merge_remove_null_fields self update =
     fold (\<lambda>(key, value) e.
             case value of V_Null \<Rightarrow> hm_remove key e | _ \<Rightarrow> hm_insert key value e)
          update self"

section \<open>Schema documents\<close>

datatype gql_type = NamedType string | ListType gql_type | NonNullType gql_type

record gql_field =
  field_name :: string
  field_type :: gql_type
  field_directives :: "string list"

record gql_object =
  object_name :: string
  object_fields :: "gql_field list"

datatype type_definition =
    TD_Object gql_object
  | TD_Interface string
  | TD_Enum string
  | TD_Scalar string
  | TD_Union string
  | TD_InputObject string

fun typedef_name :: "type_definition \<Rightarrow> string" where
  "typedef_name (TD_Object t) = object_name t"
| "typedef_name (TD_Enum n) = n"
| "typedef_name (TD_InputObject n) = n"
| "typedef_name (TD_Interface n) = n"
| "typedef_name (TD_Scalar n) = n"
| "typedef_name (TD_Union n) = n"

record Schema =
  definitions :: "type_definition list"
  types_for_interface :: "(string, gql_object list) hash_map"
  immutable_types :: "string list"

fun get_base_type :: "gql_type \<Rightarrow> string" where
  "get_base_type (NamedType name) = name"
| "get_base_type (NonNullType inner) = get_base_type inner"
| "get_base_type (ListType inner) = get_base_type inner"

fun is_list :: "gql_type \<Rightarrow> bool" where
  "is_list (NamedType _) = False"
| "is_list (NonNullType inner) = is_list inner"
| "is_list (ListType _) = True"

fun is_non_null :: "gql_type \<Rightarrow> bool" where
  "is_non_null (NonNullType _) = True"
| "is_non_null _ = False"

definition is_derived :: "gql_field \<Rightarrow> bool" where
  "is_derived f = list_ex (\<lambda>d. d = ''derivedFrom'') (field_directives f)"

definition object_field :: "gql_object \<Rightarrow> string \<Rightarrow> gql_field option" where
  "object_field t name = List.find (\<lambda>f. field_name f = name) (object_fields t)"

definition get_object_type_definitions :: "Schema \<Rightarrow> gql_object list" where
  "get_object_type_definitions schema =
     List.map_filter (\<lambda>d. case d of TD_Object t \<Rightarrow> Some t | _ \<Rightarrow> None) (definitions schema)"

definition get_named_type :: "Schema \<Rightarrow> string \<Rightarrow> type_definition option" where
  "get_named_type schema name = List.find (\<lambda>t. typedef_name t = name) (definitions schema)"

definition is_immutable :: "Schema \<Rightarrow> string \<Rightarrow> bool" where
  "is_immutable schema ty = List.member (immutable_types schema) ty"

section \<open>Validation\<close>

text \<open>
  \<open>scalar_value_type\<close> follows the type of the \<open>id\<close> field of an object type, so nothing bounds its
  recursion on an arbitrary document. It runs on fuel; \<open>None\<close> stands for running out of fuel and
  for the \<open>expect\<close> and \<open>unreachable\<close> panics of the source.
\<close>

fun scalar_value_type :: "nat \<Rightarrow> Schema \<Rightarrow> gql_type \<Rightarrow> ValueType option" where
  "scalar_value_type 0 schema ty = None"
| "scalar_value_type (Suc fuel) schema (NamedType name) =
     (case value_type_from_str name of
        Inr t \<Rightarrow> Some t
      | Inl _ \<Rightarrow>
          (case get_named_type schema name of
             Some (TD_Object obj_type) \<Rightarrow>
               (case object_field obj_type ''id'' of
                  None \<Rightarrow> None
                | Some fd \<Rightarrow> scalar_value_type fuel schema (field_type fd))
           | Some (TD_Interface intf) \<Rightarrow>
               (case hm_get (types_for_interface schema) intf of
                  None \<Rightarrow> None
                | Some [] \<Rightarrow> Some T_String
                | Some (obj_type # _) \<Rightarrow>
                    (case object_field obj_type ''id'' of
                       None \<Rightarrow> None
                     | Some fd \<Rightarrow> scalar_value_type fuel schema (field_type fd)))
           | Some (TD_Enum _) \<Rightarrow> Some T_String
           | _ \<Rightarrow> None))"
| "scalar_value_type (Suc fuel) schema (NonNullType inner) = scalar_value_type fuel schema inner"
| "scalar_value_type (Suc fuel) schema (ListType inner) = scalar_value_type fuel schema inner"

datatype validation_error =
    UnknownEntityType string
  | InhomogeneousList string nat string
  | WrongType string string
  | MissingNonNullable string
  | DerivedFieldSet string
  | SchemaPanic string

text \<open>The loop over the elements of a list value, with the index of the first bad element.\<close>

fun bad_element :: "ValueType \<Rightarrow> nat \<Rightarrow> Value list \<Rightarrow> (nat \<times> Value) option" where
  "bad_element t i [] = None"
| "bad_element t i (elt # elts) =
     (if \<not> is_assignable elt t False then Some (i, elt) else bad_element t (Suc i) elts)"

definition validate_field ::
  "nat \<Rightarrow> Schema \<Rightarrow> Entity \<Rightarrow> gql_field \<Rightarrow> (validation_error, unit) result" where
  "validate_field fuel schema self field =
     (case (hm_get self (field_name field), is_derived field) of
        (Some value, False) \<Rightarrow>
          (case scalar_value_type fuel schema (field_type field) of
             None \<Rightarrow> Inl (SchemaPanic (field_name field))
           | Some scalar_type \<Rightarrow>
               (case (if is_list (field_type field)
                      then (case value of V_List elts \<Rightarrow> bad_element scalar_type 0 elts
                                        | _ \<Rightarrow> None)
                      else None) of
                  Some (index, elt) \<Rightarrow>
                    Inl (InhomogeneousList (field_name field) index (type_name elt))
                | None \<Rightarrow>
                    (if \<not> is_assignable value scalar_type (is_list (field_type field))
                     then Inl (WrongType (field_name field) (type_name value))
                     else Inr ())))
      | (None, False) \<Rightarrow>
          (if is_non_null (field_type field)
           then Inl (MissingNonNullable (field_name field))
           else Inr ())
      | (Some _, True) \<Rightarrow> Inl (DerivedFieldSet (field_name field))
      | (None, True) \<Rightarrow> Inr ())"

definition validate ::
  "nat \<Rightarrow> Entity \<Rightarrow> Schema \<Rightarrow> EntityKey \<Rightarrow> (validation_error, unit) result" where
  "validate fuel self schema key =
     (if is_poi (entity_type key) then Inr ()
      else
        (case List.find (\<lambda>t. entity_type key = object_name t) (get_object_type_definitions schema) of
           None \<Rightarrow> Inl (UnknownEntityType (entity_type key))
         | Some object_type \<Rightarrow>
             try_fold (\<lambda>field _. validate_field fuel schema self field)
               (object_fields object_type) ()))"

section \<open>Identifier values\<close>

text \<open>
  \<^verbatim>\<open>Bytes::from_str\<close> strips every leading \<^verbatim>\<open>0x\<close> and decodes the rest; the decoder of the \<^verbatim>\<open>hex\<close>
  crate is the parameter \<open>unhex\<close>.
\<close>

fun trim_start_0x :: "string \<Rightarrow> string" where
  "trim_start_0x (a # b # s) =
     (if a = CHR ''0'' \<and> b = CHR ''x'' then trim_start_0x s else a # b # s)"
| "trim_start_0x s = s"

definition bytes_from_str :: "(string \<Rightarrow> u8 list option) \<Rightarrow> string \<Rightarrow> u8 list option" where
  "bytes_from_str unhex s = unhex (trim_start_0x s)"

datatype id_error =
    IdUnknownEntityType string
  | IdIllegalType string
  | IdFromHex string
  | IdPanic string

definition id_value ::
  "(string \<Rightarrow> u8 list option) \<Rightarrow> Schema \<Rightarrow> EntityKey \<Rightarrow> (id_error, Value) result" where
  "id_value unhex schema key =
     (case List.find (\<lambda>t. object_name t = entity_type key) (get_object_type_definitions schema) of
        None \<Rightarrow> Inl (IdUnknownEntityType (entity_type key))
      | Some t \<Rightarrow>
          (case object_field t ''id'' of
             None \<Rightarrow> Inl (IdPanic ''unwrap'')
           | Some fd \<Rightarrow>
               (let base_type = get_base_type (field_type fd) in
                if base_type = ''ID'' \<or> base_type = ''String'' then Inr (V_String (entity_id key))
                else if base_type = ''Bytes''
                then (case bytes_from_str unhex (entity_id key) of
                        None \<Rightarrow> Inl (IdFromHex (entity_id key))
                      | Some b \<Rightarrow> Inr (V_Bytes b))
                else Inl (IdIllegalType base_type))))"

section \<open>Merging on maps\<close>

text \<open>An entity without its explicit \<open>Null\<close> fields.\<close>

definition non_null :: "(Attribute \<rightharpoonup> Value) \<Rightarrow> Attribute \<rightharpoonup> Value" where
  "non_null m k = (case m k of Some V_Null \<Rightarrow> None | r \<Rightarrow> r)"

lemma non_null_idem [simp]: "non_null (non_null m) = non_null m"
  by (auto simp: non_null_def fun_eq_iff split: option.splits Value.splits)

lemma map_of_merge: "hm_wf update \<Longrightarrow> map_of (merge self update) = map_of self ++ map_of update"
  unfolding merge_def by (rule map_of_fold_insert)

text \<open>Null fields of the update delete, other fields overwrite.\<close>

definition overlay :: "(Attribute \<rightharpoonup> Value) \<Rightarrow> (Attribute \<rightharpoonup> Value) \<Rightarrow> Attribute \<rightharpoonup> Value" where
  "overlay m u k = (case u k of None \<Rightarrow> m k | Some V_Null \<Rightarrow> None | Some v \<Rightarrow> Some v)"

lemma map_of_merge_remove_null_fields:
  assumes "hm_wf update"
  shows "map_of (merge_remove_null_fields self update) = overlay (map_of self) (map_of update)"
  using assms
proof (induction update arbitrary: self)
  case Nil
  then show ?case by (simp add: merge_remove_null_fields_def overlay_def fun_eq_iff)
next
  case (Cons e u)
  obtain k v where e: "e = (k, v)" by (cases e)
  let ?s = "case v of V_Null \<Rightarrow> hm_remove k self | _ \<Rightarrow> hm_insert k v self"
  have "map_of (merge_remove_null_fields self (e # u)) = overlay (map_of ?s) (map_of u)"
    using Cons e by (simp add: merge_remove_null_fields_def)
  moreover from Cons.prems e have "map_of u k = None"
    by (simp add: map_of_eq_None_iff)
  ultimately show ?case
    using e by (auto simp: overlay_def fun_eq_iff split: option.splits Value.splits)
qed

lemma hm_wf_merge: "hm_wf self \<Longrightarrow> hm_wf (merge self update)"
  unfolding merge_def
  by (induction update arbitrary: self) (auto split: prod.splits)

lemma hm_wf_merge_remove_null_fields:
  "hm_wf self \<Longrightarrow> hm_wf (merge_remove_null_fields self update)"
  unfolding merge_remove_null_fields_def
  by (induction update arbitrary: self) (auto split: prod.splits Value.splits)

lemma overlay_assoc: "overlay m (u ++ w) = overlay (overlay m u) w"
  by (auto simp: overlay_def map_add_def fun_eq_iff split: option.splits Value.splits)

lemma non_null_overlay: "non_null (overlay m u) = overlay (non_null m) u"
  by (auto simp: overlay_def non_null_def fun_eq_iff split: option.splits Value.splits)

lemma non_null_map_add: "non_null (m ++ u) = overlay (non_null m) u"
  by (auto simp: overlay_def non_null_def map_add_def fun_eq_iff split: option.splits Value.splits)

lemma overlay_empty [simp]: "overlay Map.empty u = non_null u"
  by (auto simp: overlay_def non_null_def fun_eq_iff split: option.splits Value.splits)

lemma non_null_of_overlay_empty [simp]: "non_null (overlay (non_null m) u) = overlay (non_null m) u"
  by (simp add: non_null_overlay)

lemmas merge_maps = map_of_merge map_of_merge_remove_null_fields overlay_assoc
  non_null_overlay non_null_map_add

section \<open>What validation accepts\<close>

definition field_conforms :: "nat \<Rightarrow> Schema \<Rightarrow> Entity \<Rightarrow> gql_field \<Rightarrow> bool" where
  "field_conforms fuel schema e fd \<longleftrightarrow>
     (if is_derived fd then hm_get e (field_name fd) = None
      else (case hm_get e (field_name fd) of
              None \<Rightarrow> \<not> is_non_null (field_type fd)
            | Some v \<Rightarrow>
                (case scalar_value_type fuel schema (field_type fd) of
                   None \<Rightarrow> False
                 | Some t \<Rightarrow> is_assignable v t (is_list (field_type fd)))))"

lemma bad_element_None_iff:
  "bad_element t i elts = None \<longleftrightarrow> list_all (\<lambda>v. is_assignable v t False) elts"
  by (induction elts arbitrary: i) auto

lemma bad_element_SomeD:
  "bad_element t i elts = Some r \<Longrightarrow> \<not> list_all (\<lambda>v. is_assignable v t False) elts"
  using bad_element_None_iff [of t i elts] by simp

lemma validate_field_iff:
  "validate_field fuel schema e fd = Inr () \<longleftrightarrow> field_conforms fuel schema e fd"
  by (cases "is_list (field_type fd)")
    (auto simp: validate_field_def field_conforms_def bad_element_None_iff
      split: option.splits Value.splits dest: bad_element_SomeD)

lemma try_fold_unit_iff:
  "try_fold (\<lambda>x (_ :: unit). f x) xs () = Inr () \<longleftrightarrow> (\<forall>x \<in> set xs. f x = Inr ())"
  by (induction xs) (auto simp: and_then_eq_Inr_iff)

lemma validate_iff:
  "validate fuel e schema key = Inr () \<longleftrightarrow>
     is_poi (entity_type key) \<or>
     (\<exists>t. List.find (\<lambda>t. entity_type key = object_name t) (get_object_type_definitions schema) = Some t \<and>
          (\<forall>fd \<in> set (object_fields t). field_conforms fuel schema e fd))"
  by (auto simp: validate_def try_fold_unit_iff validate_field_iff split: option.splits)

text \<open>Enough fuel: on a document whose \<open>id\<close> fields have scalar types the recursion is short.\<close>

fun type_depth :: "gql_type \<Rightarrow> nat" where
  "type_depth (NamedType _) = 1"
| "type_depth (NonNullType t) = Suc (type_depth t)"
| "type_depth (ListType t) = Suc (type_depth t)"

definition scalar_id :: "nat \<Rightarrow> gql_object \<Rightarrow> bool" where
  "scalar_id d t \<longleftrightarrow>
     (case object_field t ''id'' of
        None \<Rightarrow> False
      | Some fd \<Rightarrow> is_scalar (get_base_type (field_type fd)) \<and> type_depth (field_type fd) \<le> d)"

definition known_type :: "nat \<Rightarrow> Schema \<Rightarrow> string \<Rightarrow> bool" where
  "known_type d schema name \<longleftrightarrow>
     is_scalar name \<or>
     (case get_named_type schema name of
        Some (TD_Object t) \<Rightarrow> scalar_id d t
      | Some (TD_Interface intf) \<Rightarrow>
          (case hm_get (types_for_interface schema) intf of
             None \<Rightarrow> False
           | Some ts \<Rightarrow> list_all (scalar_id d) ts)
      | Some (TD_Enum _) \<Rightarrow> True
      | _ \<Rightarrow> False)"

lemma scalar_value_type_scalar:
  assumes "is_scalar (get_base_type ty)" and "type_depth ty \<le> fuel"
  shows "scalar_value_type fuel schema ty \<noteq> None"
  using assms
proof (induction ty arbitrary: fuel)
  case (NamedType name)
  then show ?case by (cases fuel) (auto simp: is_scalar_def split: sum.splits)
next
  case (ListType ty)
  then show ?case by (cases fuel) auto
next
  case (NonNullType ty)
  then show ?case by (cases fuel) auto
qed

lemma scalar_value_type_scalar_id:
  assumes "scalar_id d t" and "d \<le> fuel"
  shows "\<exists>fd. object_field t ''id'' = Some fd \<and> scalar_value_type fuel schema (field_type fd) \<noteq> None"
  using assms scalar_value_type_scalar [of _ fuel schema]
  by (fastforce simp: scalar_id_def split: option.splits)

lemma scalar_value_type_total:
  assumes "known_type d schema (get_base_type ty)" and "type_depth ty + d \<le> fuel"
  shows "\<exists>t. scalar_value_type fuel schema ty = Some t"
  using assms
proof (induction ty arbitrary: fuel)
  case (NamedType name)
  then obtain f where f: "fuel = Suc f" "d \<le> f" by (cases fuel) auto
  show ?case
  proof (cases "is_scalar name")
    case True
    then show ?thesis using scalar_value_type_scalar [of "NamedType name" fuel schema] f by auto
  next
    case False
    then have nb: "\<exists>e. value_type_from_str name = Inl e"
      by (auto simp: is_scalar_def split: sum.splits)
    from NamedType.prems(1) False nb f show ?thesis
      by (auto simp: known_type_def list_all_iff split: option.splits type_definition.splits list.splits
          dest!: scalar_value_type_scalar_id [where fuel = f and schema = schema])
  qed
next
  case (ListType ty)
  then show ?case by (cases fuel) auto
next
  case (NonNullType ty)
  then show ?case by (cases fuel) auto
qed

section \<open>Properties of values and validation\<close>

text \<open>
  The encoding of bytes as hexadecimal digits is the \<^verbatim>\<open>hex\<close> crate's. What the code relies on is that
  decoding undoes encoding and that the encoding consists of hexadecimal digits. The reference
  encoder below is such a codec.
\<close>

definition hex_digits :: string where
  "hex_digits = ''0123456789abcdef''"

definition hex_codec :: "(u8 list \<Rightarrow> string) \<Rightarrow> (string \<Rightarrow> u8 list option) \<Rightarrow> bool" where
  "hex_codec hex unhex \<longleftrightarrow>
     (\<forall>b. unhex (hex b) = Some b) \<and> (\<forall>b. set (hex b) \<subseteq> set hex_digits)"

definition hex_digit :: "nat \<Rightarrow> char" where
  "hex_digit n = hex_digits ! n"

definition hex_ref :: "u8 list \<Rightarrow> string" where
  "hex_ref b = concat (map (\<lambda>x. [hex_digit (unat x div 16), hex_digit (unat x mod 16)]) b)"

definition digit_value :: "char \<Rightarrow> nat option" where
  "digit_value c = map_of (zip hex_digits [0..<16]) c"

fun unhex_ref :: "string \<Rightarrow> u8 list option" where
  "unhex_ref [] = Some []"
| "unhex_ref [c] = None"
| "unhex_ref (c # d # s) =
     (case (digit_value c, digit_value d, unhex_ref s) of
        (Some x, Some y, Some r) \<Rightarrow> Some (word_of_nat (16 * x + y) # r)
      | _ \<Rightarrow> None)"

lemma digit_value_hex_digit: "n < 16 \<Longrightarrow> digit_value (hex_digit n) = Some n"
proof -
  assume "n < 16"
  then have "n \<in> set [0..<16]" by simp
  moreover have "list_all (\<lambda>n. digit_value (hex_digit n) = Some n) [0..<16]" by code_simp
  ultimately show ?thesis by (simp add: list_all_iff)
qed

lemma hex_digit_range: "n < 16 \<Longrightarrow> hex_digit n \<in> set hex_digits"
  unfolding hex_digit_def by (rule nth_mem) (simp add: hex_digits_def)

lemma hex_ref_codec: "hex_codec hex_ref unhex_ref"
proof -
  have div: "unat (x :: u8) div 16 < 16" for x
  proof -
    have "unat x < 2 ^ LENGTH(8)" by (rule unsigned_less)
    then show ?thesis by simp
  qed
  have "unhex_ref (hex_ref b) = Some b" for b
    by (induction b) (simp_all add: hex_ref_def digit_value_hex_digit div)
  moreover have "set (hex_ref b) \<subseteq> set hex_digits" for b
    unfolding hex_ref_def using hex_digit_range div by (induction b) auto
  ultimately show ?thesis by (simp add: hex_codec_def)
qed

lemma trim_start_0x_hex: "set s \<subseteq> set hex_digits \<Longrightarrow> trim_start_0x s = s"
  by (cases s rule: trim_start_0x.cases) (auto simp: hex_digits_def)

text \<open>
  C18: printing bytes and parsing them back gives the same bytes, although parsing strips every
  leading \<^verbatim>\<open>0x\<close> and not just one: what the encoder prints has no further prefix to strip.
\<close>

theorem bytes_round_trip:
  assumes "hex_codec hex unhex"
  shows "bytes_from_str unhex (bytes_to_string hex b) = Some b"
  using assms by (simp add: bytes_from_str_def bytes_to_string_def trim_start_0x_hex hex_codec_def)

theorem bytes_round_trip_witness:
  "bytes_from_str unhex_ref (bytes_to_string hex_ref [0, 255, 16]) = Some [0, 255, 16]"
  by (rule bytes_round_trip [OF hex_ref_codec])


definition token_schema :: Schema where
  "token_schema = \<lparr>definitions = [TD_Object \<lparr>object_name = ''Token'', object_fields =
     [\<lparr>field_name = ''id'', field_type = NonNullType (NamedType ''ID''), field_directives = []\<rparr>,
      \<lparr>field_name = ''tags'', field_type = ListType (NamedType ''String''), field_directives = []\<rparr>]\<rparr>],
     types_for_interface = [], immutable_types = []\<rparr>"


text \<open>
  The documentation of \<open>validate\<close> says that an entity that passes can be stored. A
  non-nullable field that holds an explicit null passes: replacing the value of any field that is
  not derived by null never makes validation fail, whether the field is nullable or not.
\<close>

theorem explicit_null_is_valid:
  assumes "validate fuel e schema key = Inr ()"
    and "List.find (\<lambda>t. entity_type key = object_name t) (get_object_type_definitions schema) = Some t"
    and "\<forall>fd \<in> set (object_fields t). field_name fd = a \<longrightarrow>
      \<not> is_derived fd \<and> scalar_value_type fuel schema (field_type fd) \<noteq> None"
  shows "validate fuel (hm_insert a V_Null e) schema key = Inr ()"
proof -
  have "field_conforms fuel schema (hm_insert a V_Null e) fd"
    if "fd \<in> set (object_fields t)" "field_conforms fuel schema e fd" for fd
    using that assms(3) by (cases "field_name fd = a") (auto simp: field_conforms_def)
  with assms(1,2) show ?thesis by (auto simp: validate_iff)
qed

theorem explicit_null_is_valid_witness:
  "validate 3 (hm_insert ''id'' V_Null [(''id'', V_String ''a'')]) token_schema
     \<lparr>subgraph_id = ''Qm'', entity_type = ''Token'', entity_id = ''a''\<rparr> = Inr ()"
  by (rule explicit_null_is_valid [where t = "\<lparr>object_name = ''Token'', object_fields =
     [\<lparr>field_name = ''id'', field_type = NonNullType (NamedType ''ID''), field_directives = []\<rparr>,
      \<lparr>field_name = ''tags'', field_type = ListType (NamedType ''String''), field_directives = []\<rparr>]\<rparr>"])
    (simp_all add: validate_def validate_field_def token_schema_def get_object_type_definitions_def map_filter_simps
      is_poi_def is_derived_def value_type_from_str_def numeral_3_eq_3)

end
