(* ===== verification/Entity_Ops.thy ===== *)
theory Entity_Ops
  imports Values
begin

text \<open>
  Operations on single entities (\<^verbatim>\<open>graph/src/components/store/mod.rs\<close>): the operations a mapping
  issues, the operations the cache accumulates per entity, and the modifications that are sent to
  the store. The central lemma is that accumulating two operations is the same as applying one
  after the other, up to fields that hold an explicit null.
\<close>

section \<open>Operations and modifications\<close>

datatype EntityOperation =
    Set_Op EntityKey Entity
  | Remove_Op EntityKey

datatype EntityModification =
    Insert EntityKey Entity
  | Overwrite EntityKey Entity
  | Remove EntityKey

fun entity_key :: "EntityModification \<Rightarrow> EntityKey" where
  "entity_key (Insert key data) = key"
| "entity_key (Overwrite key data) = key"
| "entity_key (Remove key) = key"

fun modified_entity :: "EntityModification \<Rightarrow> Entity option" where
  "modified_entity (Insert key data) = Some data"
| "modified_entity (Overwrite key data) = Some data"
| "modified_entity (Remove key) = None"

fun is_remove :: "EntityModification \<Rightarrow> bool" where
  "is_remove (Remove key) = True"
| "is_remove _ = False"

datatype EntityOp =
    Op_Remove
  | Op_Update Entity
  | Op_Overwrite Entity

fun apply_to :: "EntityOp \<Rightarrow> Entity option \<Rightarrow> Entity option" where
  "apply_to Op_Remove _ = None"
| "apply_to (Op_Overwrite new) _ = Some new"
| "apply_to (Op_Update new) None = Some new"
| "apply_to (Op_Update updates) (Some entity) = Some (merge_remove_null_fields entity updates)"

fun accumulate :: "EntityOp \<Rightarrow> EntityOp \<Rightarrow> EntityOp" where
  "accumulate self Op_Remove = Op_Remove"
| "accumulate self (Op_Overwrite e) = Op_Overwrite e"
| "accumulate Op_Remove (Op_Update update) = Op_Overwrite update"
| "accumulate (Op_Update current) (Op_Update update) = Op_Update (merge current update)"
| "accumulate (Op_Overwrite current) (Op_Update update) = Op_Overwrite (merge current update)"

section \<open>The meaning of an entity\<close>

text \<open>
  Two entities mean the same to a mapping when they agree on every field that holds a value. A
  field with an explicit null is the same as an absent one, and \<^verbatim>\<open>__typename\<close> is not a field of
  the entity: the store adds it to what it reads.
\<close>

definition visible :: "Entity \<Rightarrow> Attribute \<rightharpoonup> Value" where
  "visible e = (non_null (map_of e))(''__typename'' := None)"

definition same_entity :: "Entity option \<Rightarrow> Entity option \<Rightarrow> bool" where
  "same_entity a b = (map_option visible a = map_option visible b)"

fun op_wf :: "EntityOp \<Rightarrow> bool" where
  "op_wf Op_Remove = True"
| "op_wf (Op_Update e) = hm_wf e"
| "op_wf (Op_Overwrite e) = hm_wf e"

text \<open>Applying a modification to the contents of a store.\<close>

fun apply_modification ::
  "EntityModification \<Rightarrow> (EntityKey \<Rightarrow> Entity option) \<Rightarrow> EntityKey \<Rightarrow> Entity option" where
  "apply_modification (Insert key data) s = s(key := Some data)"
| "apply_modification (Overwrite key data) s = s(key := Some data)"
| "apply_modification (Remove key) s = s(key := None)"

lemma apply_modification_alt:
  "apply_modification m s = s(entity_key m := modified_entity m)"
  by (cases m) simp_all

lemma same_entity_refl [simp]: "same_entity a a"
  by (simp add: same_entity_def)

lemma same_entity_sym: "same_entity a b \<Longrightarrow> same_entity b a"
  by (simp add: same_entity_def)

lemma same_entity_trans [trans]: "same_entity a b \<Longrightarrow> same_entity b c \<Longrightarrow> same_entity a c"
  by (simp add: same_entity_def)

lemma same_entity_None [simp]: "same_entity a None \<longleftrightarrow> a = None" "same_entity None a \<longleftrightarrow> a = None"
  by (auto simp: same_entity_def)

lemma same_entity_Some [simp]: "same_entity (Some a) (Some b) \<longleftrightarrow> visible a = visible b"
  by (auto simp: same_entity_def)

lemma same_entity_SomeD: "same_entity (Some a) b \<Longrightarrow> \<exists>c. b = Some c \<and> visible a = visible c"
  by (cases b) auto

lemma visible_hm_eq: "hm_eq a b \<Longrightarrow> visible a = visible b"
  by (simp add: hm_eq_iff visible_def)

lemma visible_remove_typename [simp]: "visible (hm_remove ''__typename'' e) = visible e"
  by (auto simp: visible_def non_null_def fun_eq_iff)

lemma visible_merge_remove_null_fields:
  assumes "hm_wf u"
  shows "visible (merge_remove_null_fields e u) = overlay (visible e) ((map_of u)(''__typename'' := None))"
  using assms
  by (auto simp: visible_def merge_maps overlay_def non_null_def fun_eq_iff split: option.splits Value.splits)

lemma visible_merge:
  assumes "hm_wf u"
  shows "visible (merge e u) = overlay (visible e) ((map_of u)(''__typename'' := None))"
  using assms
  by (auto simp: visible_def merge_maps overlay_def non_null_def fun_eq_iff split: option.splits Value.splits)

lemma visible_new_merge:
  "hm_wf u \<Longrightarrow> visible (merge_remove_null_fields entity_new u) = visible u"
  by (auto simp: visible_def entity_new_def merge_maps)

lemma apply_to_cong:
  assumes "same_entity a b" and "op_wf op"
  shows "same_entity (apply_to op a) (apply_to op b)"
  using assms
  by (cases op; cases a; cases b) (auto simp: visible_merge_remove_null_fields)

lemma op_wf_accumulate: "op_wf a \<Longrightarrow> op_wf b \<Longrightarrow> op_wf (accumulate a b)"
  by (cases a; cases b) (auto simp: hm_wf_merge)

lemma op_wf_foldl: "op_wf op \<Longrightarrow> list_all op_wf ops \<Longrightarrow> op_wf (foldl accumulate op ops)"
  by (induction ops arbitrary: op) (auto simp: op_wf_accumulate)

lemma apply_to_accumulate:
  assumes "op_wf a" and "op_wf b"
  shows "same_entity (apply_to (accumulate a b) e) (apply_to b (apply_to a e))"
proof -
  have *: "(m ++ n)(k := None) = m(k := None) ++ n(k := None)" for m n :: "Attribute \<rightharpoonup> Value" and k
    by (auto simp: map_add_def fun_eq_iff split: option.splits)
  show ?thesis
    using assms
    by (cases a; cases b; cases e)
      (simp_all add: visible_merge visible_merge_remove_null_fields merge_maps hm_wf_merge *)
qed

section \<open>Properties of entity operations\<close>

text \<open>
  C7: accumulating operations loses nothing. For every sequence of operations on an entity, the
  operation that \<open>accumulate\<close> folds them into has the effect of applying them one by one, for
  every previous state of the entity, up to fields that hold an explicit null.
\<close>

theorem accumulate_sequence:
  assumes "op_wf op" and "list_all op_wf ops"
  shows "same_entity (apply_to (foldl accumulate op ops) e) (foldl (\<lambda>x o'. apply_to o' x) (apply_to op e) ops)"
  using assms
proof (induction ops rule: rev_induct)
  case Nil
  then show ?case by simp
next
  case (snoc b ops)
  then have wf: "op_wf (foldl accumulate op ops)" "op_wf b"
    by (simp_all add: op_wf_foldl)
  have "same_entity (apply_to (foldl accumulate op (ops @ [b])) e) (apply_to b (apply_to (foldl accumulate op ops) e))"
    using wf by (simp add: apply_to_accumulate)
  also have "same_entity \<dots> (apply_to b (foldl (\<lambda>x o'. apply_to o' x) (apply_to op e) ops))"
    using snoc wf by (intro apply_to_cong) auto
  finally show ?case by simp
qed

theorem accumulate_sequence_witness:
  "same_entity
     (apply_to (foldl accumulate (Op_Update [(''a'', V_Int 1)]) [Op_Remove, Op_Update [(''b'', V_Int 2)]]) None)
     (Some [(''b'', V_Int 2)])"
  using accumulate_sequence [of "Op_Update [(''a'', V_Int 1)]" "[Op_Remove, Op_Update [(''b'', V_Int 2)]]" None]
  by simp

end
