(* ===== verification/Entity_Cache.thy ===== *)
theory Entity_Cache
  imports Lfu_Cache Entity_Ops
begin

text \<open>
  The entity cache of a block (\<^verbatim>\<open>graph/src/components/store/cache.rs\<close>): reads go through an
  \<open>LfuCache\<close> to the store, writes are accumulated per entity, and at the end of the block the
  accumulated operations become the modifications that are written.

  The store is reached through the part of the \<open>WritableStore\<close> trait the cache uses. Its contract
  is the locale \<open>entity_reader\<close>. Methods that take \<open>&mut self\<close> and can fail return the new state
  together with the result, because the code does not undo its changes when it returns an error.
\<close>

section \<open>State and environment\<close>

datatype cache_panic = AssertFailed | UnwrapFailed | LfuFailed lfu_panic | NoResult

datatype 'e cache_error =
    StoreFailed 'e
  | IdConflict string string string
  | IdValueFailed id_error
  | Invalid validation_error
  | ReadBackFailed
  | Panicked cache_panic

text \<open>What the cache uses of the store, and the code outside the repository it relies on.\<close>

record ('e, 'q) cache_env =
  ws_get :: "EntityKey \<Rightarrow> ('e, Entity option) result"
  ws_get_many :: "(string, string list) btree_map \<Rightarrow> ('e, (string, Entity list) btree_map) result"
  input_schema :: Schema
  validate_fuel :: nat
  hex_encode :: "u8 list \<Rightarrow> string"
  hex_decode :: "string \<Rightarrow> u8 list option"
  ce_api :: "('q, EntityKey, Entity option) pq_api"
  ce_weights :: "(EntityKey, Entity option) weights"
  entity_cache_size :: nat

record ('q, 'd) EntityCache =
  current :: "'q LfuCache"
  updates :: "(EntityKey, EntityOp) hash_map"
  handler_updates :: "(EntityKey, EntityOp) hash_map"
  in_handler :: bool
  data_sources :: "'d list"

record ('q, 'd) ModificationsAndCache =
  modifications :: "EntityModification list"
  mc_data_sources :: "'d list"
  entity_lfu_cache :: "'q LfuCache"

definition cache_new :: "('e, 'q) cache_env \<Rightarrow> ('q, 'd) EntityCache" where
  "cache_new env =
     \<lparr>current = lfu_new (ce_api env), updates = [], handler_updates = [], in_handler = False,
      data_sources = []\<rparr>"

definition with_current :: "'q LfuCache \<Rightarrow> ('q, 'd) EntityCache" where
  "with_current cur =
     \<lparr>current = cur, updates = [], handler_updates = [], in_handler = False, data_sources = []\<rparr>"

section \<open>Recording operations\<close>

text \<open>The \<open>entry\<close> match: insert into a vacant entry, accumulate onto an occupied one.\<close>

definition record_op ::
  "EntityKey \<Rightarrow> EntityOp \<Rightarrow> (EntityKey, EntityOp) hash_map \<Rightarrow> (EntityKey, EntityOp) hash_map" where
  "record_op key op ups =
     (case hm_get ups key of
        None \<Rightarrow> hm_insert key op ups
      | Some prev \<Rightarrow> hm_insert key (accumulate prev op) ups)"

definition entity_op ::
  "EntityKey \<Rightarrow> EntityOp \<Rightarrow> ('q, 'd) EntityCache \<Rightarrow> ('q, 'd) EntityCache" where
  "entity_op key op c =
     (if in_handler c then c\<lparr>handler_updates := record_op key op (handler_updates c)\<rparr>
      else c\<lparr>updates := record_op key op (updates c)\<rparr>)"

definition enter_handler ::
  "('q, 'd) EntityCache \<Rightarrow> (cache_panic, ('q, 'd) EntityCache) result" where
  "enter_handler c = (if in_handler c then Inl AssertFailed else Inr (c\<lparr>in_handler := True\<rparr>))"

text \<open>\<open>drain\<close> empties the handler's operations before they are replayed outside of the handler.\<close>

definition exit_handler ::
  "('q, 'd) EntityCache \<Rightarrow> (cache_panic, ('q, 'd) EntityCache) result" where
  "exit_handler c =
     (if \<not> in_handler c then Inl AssertFailed
      else Inr (fold (\<lambda>(key, op). entity_op key op) (handler_updates c)
                  (c\<lparr>in_handler := False, handler_updates := []\<rparr>)))"

definition exit_handler_and_discard_changes ::
  "('q, 'd) EntityCache \<Rightarrow> (cache_panic, ('q, 'd) EntityCache) result" where
  "exit_handler_and_discard_changes c =
     (if \<not> in_handler c then Inl AssertFailed
      else Inr (c\<lparr>in_handler := False, handler_updates := []\<rparr>))"

definition cache_remove :: "EntityKey \<Rightarrow> ('q, 'd) EntityCache \<Rightarrow> ('q, 'd) EntityCache" where
  "cache_remove key c = entity_op key Op_Remove c"

fun operation_op :: "EntityOperation \<Rightarrow> ('q, 'd) EntityCache \<Rightarrow> ('q, 'd) EntityCache" where
  "operation_op (Set_Op key data) c = entity_op key (Op_Update data) c"
| "operation_op (Remove_Op key) c = entity_op key Op_Remove c"

definition cache_append ::
  "EntityOperation list \<Rightarrow> ('q, 'd) EntityCache \<Rightarrow> (cache_panic, ('q, 'd) EntityCache) result" where
  "cache_append operations c =
     (if in_handler c then Inl AssertFailed else Inr (fold operation_op operations c))"

definition add_data_source :: "'d \<Rightarrow> ('q, 'd) EntityCache \<Rightarrow> ('q, 'd) EntityCache" where
  "add_data_source ds c = c\<lparr>data_sources := data_sources c @ [ds]\<rparr>"

definition cache_extend ::
  "('e, 'q) cache_env \<Rightarrow> ('q, 'd) EntityCache \<Rightarrow> ('q, 'd) EntityCache \<Rightarrow>
   (cache_panic, ('q, 'd) EntityCache) result" where
  "cache_extend env other c =
     (if in_handler other then Inl AssertFailed
      else Inr (fold (\<lambda>(key, op). entity_op key op) (updates other)
                  (c\<lparr>current := lfu_extend (ce_api env) (lfu_into_iter (ce_api env) (current other)) (current c)\<rparr>)))"

section \<open>Reading\<close>

definition get_entity ::
  "('e, 'q) cache_env \<Rightarrow> EntityKey \<Rightarrow> 'q LfuCache \<Rightarrow>
   ('e cache_error, Entity option) result \<times> 'q LfuCache" where
  "get_entity env key cur =
     (case lfu_get (ce_api env) (ce_weights env) key cur of
        (None, cur1) \<Rightarrow>
          (case ws_get env key of
             Inl e \<Rightarrow> (Inl (StoreFailed e), cur1)
           | Inr entity \<Rightarrow>
               (let entity1 = map_option (hm_remove ''__typename'') entity
                in (Inr entity1, lfu_insert (ce_api env) (ce_weights env) key entity1 cur1)))
      | (Some data, cur1) \<Rightarrow> (Inr data, cur1))"

definition apply_recorded :: "(EntityKey, EntityOp) hash_map \<Rightarrow> EntityKey \<Rightarrow> Entity option \<Rightarrow> Entity option" where
  "apply_recorded ups key entity =
     (case hm_get ups key of None \<Rightarrow> entity | Some op \<Rightarrow> apply_to op entity)"

definition cache_get ::
  "('e, 'q) cache_env \<Rightarrow> EntityKey \<Rightarrow> ('q, 'd) EntityCache \<Rightarrow>
   ('e cache_error, Entity option) result \<times> ('q, 'd) EntityCache" where
  "cache_get env key c =
     (case get_entity env key (current c) of
        (Inl e, cur) \<Rightarrow> (Inl e, c\<lparr>current := cur\<rparr>)
      | (Inr entity, cur) \<Rightarrow>
          (Inr (apply_recorded (handler_updates c) key (apply_recorded (updates c) key entity)),
           c\<lparr>current := cur\<rparr>))"

section \<open>Setting an entity\<close>

definition check_id :: "EntityKey \<Rightarrow> string \<Rightarrow> ('e cache_error, unit) result" where
  "check_id key prev_id =
     (if prev_id \<noteq> entity_id key then Inl (IdConflict (entity_type key) prev_id (entity_id key))
      else Inr ())"

text \<open>The entity with its id filled in, or the error about a conflicting id.\<close>

definition with_id :: "('e, 'q) cache_env \<Rightarrow> EntityKey \<Rightarrow> Entity \<Rightarrow> ('e cache_error, Entity) result" where
  "with_id env key entity =
     (case hm_get entity ''id'' of
        Some (V_String s) \<Rightarrow> and_then (check_id key s) (\<lambda>_. Inr entity)
      | Some (V_Bytes b) \<Rightarrow> and_then (check_id key (bytes_to_string (hex_encode env) b)) (\<lambda>_. Inr entity)
      | Some _ \<Rightarrow> Inr entity
      | None \<Rightarrow>
          (case id_value (hex_decode env) (input_schema env) key of
             Inl e \<Rightarrow> Inl (IdValueFailed e)
           | Inr value \<Rightarrow> Inr (hm_insert ''id'' value entity)))"

definition cache_set ::
  "('e, 'q) cache_env \<Rightarrow> EntityKey \<Rightarrow> Entity \<Rightarrow> ('q, 'd) EntityCache \<Rightarrow>
   ('e cache_error, unit) result \<times> ('q, 'd) EntityCache" where
  "cache_set env key entity c =
     (case with_id env key entity of
        Inl e \<Rightarrow> (Inl e, c)
      | Inr entity1 \<Rightarrow>
          (let is_valid = (validate (validate_fuel env) entity1 (input_schema env) key = Inr ());
               c1 = entity_op key (Op_Update entity1) c
           in if is_valid then (Inr (), c1)
              else
                (case cache_get env key c1 of
                   (Inl e, c2) \<Rightarrow> (Inl e, c2)
                 | (Inr None, c2) \<Rightarrow> (Inl ReadBackFailed, c2)
                 | (Inr (Some merged), c2) \<Rightarrow>
                     (case validate (validate_fuel env) merged (input_schema env) key of
                        Inl e \<Rightarrow> (Inl (Invalid e), c2)
                      | Inr _ \<Rightarrow> (Inr (), c2)))))"

section \<open>Producing modifications\<close>

text \<open>The updated entities that are neither cached nor of an immutable type, grouped for the lookup.\<close>

definition missing_keys :: "('e, 'q) cache_env \<Rightarrow> ('q, 'd) EntityCache \<Rightarrow> EntityKey list" where
  "missing_keys env c =
     filter (\<lambda>key. \<not> is_immutable (input_schema env) (entity_type key))
       (filter (\<lambda>key. \<not> lfu_contains_key (ce_api env) (ce_weights env) key (current c)) (hm_keys (updates c)))"

definition add_missing ::
  "EntityKey \<Rightarrow> (string, (string, string list) btree_map) btree_map \<Rightarrow>
   (string, (string, string list) btree_map) btree_map" where
  "add_missing key m =
     bt_entry (subgraph_id key) []
       (bt_entry (entity_type key) [] (\<lambda>ids. ids @ [entity_id key])) m"

definition missing_by_subgraph ::
  "EntityKey list \<Rightarrow> (string, (string, string list) btree_map) btree_map" where
  "missing_by_subgraph missing = fold add_missing missing []"

definition load_entity ::
  "('e, 'q) cache_env \<Rightarrow> string \<Rightarrow> string \<Rightarrow> Entity \<Rightarrow> 'q LfuCache \<Rightarrow> ('e cache_error, 'q LfuCache) result" where
  "load_entity env sid ty entity cur =
     (case entity_get_id (hex_encode env) entity of
        Inl _ \<Rightarrow> Inl (Panicked UnwrapFailed)
      | Inr eid \<Rightarrow>
          Inr (lfu_insert (ce_api env) (ce_weights env)
                 \<lparr>subgraph_id = sid, entity_type = ty, entity_id = eid\<rparr> (Some entity) cur))"

definition load_missing ::
  "('e, 'q) cache_env \<Rightarrow> string \<times> (string, string list) btree_map \<Rightarrow> 'q LfuCache \<Rightarrow>
   ('e cache_error, 'q LfuCache) result" where
  "load_missing env = (\<lambda>(sid, keys) cur.
     (case ws_get_many env keys of
        Inl e \<Rightarrow> Inl (StoreFailed e)
      | Inr entities_for_type \<Rightarrow>
          try_fold (\<lambda>(ty, entities). try_fold (load_entity env sid ty) entities) entities_for_type cur))"

text \<open>
  The modification for one entity, and what is put into \<open>current\<close> for it (\<open>None\<close> for nothing).
\<close>

fun modification_for ::
  "EntityKey \<Rightarrow> Entity option \<Rightarrow> EntityOp \<Rightarrow> EntityModification option \<times> Entity option option" where
  "modification_for key None (Op_Update ups) =
     (let data = merge_remove_null_fields entity_new ups in (Some (Insert key data), Some (Some data)))"
| "modification_for key None (Op_Overwrite ups) =
     (let data = merge_remove_null_fields entity_new ups in (Some (Insert key data), Some (Some data)))"
| "modification_for key (Some cur) (Op_Update ups) =
     (let data = merge_remove_null_fields cur ups
      in (if \<not> hm_eq cur data then Some (Overwrite key data) else None, Some (Some data)))"
| "modification_for key (Some cur) (Op_Overwrite data) =
     (if \<not> hm_eq cur data then Some (Overwrite key data) else None, Some (Some data))"
| "modification_for key (Some cur) Op_Remove = (Some (Remove key), Some None)"
| "modification_for key None Op_Remove = (None, None)"

definition modification_step ::
  "('e, 'q) cache_env \<Rightarrow> EntityKey \<times> EntityOp \<Rightarrow> EntityModification list \<times> 'q LfuCache \<Rightarrow>
   ('e cache_error, EntityModification list \<times> 'q LfuCache) result" where
  "modification_step env = (\<lambda>(key, update) (mods, cur).
     (case lfu_remove (ce_api env) (ce_weights env) key cur of
        Inl p \<Rightarrow> Inl (Panicked (LfuFailed p))
      | Inr (found, cur1) \<Rightarrow>
          (let (m, ins) = modification_for key (flatten found) update;
               cur2 = (case ins of None \<Rightarrow> cur1
                       | Some data \<Rightarrow> lfu_insert (ce_api env) (ce_weights env) key data cur1)
           in Inr (case m of None \<Rightarrow> mods | Some md \<Rightarrow> mods @ [md], cur2))))"

definition as_modifications ::
  "('e, 'q) cache_env \<Rightarrow> ('q, 'd) EntityCache \<Rightarrow> ('e cache_error, ('q, 'd) ModificationsAndCache) result" where
  "as_modifications env c =
     (if in_handler c then Inl (Panicked AssertFailed)
      else
        and_then (try_fold (load_missing env) (missing_by_subgraph (missing_keys env c)) (current c)) (\<lambda>cur1.
        and_then (try_fold (modification_step env) (updates c) ([], cur1)) (\<lambda>(mods, cur2).
          (case evict (ce_api env) (entity_cache_size env) cur2 of
             None \<Rightarrow> Inl (Panicked NoResult)
           | Some (Inl p) \<Rightarrow> Inl (Panicked (LfuFailed p))
           | Some (Inr (_, cur3)) \<Rightarrow>
               Inr \<lparr>modifications = mods, mc_data_sources = data_sources c, entity_lfu_cache = cur3\<rparr>))))"

section \<open>Well-formed caches and what they stand for\<close>

text \<open>
  \<open>S\<close> is the contents of the store while the block is processed. A cache of store reads is
  coherent when every entry means the same as the store's entity.
\<close>

definition coherent ::
  "('q \<Rightarrow> EntityKey \<Rightarrow> ((EntityKey, Entity option) CacheEntry \<times> Priority) option) \<Rightarrow>
   (EntityKey \<Rightarrow> Entity option) \<Rightarrow> 'q LfuCache \<Rightarrow> bool" where
  "coherent items S cur \<longleftrightarrow>
     lfu_inv items cur \<and> (\<forall>k eo. lfu_view items cur k = Some eo \<longrightarrow> same_entity eo (S k))"

definition ops_wf :: "(EntityKey, EntityOp) hash_map \<Rightarrow> bool" where
  "ops_wf ups \<longleftrightarrow> hm_wf ups \<and> list_all (\<lambda>x. op_wf (snd x)) ups"

definition cache_ok ::
  "('q \<Rightarrow> EntityKey \<Rightarrow> ((EntityKey, Entity option) CacheEntry \<times> Priority) option) \<Rightarrow>
   (EntityKey \<Rightarrow> Entity option) \<Rightarrow> ('q, 'd) EntityCache \<Rightarrow> bool" where
  "cache_ok items S c \<longleftrightarrow>
     coherent items S (current c) \<and> ops_wf (updates c) \<and> ops_wf (handler_updates c) \<and>
     (\<not> in_handler c \<longrightarrow> handler_updates c = [])"

text \<open>The value of an entity as the cache presents it: the store's, with the recorded operations applied.\<close>

definition cache_value :: "(EntityKey \<Rightarrow> Entity option) \<Rightarrow> ('q, 'd) EntityCache \<Rightarrow> EntityKey \<Rightarrow> Entity option" where
  "cache_value S c k = apply_recorded (handler_updates c) k (apply_recorded (updates c) k (S k))"

text \<open>A lookup of many entities returns exactly the requested entities that exist.\<close>

definition many_result ::
  "(u8 list \<Rightarrow> string) \<Rightarrow> (EntityKey \<Rightarrow> Entity option) \<Rightarrow> (string, string list) btree_map \<Rightarrow>
   (string, Entity list) btree_map \<Rightarrow> bool" where
  "many_result hex S keys res \<longleftrightarrow>
     (\<forall>(ty, es) \<in> set res. \<forall>e \<in> set es. \<exists>eid. entity_get_id hex e = Inr eid \<and>
        (\<forall>sid. S \<lparr>subgraph_id = sid, entity_type = ty, entity_id = eid\<rparr> = Some e)) \<and>
     (\<forall>sid ty ids eid e. map_of keys ty = Some ids \<longrightarrow> eid \<in> set ids \<longrightarrow>
        S \<lparr>subgraph_id = sid, entity_type = ty, entity_id = eid\<rparr> = Some e \<longrightarrow>
        (\<exists>es. (ty, es) \<in> set res \<and> e \<in> set es))"

lemma ops_wf_lookup: "ops_wf ups \<Longrightarrow> hm_get ups k = Some op \<Longrightarrow> op_wf op"
  by (auto simp: ops_wf_def list_all_iff dest!: map_of_SomeD)

lemma ops_wf_Nil [simp]: "ops_wf []"
  by (simp add: ops_wf_def)

lemma ops_wf_insert: "ops_wf ups \<Longrightarrow> op_wf op \<Longrightarrow> ops_wf (hm_insert k op ups)"
proof -
  have "list_all (\<lambda>x. op_wf (snd x)) ups \<Longrightarrow> op_wf op \<Longrightarrow> list_all (\<lambda>x. op_wf (snd x)) (hm_insert k op ups)"
    by (induction ups) auto
  then show "ops_wf ups \<Longrightarrow> op_wf op \<Longrightarrow> ops_wf (hm_insert k op ups)"
    by (simp add: ops_wf_def)
qed

lemma record_op_get:
  "hm_get (record_op k op ups) = (hm_get ups)(k \<mapsto> (case hm_get ups k of None \<Rightarrow> op | Some prev \<Rightarrow> accumulate prev op))"
  by (auto simp: record_op_def split: option.splits)

lemma record_op_wf: "ops_wf ups \<Longrightarrow> op_wf op \<Longrightarrow> ops_wf (record_op k op ups)"
  by (auto simp: record_op_def op_wf_accumulate ops_wf_insert ops_wf_lookup split: option.splits)

lemma apply_recorded_cong:
  "ops_wf ups \<Longrightarrow> same_entity a b \<Longrightarrow> same_entity (apply_recorded ups k a) (apply_recorded ups k b)"
  by (auto simp: apply_recorded_def apply_to_cong ops_wf_lookup split: option.splits)

lemma apply_recorded_Nil [simp]: "apply_recorded [] k e = e"
  by (simp add: apply_recorded_def)

lemma apply_recorded_record_op:
  assumes "ops_wf ups" and "op_wf op"
  shows "same_entity (apply_recorded (record_op key op ups) k e)
    (if k = key then apply_to op (apply_recorded ups k e) else apply_recorded ups k e)"
  using assms
  by (auto simp: apply_recorded_def record_op_get apply_to_accumulate ops_wf_lookup split: option.splits)

text \<open>Replaying a handler's operations on top of the earlier ones.\<close>

lemma apply_recorded_fold:
  assumes "ops_wf hs" and "ops_wf ups"
  shows "ops_wf (fold (\<lambda>(key, op). record_op key op) hs ups) \<and>
    same_entity (apply_recorded (fold (\<lambda>(key, op). record_op key op) hs ups) k e)
      (apply_recorded hs k (apply_recorded ups k e))"
  using assms
proof (induction hs arbitrary: ups)
  case Nil
  then show ?case by simp
next
  case (Cons h hs)
  obtain key op where h: "h = (key, op)" by (cases h)
  from Cons.prems h have wf: "ops_wf hs" "op_wf op" "key \<notin> set (hm_keys hs)"
    by (auto simp: ops_wf_def)
  let ?ups = "record_op key op ups"
  have IH: "ops_wf (fold (\<lambda>(key, op). record_op key op) hs ?ups)"
    "same_entity (apply_recorded (fold (\<lambda>(key, op). record_op key op) hs ?ups) k e)
      (apply_recorded hs k (apply_recorded ?ups k e))"
    using Cons.IH [OF wf(1), of ?ups] record_op_wf [OF Cons.prems(2) wf(2)] by auto
  have "same_entity (apply_recorded hs k (apply_recorded ?ups k e))
      (apply_recorded hs k (if k = key then apply_to op (apply_recorded ups k e) else apply_recorded ups k e))"
    by (intro apply_recorded_cong apply_recorded_record_op wf Cons.prems)
  also have "\<dots> = apply_recorded (h # hs) k (apply_recorded ups k e)"
    using wf(3) by (cases "k = key") (simp_all add: h apply_recorded_def map_of_eq_None_iff [THEN iffD2])
  finally show ?case using IH h by (auto intro: same_entity_trans)
qed

lemma fold_entity_op_outside:
  "\<not> in_handler c \<Longrightarrow>
   fold (\<lambda>(key, op). entity_op key op) hs c =
     c\<lparr>updates := fold (\<lambda>(key, op). record_op key op) hs (updates c)\<rparr>"
  by (induction hs arbitrary: c) (auto simp: entity_op_def split: prod.splits)

lemma entity_op_value:
  assumes "cache_ok items S c" and "op_wf op"
  shows "cache_ok items S (entity_op key op c) \<and>
    same_entity (cache_value S (entity_op key op c) k)
      (if k = key then apply_to op (cache_value S c k) else cache_value S c k)"
proof (cases "in_handler c")
  case True
  then show ?thesis
    using assms apply_recorded_record_op [of "handler_updates c" op key k]
    by (auto simp: entity_op_def cache_ok_def cache_value_def record_op_wf)
next
  case False
  with assms have "handler_updates c = []" by (simp add: cache_ok_def)
  with False show ?thesis
    using assms apply_recorded_record_op [of "updates c" op key k]
    by (auto simp: entity_op_def cache_ok_def cache_value_def record_op_wf)
qed

text \<open>A later view of the cache, in which some entries were filled with the store's entities.\<close>

definition refreshed ::
  "(EntityKey \<Rightarrow> Entity option) \<Rightarrow> (EntityKey \<rightharpoonup> Entity option) \<Rightarrow> (EntityKey \<rightharpoonup> Entity option) \<Rightarrow> bool" where
  "refreshed S v v' \<longleftrightarrow> (\<forall>k. v' k = v k \<or> (S k \<noteq> None \<and> v' k = Some (S k)))"

lemma refreshed_refl [simp]: "refreshed S v v"
  by (simp add: refreshed_def)

lemma refreshed_trans: "refreshed S u v \<Longrightarrow> refreshed S v w \<Longrightarrow> refreshed S u w"
  unfolding refreshed_def by metis

lemma refreshed_loaded: "refreshed S v w \<Longrightarrow> v k = Some (S k) \<Longrightarrow> w k = Some (S k)"
  unfolding refreshed_def by metis

text \<open>A lookup in the grouped keys.\<close>

definition grouped :: "(string, (string, string list) btree_map) btree_map \<Rightarrow> EntityKey \<Rightarrow> bool" where
  "grouped m k \<longleftrightarrow> (\<exists>keys ids. map_of m (subgraph_id k) = Some keys \<and>
     map_of keys (entity_type k) = Some ids \<and> entity_id k \<in> set ids)"

definition groups_wf :: "(string, (string, string list) btree_map) btree_map \<Rightarrow> bool" where
  "groups_wf m \<longleftrightarrow> bt_wf m \<and> (\<forall>sid keys. map_of m sid = Some keys \<longrightarrow> bt_wf keys)"

lemma add_missing_wf: "groups_wf m \<Longrightarrow> groups_wf (add_missing key m)"
  by (auto simp: groups_wf_def add_missing_def map_of_bt_entry split: option.splits)

lemma add_missing_grouped:
  assumes "groups_wf m"
  shows "grouped (add_missing key m) k \<longleftrightarrow> k = key \<or> grouped m k"
proof -
  have "grouped (add_missing key m) k \<longleftrightarrow>
      (subgraph_id k = subgraph_id key \<and> entity_type k = entity_type key \<and> entity_id k = entity_id key) \<or> grouped m k"
    using assms
    by (auto simp: grouped_def groups_wf_def add_missing_def map_of_bt_entry split: option.splits if_splits)
  then show ?thesis by (auto simp: EntityKey.equality)
qed

lemma missing_by_subgraph_grouped:
  "groups_wf (missing_by_subgraph ks) \<and> (grouped (missing_by_subgraph ks) k \<longleftrightarrow> k \<in> set ks)"
proof -
  have "groups_wf m \<Longrightarrow> groups_wf (fold add_missing ks m) \<and>
      (grouped (fold add_missing ks m) k \<longleftrightarrow> k \<in> set ks \<or> grouped m k)" for m
    by (induction ks arbitrary: m) (auto simp: add_missing_wf add_missing_grouped)
  from this [of "[]"] show ?thesis
    by (simp add: missing_by_subgraph_def groups_wf_def grouped_def)
qed

text \<open>What the modification loop computes for an entity with the given cached value.\<close>

lemma modification_for_key: "fst (modification_for key cur op) = Some m \<Longrightarrow> entity_key m = key"
  by (cases cur; cases op) (auto simp: Let_def split: if_splits)

definition modification_value :: "EntityModification option \<Rightarrow> Entity option \<Rightarrow> Entity option" where
  "modification_value m e = (case m of None \<Rightarrow> e | Some md \<Rightarrow> modified_entity md)"

lemma modification_for_value:
  assumes "same_entity cur e" and "op_wf op"
  shows "same_entity (modification_value (fst (modification_for key cur op)) e) (apply_to op e)"
proof (cases cur)
  case None
  with assms show ?thesis
    by (cases op) (auto simp: Let_def modification_value_def visible_new_merge)
next
  case (Some c)
  with assms(1) obtain d where d: "e = Some d" "visible c = visible d"
    using same_entity_SomeD by blast
  show ?thesis
  proof (cases op)
    case (Op_Update u)
    let ?data = "merge_remove_null_fields c u"
    have v: "visible ?data = visible (merge_remove_null_fields d u)"
      using assms(2) d Op_Update by (simp add: visible_merge_remove_null_fields)
    show ?thesis
      using visible_hm_eq [of c ?data] v d Some Op_Update
      by (simp add: Let_def modification_value_def)
  next
    case (Op_Overwrite u)
    then show ?thesis
      using visible_hm_eq [of c u] d Some by (simp add: modification_value_def)
  qed (simp add: Some modification_value_def)
qed

lemma modification_for_cached:
  assumes "same_entity cur e" and "snd (modification_for key cur op) = Some eo"
  shows "same_entity eo (modification_value (fst (modification_for key cur op)) e)"
proof (cases cur)
  case None
  with assms show ?thesis by (cases op) (auto simp: Let_def modification_value_def)
next
  case (Some c)
  with assms(1) obtain d where d: "e = Some d" "visible c = visible d"
    using same_entity_SomeD by blast
  show ?thesis
    using assms(2) visible_hm_eq [of c] d Some
    by (cases op) (auto simp: Let_def modification_value_def)
qed

lemma fold_apply_modification:
  assumes "distinct (map entity_key mods)"
  shows "fold apply_modification mods S k =
    modification_value (List.find (\<lambda>m. entity_key m = k) mods) (S k)"
  using assms
proof (induction mods arbitrary: S)
  case Nil
  then show ?case by (simp add: modification_value_def)
next
  case (Cons m mods)
  have "List.find (\<lambda>x. entity_key x = k) mods = None" if "entity_key m = k"
  proof -
    have "k \<notin> entity_key ` set mods" using Cons.prems that by auto
    then show ?thesis by (auto simp: find_None_iff)
  qed
  with Cons show ?case
    by (auto simp: apply_modification_alt modification_value_def split: option.splits)
qed

text \<open>The modifications of a whole block, given the cached value \<open>cur\<close> of every entity.\<close>

definition block_modifications ::
  "(EntityKey \<Rightarrow> Entity option) \<Rightarrow> (EntityKey, EntityOp) hash_map \<Rightarrow> EntityModification list" where
  "block_modifications cur ups = List.map_filter (\<lambda>(key, op). fst (modification_for key (cur key) op)) ups"

lemma block_modifications_simps [simp]:
  "block_modifications cur [] = []"
  "block_modifications cur ((key, op) # ups) =
     (case fst (modification_for key (cur key) op) of None \<Rightarrow> [] | Some m \<Rightarrow> [m]) @ block_modifications cur ups"
  by (simp_all add: block_modifications_def map_filter_simps split: option.splits)

lemma block_modifications_keys:
  assumes "hm_wf ups"
  shows "distinct (map entity_key (block_modifications cur ups))"
    and "set (map entity_key (block_modifications cur ups)) \<subseteq> set (hm_keys ups)"
  using distinct_keys_map_filter [of ups "\<lambda>(key, op). fst (modification_for key (cur key) op)" entity_key fst] assms
  by (auto simp: block_modifications_def modification_for_key split: prod.splits)

lemma block_modifications_apply:
  assumes "hm_wf ups"
  shows "fold apply_modification (block_modifications cur ups) S k =
    (case hm_get ups k of None \<Rightarrow> S k
     | Some op \<Rightarrow> modification_value (fst (modification_for k (cur k) op)) (S k))"
proof -
  have "List.find (\<lambda>m. entity_key m = k) (block_modifications cur ups) =
      (case List.find (\<lambda>x. fst x = k) ups of None \<Rightarrow> None
       | Some (key, op) \<Rightarrow> fst (modification_for key (cur key) op))"
    unfolding block_modifications_def using assms
    by (subst find_map_filter [where key' = fst]) (auto simp: modification_for_key split: option.splits)
  then show ?thesis
    using fold_apply_modification [OF block_modifications_keys(1) [OF assms], of cur S k]
    by (simp add: find_fst_map_of modification_value_def split: option.splits)
qed

lemma block_modifications_value:
  assumes "ops_wf ups" and "\<And>k. k \<in> set (hm_keys ups) \<Longrightarrow> same_entity (cur k) (S k)"
  shows "same_entity (fold apply_modification (block_modifications cur ups) S k) (apply_recorded ups k (S k))"
proof (cases "hm_get ups k")
  case None
  with assms(1) show ?thesis by (simp add: block_modifications_apply ops_wf_def apply_recorded_def)
next
  case (Some op)
  then have "k \<in> set (hm_keys ups)" by (force dest: map_of_SomeD)
  with Some assms(1) show ?thesis
    using modification_for_value [OF assms(2) ops_wf_lookup [OF assms(1)]]
    by (simp add: block_modifications_apply ops_wf_def apply_recorded_def)
qed

lemma block_modifications_cached:
  assumes "ops_wf ups" and "\<And>k. k \<in> set (hm_keys ups) \<Longrightarrow> same_entity (cur k) (S k)"
    and "(case hm_get ups k of None \<Rightarrow> v | Some op \<Rightarrow> snd (modification_for k (cur k) op)) = Some eo"
    and "v = Some eo \<Longrightarrow> same_entity eo (S k)"
  shows "same_entity eo (fold apply_modification (block_modifications cur ups) S k)"
proof (cases "hm_get ups k")
  case None
  with assms show ?thesis by (simp add: block_modifications_apply ops_wf_def)
next
  case (Some op)
  then have "k \<in> set (hm_keys ups)" by (force dest: map_of_SomeD)
  with Some assms(1,3) show ?thesis
    using modification_for_cached [OF assms(2)] by (simp add: block_modifications_apply ops_wf_def)
qed

section \<open>The contract of the store\<close>

locale entity_reader = priority_queue "ce_api env" items
  for env :: "('e, 'q) cache_env"
    and items :: "'q \<Rightarrow> EntityKey \<Rightarrow> ((EntityKey, Entity option) CacheEntry \<times> Priority) option" +
  fixes S :: "EntityKey \<Rightarrow> Entity option"
  assumes ws_get_S: "ws_get env k = Inr (S k)"
    and ws_get_many_S: "bt_wf keys \<Longrightarrow>
      \<exists>res. ws_get_many env keys = Inr res \<and> many_result (hex_encode env) S keys res"
    and S_id: "S k = Some e \<Longrightarrow> entity_get_id (hex_encode env) e = Inr (entity_id k)"
begin

lemma coherent_insert:
  "coherent items S cur \<Longrightarrow> same_entity eo (S k) \<Longrightarrow>
   coherent items S (lfu_insert (ce_api env) w k eo cur)"
  by (auto simp: coherent_def lfu_insert_inv lfu_insert_view)

lemma get_entity_spec:
  assumes "coherent items S cur"
  shows "\<exists>e cur'. get_entity env key cur = (Inr e, cur') \<and> same_entity e (S key) \<and> coherent items S cur'"
proof -
  let ?g = "lfu_get (ce_api env) (ce_weights env) key cur"
  have g: "fst ?g = lfu_view items cur key" "lfu_view items (snd ?g) = lfu_view items cur"
    "coherent items S (snd ?g)"
    using assms by (simp_all add: coherent_def lfu_get_result lfu_get_view lfu_get_inv)
  show ?thesis
  proof (cases "lfu_view items cur key")
    case None
    have "same_entity (map_option (hm_remove ''__typename'') (S key)) (S key)"
      by (cases "S key") simp_all
    with None g show ?thesis
      by (cases ?g) (auto simp: get_entity_def ws_get_S coherent_insert Let_def)
  next
    case (Some eo)
    with g assms show ?thesis
      by (cases ?g) (auto simp: get_entity_def coherent_def)
  qed
qed

lemma cache_get_spec:
  assumes "cache_ok items S c"
  shows "\<exists>v cur'. cache_get env key c = (Inr v, c\<lparr>current := cur'\<rparr>) \<and>
    same_entity v (cache_value S c key) \<and> cache_ok items S (c\<lparr>current := cur'\<rparr>)"
proof -
  from assms have "coherent items S (current c)" by (simp add: cache_ok_def)
  then obtain e cur' where g: "get_entity env key (current c) = (Inr e, cur')"
      "same_entity e (S key)" "coherent items S cur'"
    using get_entity_spec by blast
  then show ?thesis
    using assms by (auto simp: cache_get_def cache_value_def cache_ok_def intro!: apply_recorded_cong)
qed

lemma reads_agree:
  assumes "cache_ok items S c" and "cache_ok items S c'" and "same_entity (cache_value S c' k) (cache_value S c k)"
  shows "\<exists>v v' c1 c2. cache_get env k c = (Inr v, c1) \<and> cache_get env k c' = (Inr v', c2) \<and> same_entity v' v"
proof -
  obtain v cur where v: "cache_get env k c = (Inr v, c\<lparr>current := cur\<rparr>)" "same_entity v (cache_value S c k)"
    using cache_get_spec [OF assms(1)] by blast
  obtain v' cur' where v': "cache_get env k c' = (Inr v', c'\<lparr>current := cur'\<rparr>)" "same_entity v' (cache_value S c' k)"
    using cache_get_spec [OF assms(2)] by blast
  have "same_entity v' v"
    using v(2) v'(2) assms(3) by (simp add: same_entity_def)
  with v(1) v'(1) show ?thesis by blast
qed

text \<open>Filling the cache with the entities that were looked up.\<close>

lemma load_entities_spec:
  assumes "coherent items S cur"
    and "\<forall>e \<in> set es. \<exists>eid. entity_get_id (hex_encode env) e = Inr eid \<and>
        (\<forall>sid. S \<lparr>subgraph_id = sid, entity_type = ty, entity_id = eid\<rparr> = Some e)"
  shows "\<exists>cur'. try_fold (load_entity env sid ty) es cur = Inr cur' \<and> coherent items S cur' \<and>
    refreshed S (lfu_view items cur) (lfu_view items cur') \<and>
    (\<forall>k. subgraph_id k = sid \<longrightarrow> entity_type k = ty \<longrightarrow> S k \<in> Some ` set es \<longrightarrow> lfu_view items cur' k = Some (S k))"
  using assms
proof (induction es arbitrary: cur)
  case Nil
  then show ?case by auto
next
  case (Cons e es)
  from Cons.prems(2) obtain eid where eid: "entity_get_id (hex_encode env) e = Inr eid"
      "S \<lparr>subgraph_id = sid, entity_type = ty, entity_id = eid\<rparr> = Some e"
    by auto
  let ?k = "\<lparr>subgraph_id = sid, entity_type = ty, entity_id = eid\<rparr>"
  let ?cur1 = "lfu_insert (ce_api env) (ce_weights env) ?k (Some e) cur"
  have coh: "coherent items S ?cur1"
    using Cons.prems(1) eid by (intro coherent_insert) simp_all
  have view: "lfu_view items ?cur1 = (lfu_view items cur)(?k \<mapsto> Some e)"
    by (rule lfu_insert_view)
  obtain cur' where IH: "try_fold (load_entity env sid ty) es ?cur1 = Inr cur'" "coherent items S cur'"
      "refreshed S (lfu_view items ?cur1) (lfu_view items cur')"
      "\<forall>k. subgraph_id k = sid \<longrightarrow> entity_type k = ty \<longrightarrow> S k \<in> Some ` set es \<longrightarrow> lfu_view items cur' k = Some (S k)"
    using Cons.IH [OF coh] Cons.prems(2) by auto
  have "refreshed S (lfu_view items cur) (lfu_view items ?cur1)"
    using eid(2) by (simp add: view refreshed_def)
  with IH(3) have "refreshed S (lfu_view items cur) (lfu_view items cur')"
    by (rule refreshed_trans [rotated])
  moreover have "lfu_view items cur' k = Some (S k)"
    if "subgraph_id k = sid" "entity_type k = ty" "S k = Some e" for k
  proof -
    have "k = ?k" using that eid(1) S_id [OF that(3)] by (simp add: EntityKey.equality)
    then show ?thesis using refreshed_loaded [OF IH(3), of k] eid(2) by (simp add: view)
  qed
  moreover have "load_entity env sid ty e cur = Inr ?cur1"
    by (simp add: load_entity_def eid(1))
  ultimately show ?case using IH by auto
qed

lemma load_types_spec:
  assumes "coherent items S cur"
    and "\<forall>(ty, es) \<in> set res. \<forall>e \<in> set es. \<exists>eid. entity_get_id (hex_encode env) e = Inr eid \<and>
        (\<forall>sid. S \<lparr>subgraph_id = sid, entity_type = ty, entity_id = eid\<rparr> = Some e)"
  shows "\<exists>cur'. try_fold (\<lambda>(ty, entities). try_fold (load_entity env sid ty) entities) res cur = Inr cur' \<and>
    coherent items S cur' \<and> refreshed S (lfu_view items cur) (lfu_view items cur') \<and>
    (\<forall>k es. subgraph_id k = sid \<longrightarrow> (entity_type k, es) \<in> set res \<longrightarrow> S k \<in> Some ` set es \<longrightarrow>
       lfu_view items cur' k = Some (S k))"
  using assms
proof (induction res arbitrary: cur)
  case Nil
  then show ?case by auto
next
  case (Cons r res)
  obtain ty es where r: "r = (ty, es)" by (cases r)
  obtain cur1 where c1: "try_fold (load_entity env sid ty) es cur = Inr cur1" "coherent items S cur1"
      "refreshed S (lfu_view items cur) (lfu_view items cur1)"
      "\<forall>k. subgraph_id k = sid \<longrightarrow> entity_type k = ty \<longrightarrow> S k \<in> Some ` set es \<longrightarrow> lfu_view items cur1 k = Some (S k)"
    using load_entities_spec [OF Cons.prems(1), of es ty sid] Cons.prems(2) r by auto
  obtain cur' where c': "try_fold (\<lambda>(ty, entities). try_fold (load_entity env sid ty) entities) res cur1 = Inr cur'"
      "coherent items S cur'" "refreshed S (lfu_view items cur1) (lfu_view items cur')"
      "\<forall>k es. subgraph_id k = sid \<longrightarrow> (entity_type k, es) \<in> set res \<longrightarrow> S k \<in> Some ` set es \<longrightarrow>
         lfu_view items cur' k = Some (S k)"
    using Cons.IH [OF c1(2)] Cons.prems(2) by auto
  show ?case
    using c1 c' r refreshed_trans [OF c1(3) c'(3)] refreshed_loaded [OF c'(3)] by auto
qed

lemma load_missing_spec:
  assumes "coherent items S cur" and "bt_wf keys"
  shows "\<exists>cur'. load_missing env (sid, keys) cur = Inr cur' \<and> coherent items S cur' \<and>
    refreshed S (lfu_view items cur) (lfu_view items cur') \<and>
    (\<forall>k ids. subgraph_id k = sid \<longrightarrow> map_of keys (entity_type k) = Some ids \<longrightarrow> entity_id k \<in> set ids \<longrightarrow>
       S k \<noteq> None \<longrightarrow> lfu_view items cur' k = Some (S k))"
proof -
  obtain res where res: "ws_get_many env keys = Inr res" "many_result (hex_encode env) S keys res"
    using ws_get_many_S [OF assms(2)] by blast
  then obtain cur' where c': "try_fold (\<lambda>(ty, entities). try_fold (load_entity env sid ty) entities) res cur = Inr cur'"
      "coherent items S cur'" "refreshed S (lfu_view items cur) (lfu_view items cur')"
      "\<forall>k es. subgraph_id k = sid \<longrightarrow> (entity_type k, es) \<in> set res \<longrightarrow> S k \<in> Some ` set es \<longrightarrow>
         lfu_view items cur' k = Some (S k)"
    using load_types_spec [OF assms(1), of res sid] by (auto simp: many_result_def)
  have "lfu_view items cur' k = Some (S k)"
    if "subgraph_id k = sid" "map_of keys (entity_type k) = Some ids" "entity_id k \<in> set ids" "S k = Some e" for k ids e
  proof -
    have "S \<lparr>subgraph_id = sid, entity_type = entity_type k, entity_id = entity_id k\<rparr> = Some e"
      using that by (cases k) simp
    with that res(2) obtain es where "(entity_type k, es) \<in> set res" "e \<in> set es"
      unfolding many_result_def by blast
    with c'(4) that show ?thesis by auto
  qed
  with res(1) c' show ?thesis by (auto simp: load_missing_def)
qed

lemma load_all_missing_spec:
  assumes "coherent items S cur" and "\<forall>(sid, keys) \<in> set m. bt_wf keys"
  shows "\<exists>cur'. try_fold (load_missing env) m cur = Inr cur' \<and> coherent items S cur' \<and>
    refreshed S (lfu_view items cur) (lfu_view items cur') \<and>
    (\<forall>k keys ids. (subgraph_id k, keys) \<in> set m \<longrightarrow> map_of keys (entity_type k) = Some ids \<longrightarrow>
       entity_id k \<in> set ids \<longrightarrow> S k \<noteq> None \<longrightarrow> lfu_view items cur' k = Some (S k))"
  using assms
proof (induction m arbitrary: cur)
  case Nil
  then show ?case by auto
next
  case (Cons g m)
  obtain sid keys where g: "g = (sid, keys)" by (cases g)
  obtain cur1 where c1: "load_missing env (sid, keys) cur = Inr cur1" "coherent items S cur1"
      "refreshed S (lfu_view items cur) (lfu_view items cur1)"
      "\<forall>k ids. subgraph_id k = sid \<longrightarrow> map_of keys (entity_type k) = Some ids \<longrightarrow> entity_id k \<in> set ids \<longrightarrow>
         S k \<noteq> None \<longrightarrow> lfu_view items cur1 k = Some (S k)"
    using load_missing_spec [OF Cons.prems(1), of keys sid] Cons.prems(2) g by auto
  obtain cur' where c': "try_fold (load_missing env) m cur1 = Inr cur'" "coherent items S cur'"
      "refreshed S (lfu_view items cur1) (lfu_view items cur')"
      "\<forall>k keys ids. (subgraph_id k, keys) \<in> set m \<longrightarrow> map_of keys (entity_type k) = Some ids \<longrightarrow>
         entity_id k \<in> set ids \<longrightarrow> S k \<noteq> None \<longrightarrow> lfu_view items cur' k = Some (S k)"
    using Cons.IH [OF c1(2)] Cons.prems(2) by auto
  have "lfu_view items cur' k = Some (S k)"
    if "(subgraph_id k, ks) \<in> set (g # m)" "map_of ks (entity_type k) = Some ids" "entity_id k \<in> set ids" "S k \<noteq> None" for k ks ids
    using that c1(4) c'(4) g refreshed_loaded [OF c'(3), of k] by auto
  with c1(1) c'(1,2) g refreshed_trans [OF c1(3) c'(3)] show ?case by auto
qed

text \<open>The modification loop: one result per updated entity, computed from the cached value of that entity.\<close>

lemma modification_step_spec:
  assumes "lfu_inv items cur"
  shows "\<exists>cur'. modification_step env (key, op) (mods, cur) =
      Inr (mods @ (case fst (modification_for key (flatten (lfu_view items cur key)) op) of
                     None \<Rightarrow> [] | Some m \<Rightarrow> [m]), cur') \<and>
    lfu_inv items cur' \<and>
    lfu_view items cur' = (lfu_view items cur)
      (key := snd (modification_for key (flatten (lfu_view items cur key)) op))"
proof -
  let ?r = "modification_for key (flatten (lfu_view items cur key)) op"
  obtain cur1 where rm: "lfu_remove (ce_api env) (ce_weights env) key cur = Inr (lfu_view items cur key, cur1)"
      "lfu_view items cur1 = (lfu_view items cur)(key := None)" "lfu_inv items cur1"
    using lfu_remove_spec [OF assms] by blast
  show ?thesis
  proof (cases "snd ?r")
    case None
    then show ?thesis using rm
      by (cases ?r) (auto simp: modification_step_def Let_def split: option.splits)
  next
    case (Some data)
    then show ?thesis using rm
      by (cases ?r) (auto simp: modification_step_def Let_def lfu_insert_view lfu_insert_inv split: option.splits)
  qed
qed

lemma modification_loop_spec:
  assumes "lfu_inv items cur" and "hm_wf ups"
  shows "\<exists>cur'. try_fold (modification_step env) ups (mods, cur) =
      Inr (mods @ block_modifications (\<lambda>k. flatten (lfu_view items cur k)) ups, cur') \<and>
    lfu_inv items cur' \<and>
    lfu_view items cur' = (\<lambda>k. case hm_get ups k of None \<Rightarrow> lfu_view items cur k
      | Some op \<Rightarrow> snd (modification_for k (flatten (lfu_view items cur k)) op))"
  using assms
proof (induction ups arbitrary: mods cur)
  case Nil
  then show ?case by simp
next
  case (Cons u ups)
  obtain key op where u: "u = (key, op)" by (cases u)
  let ?f = "\<lambda>v :: EntityKey \<Rightarrow> Entity option option. block_modifications (\<lambda>k. flatten (v k))"
  let ?r = "modification_for key (flatten (lfu_view items cur key)) op"
  obtain cur1 where s1: "modification_step env (key, op) (mods, cur) =
      Inr (mods @ (case fst ?r of None \<Rightarrow> [] | Some m \<Rightarrow> [m]), cur1)"
      "lfu_inv items cur1" "lfu_view items cur1 = (lfu_view items cur)(key := snd ?r)"
    using modification_step_spec [OF Cons.prems(1)] by blast
  from Cons.prems(2) u have wf: "hm_wf ups" "key \<notin> set (hm_keys ups)" by auto
  obtain cur' where s2: "try_fold (modification_step env) ups (mods @ (case fst ?r of None \<Rightarrow> [] | Some m \<Rightarrow> [m]), cur1) =
      Inr ((mods @ (case fst ?r of None \<Rightarrow> [] | Some m \<Rightarrow> [m])) @ ?f (lfu_view items cur1) ups, cur')"
      "lfu_inv items cur'"
      "lfu_view items cur' = (\<lambda>k. case hm_get ups k of None \<Rightarrow> lfu_view items cur1 k
         | Some op \<Rightarrow> snd (modification_for k (flatten (lfu_view items cur1 k)) op))"
    using Cons.IH [OF s1(2) wf(1)] by blast
  have eq: "?f (lfu_view items cur1) ups = ?f (lfu_view items cur) ups"
    unfolding block_modifications_def
  proof (rule map_filter_cong)
    fix x assume "x \<in> set ups"
    then have "fst x \<noteq> key" using wf(2) by auto
    then show "(case x of (key, op) \<Rightarrow> fst (modification_for key (flatten (lfu_view items cur1 key)) op)) =
        (case x of (key, op) \<Rightarrow> fst (modification_for key (flatten (lfu_view items cur key)) op))"
      by (cases x) (simp add: s1(3))
  qed
  have none: "hm_get ups key = None" using wf(2) by (simp add: map_of_eq_None_iff)
  have "lfu_view items cur' = (\<lambda>k. case hm_get (u # ups) k of None \<Rightarrow> lfu_view items cur k
      | Some op \<Rightarrow> snd (modification_for k (flatten (lfu_view items cur k)) op))"
    using none by (auto simp: s2(3) s1(3) u fun_eq_iff split: option.splits)
  with s1(1) s2(1,2) show ?case
    by (auto simp: u eq)
qed

lemma load_current_spec:
  assumes coh: "coherent items S (current c)"
    and immut: "\<forall>k \<in> set (hm_keys (updates c)). is_immutable (input_schema env) (entity_type k) \<longrightarrow>
      lfu_view items (current c) k = None \<longrightarrow> S k = None"
  shows "\<exists>cur1. try_fold (load_missing env) (missing_by_subgraph (missing_keys env c)) (current c) = Inr cur1 \<and>
    coherent items S cur1 \<and>
    (\<forall>k \<in> set (hm_keys (updates c)). same_entity (flatten (lfu_view items cur1 k)) (S k))"
proof -
  let ?missing = "missing_keys env c"
  let ?groups = "missing_by_subgraph ?missing"
  have groups: "groups_wf ?groups" "grouped ?groups k \<longleftrightarrow> k \<in> set ?missing" for k
    using missing_by_subgraph_grouped [of ?missing k] by auto
  then have "\<forall>(sid, keys) \<in> set ?groups. bt_wf keys"
    using bt_wf_distinct by (fastforce simp: groups_wf_def)
  then obtain cur1 where cur1: "try_fold (load_missing env) ?groups (current c) = Inr cur1" "coherent items S cur1"
      "refreshed S (lfu_view items (current c)) (lfu_view items cur1)"
      "\<forall>k keys ids. (subgraph_id k, keys) \<in> set ?groups \<longrightarrow> map_of keys (entity_type k) = Some ids \<longrightarrow>
         entity_id k \<in> set ids \<longrightarrow> S k \<noteq> None \<longrightarrow> lfu_view items cur1 k = Some (S k)"
    using load_all_missing_spec [OF coh] by blast
  have loaded: "lfu_view items cur1 k = Some (S k)" if "k \<in> set ?missing" "S k \<noteq> None" for k
    using that cur1(4) groups(2) [of k] unfolding grouped_def by (blast dest: map_of_SomeD)
  have "same_entity (flatten (lfu_view items cur1 k)) (S k)" if k: "k \<in> set (hm_keys (updates c))" for k
  proof (cases "lfu_view items cur1 k")
    case (Some eo)
    with cur1(2) show ?thesis by (simp add: coherent_def)
  next
    case None
    have "S k = None"
    proof (rule ccontr)
      assume "S k \<noteq> None"
      with loaded None have "k \<notin> set ?missing" by auto
      moreover have "lfu_view items (current c) k = None"
        using cur1(3) None by (auto simp: refreshed_def) (metis option.distinct(1))
      ultimately show False
        using k immut \<open>S k \<noteq> None\<close> by (auto simp: missing_keys_def lfu_contains_key_iff)
    qed
    with None show ?thesis by simp
  qed
  with cur1(1,2) show ?thesis by blast
qed

lemma as_modifications_spec:
  assumes ok: "cache_ok items S c" and out: "\<not> in_handler c"
    and immut: "\<forall>k \<in> set (hm_keys (updates c)). is_immutable (input_schema env) (entity_type k) \<longrightarrow>
      lfu_view items (current c) k = None \<longrightarrow> S k = None"
  shows "\<exists>mc. as_modifications env c = Inr mc \<and>
    distinct (map entity_key (modifications mc)) \<and>
    set (map entity_key (modifications mc)) \<subseteq> set (hm_keys (updates c)) \<and>
    (\<forall>k. same_entity (fold apply_modification (modifications mc) S k) (cache_value S c k)) \<and>
    coherent items (fold apply_modification (modifications mc) S) (entity_lfu_cache mc) \<and>
    total_weight (entity_lfu_cache mc) \<le> entity_cache_size env"
proof -
  have coh: "coherent items S (current c)" and wf: "ops_wf (updates c)" "hm_wf (updates c)"
    and handler: "handler_updates c = []"
    using ok out by (auto simp: cache_ok_def ops_wf_def)
  obtain cur1 where cur1: "try_fold (load_missing env) (missing_by_subgraph (missing_keys env c)) (current c) = Inr cur1"
      "coherent items S cur1"
      "\<And>k. k \<in> set (hm_keys (updates c)) \<Longrightarrow> same_entity (flatten (lfu_view items cur1 k)) (S k)"
    using load_current_spec [OF coh immut] by blast
  define mods where "mods = block_modifications (\<lambda>k. flatten (lfu_view items cur1 k)) (updates c)"
  have "lfu_inv items cur1" using cur1(2) by (simp add: coherent_def)
  from modification_loop_spec [OF this wf(2), of "[]"]
  obtain cur2 where cur2: "try_fold (modification_step env) (updates c) ([], cur1) = Inr (mods, cur2)"
      "lfu_inv items cur2"
      "lfu_view items cur2 = (\<lambda>k. case hm_get (updates c) k of None \<Rightarrow> lfu_view items cur1 k
         | Some op \<Rightarrow> snd (modification_for k (flatten (lfu_view items cur1 k)) op))"
    unfolding mods_def append_Nil by blast
  obtain r cur3 where cur3: "evict (ce_api env) (entity_cache_size env) cur2 = Some (Inr (r, cur3))"
      "total_weight cur3 \<le> entity_cache_size env" "lfu_inv items cur3"
      "lfu_view items cur3 \<subseteq>\<^sub>m lfu_view items cur2"
    using evict_with_period_spec [OF cur2(2)] unfolding evict_def by blast
  have "same_entity eo (fold apply_modification mods S k)" if "lfu_view items cur2 k = Some eo" for k eo
    unfolding mods_def
    using cur1(2) that
    by (intro block_modifications_cached [where v = "lfu_view items cur1 k"] wf(1) cur1(3))
      (simp_all add: cur2(3) coherent_def)
  then have "coherent items (fold apply_modification mods S) cur3"
    unfolding coherent_def using cur3(3,4) by (fastforce simp: map_le_def dom_def)
  moreover have "as_modifications env c =
      Inr \<lparr>modifications = mods, mc_data_sources = data_sources c, entity_lfu_cache = cur3\<rparr>"
    using out cur1(1) cur2(1) cur3(1) by (simp add: as_modifications_def)
  moreover have "same_entity (fold apply_modification mods S k) (cache_value S c k)" for k
    unfolding mods_def cache_value_def handler apply_recorded_Nil
    by (intro block_modifications_value wf(1) cur1(3))
  ultimately show ?thesis
    using cur3(2) block_modifications_keys [OF wf(2)] by (auto simp: mods_def)
qed

end

section \<open>Handlers\<close>

text \<open>What a handler does with the cache while it runs.\<close>

datatype handler_action =
    Do_Set EntityKey Entity
  | Do_Remove EntityKey
  | Do_Get EntityKey

fun handler_step ::
  "('e, 'q) cache_env \<Rightarrow> handler_action \<Rightarrow> ('q, 'd) EntityCache \<Rightarrow> ('q, 'd) EntityCache" where
  "handler_step env (Do_Set key entity) c = snd (cache_set env key entity c)"
| "handler_step env (Do_Remove key) c = cache_remove key c"
| "handler_step env (Do_Get key) c = snd (cache_get env key c)"

fun action_wf :: "handler_action \<Rightarrow> bool" where
  "action_wf (Do_Set key entity) = hm_wf entity"
| "action_wf _ = True"

lemma with_id_wf: "hm_wf entity \<Longrightarrow> with_id env key entity = Inr e1 \<Longrightarrow> hm_wf e1"
  by (auto simp: with_id_def and_then_eq_Inr_iff split: option.splits Value.splits sum.splits)

context entity_reader
begin

lemma cache_set_cases:
  assumes ok: "cache_ok items S c" and wf: "hm_wf entity"
  shows "(\<exists>err. cache_set env key entity c = (Inl err, c) \<and> with_id env key entity = Inl err) \<or>
    (\<exists>e1 r cur'. with_id env key entity = Inr e1 \<and>
       cache_set env key entity c = (r, (entity_op key (Op_Update e1) c)\<lparr>current := cur'\<rparr>) \<and>
       cache_ok items S ((entity_op key (Op_Update e1) c)\<lparr>current := cur'\<rparr>) \<and>
       (r = Inr () \<longrightarrow> validate (validate_fuel env) e1 (input_schema env) key = Inr () \<or>
          (\<exists>merged. same_entity (Some merged) (cache_value S (entity_op key (Op_Update e1) c) key) \<and>
             validate (validate_fuel env) merged (input_schema env) key = Inr ())))"
proof (cases "with_id env key entity")
  case (Inl err)
  then show ?thesis by (simp add: cache_set_def)
next
  case (Inr e1)
  let ?c1 = "entity_op key (Op_Update e1) c"
  have ok1: "cache_ok items S ?c1"
    using entity_op_value [OF ok] with_id_wf [OF wf Inr] by simp
  show ?thesis
  proof (cases "validate (validate_fuel env) e1 (input_schema env) key = Inr ()")
    case True
    then have "cache_set env key entity c = (Inr (), ?c1\<lparr>current := current ?c1\<rparr>)"
      using Inr by (simp add: cache_set_def Let_def)
    with True Inr ok1 show ?thesis by (intro disjI2 exI [of _ e1] exI [of _ "Inr ()"] exI [of _ "current ?c1"]) simp
  next
    case False
    obtain v cur' where g: "cache_get env key ?c1 = (Inr v, ?c1\<lparr>current := cur'\<rparr>)"
        "same_entity v (cache_value S ?c1 key)" "cache_ok items S (?c1\<lparr>current := cur'\<rparr>)"
      using cache_get_spec [OF ok1, of key] by blast
    obtain r where "cache_set env key entity c = (r, ?c1\<lparr>current := cur'\<rparr>)"
      "r = Inr () \<longrightarrow> (\<exists>merged. v = Some merged \<and> validate (validate_fuel env) merged (input_schema env) key = Inr ())"
      using False Inr g(1)
      by (cases v; cases "validate (validate_fuel env) (the v) (input_schema env) key")
        (auto simp: cache_set_def Let_def)
    with Inr g(2,3) show ?thesis by blast
  qed
qed

lemma handler_step_spec:
  assumes "cache_ok items S c" and "action_wf a" and "in_handler c"
  shows "cache_ok items S (handler_step env a c) \<and> in_handler (handler_step env a c) \<and>
    updates (handler_step env a c) = updates c \<and> data_sources (handler_step env a c) = data_sources c"
proof (cases a)
  case (Do_Set key entity)
  from cache_set_cases [OF assms(1), of entity key] assms Do_Set show ?thesis
    by (auto simp: entity_op_def)
next
  case (Do_Remove key)
  with assms entity_op_value [OF assms(1), of Op_Remove key] show ?thesis
    by (auto simp: cache_remove_def entity_op_def)
next
  case (Do_Get key)
  with assms cache_get_spec [OF assms(1), of key] show ?thesis by auto
qed

lemma handler_run_spec:
  assumes "cache_ok items S c" and "list_all action_wf as" and "in_handler c"
  shows "cache_ok items S (fold (handler_step env) as c) \<and> in_handler (fold (handler_step env) as c) \<and>
    updates (fold (handler_step env) as c) = updates c \<and>
    data_sources (fold (handler_step env) as c) = data_sources c"
  using assms
proof (induction as arbitrary: c)
  case (Cons a as)
  then show ?case using handler_step_spec [of c a] by simp
qed simp

lemma exit_handler_spec:
  assumes ok: "cache_ok items S c" and "in_handler c"
  shows "\<exists>c'. exit_handler c = Inr c' \<and> cache_ok items S c' \<and> \<not> in_handler c' \<and>
    (\<forall>k. same_entity (cache_value S c' k) (cache_value S c k))"
proof -
  let ?c' = "c\<lparr>in_handler := False, handler_updates := [],
    updates := fold (\<lambda>(key, op). record_op key op) (handler_updates c) (updates c)\<rparr>"
  have "exit_handler c = Inr ?c'"
    using assms(2) by (simp add: exit_handler_def fold_entity_op_outside)
  moreover have "cache_ok items S ?c'"
    using ok apply_recorded_fold [of "handler_updates c" "updates c"] by (auto simp: cache_ok_def)
  moreover have "same_entity (cache_value S ?c' k) (cache_value S c k)" for k
    using ok apply_recorded_fold [of "handler_updates c" "updates c" k "S k"]
    by (auto simp: cache_ok_def cache_value_def)
  ultimately show ?thesis by (intro exI [of _ ?c']) simp
qed

end

section \<open>A store in memory\<close>

text \<open>
  A store that keeps its entities in a list, by type and id. It is the instance at which the
  properties below are exercised; the versioned store provides the contract in its own theory.
\<close>

type_synonym contents = "((string \<times> string) \<times> Entity) list"

definition mem_S :: "contents \<Rightarrow> EntityKey \<Rightarrow> Entity option" where
  "mem_S contents k = map_of contents (entity_type k, entity_id k)"

definition mem_env :: "contents \<Rightarrow> (unit, (EntityKey, Entity option) lpq) cache_env" where
  "mem_env contents =
     \<lparr>ws_get = (\<lambda>k. Inr (mem_S contents k)),
      ws_get_many = (\<lambda>keys. Inr (map (\<lambda>(ty, ids). (ty, List.map_filter (\<lambda>i. map_of contents (ty, i)) ids)) keys)),
      input_schema = \<lparr>definitions = [TD_Object \<lparr>object_name = ''Token'', object_fields =
        [\<lparr>field_name = ''id'', field_type = NonNullType (NamedType ''ID''), field_directives = []\<rparr>,
         \<lparr>field_name = ''n'', field_type = NonNullType (NamedType ''Int''), field_directives = []\<rparr>]\<rparr>],
        types_for_interface = [], immutable_types = []\<rparr>,
      validate_fuel = 3,
      hex_encode = (\<lambda>_. []), hex_decode = (\<lambda>_. None),
      ce_api = lpq_api,
      ce_weights = \<lparr>key_weight = (\<lambda>_. 1), value_weight = (\<lambda>_. 1), size_of_entry = 1, default_value = None\<rparr>,
      entity_cache_size = 100\<rparr>"

definition contents_wf :: "contents \<Rightarrow> bool" where
  "contents_wf contents \<longleftrightarrow> list_all (\<lambda>((ty, i), e). entity_get_id (\<lambda>_. []) e = Inr i) contents"

lemma mem_many_result:
  assumes "contents_wf contents" and "bt_wf keys"
  shows "many_result (\<lambda>_. []) (mem_S contents) keys
    (map (\<lambda>(ty, ids). (ty, List.map_filter (\<lambda>i. map_of contents (ty, i)) ids)) keys)"
proof -
  have ids: "entity_get_id (\<lambda>_. []) e = Inr i" if "map_of contents (ty, i) = Some e" for ty i e
    using assms(1) map_of_SomeD [OF that] by (auto simp: contents_wf_def list_all_iff)
  define res where "res = map (\<lambda>(ty, ids). (ty, List.map_filter (\<lambda>i. map_of contents (ty, i)) ids)) keys"
  have "\<exists>es. (ty, es) \<in> set res \<and> e \<in> set es"
    if "map_of keys ty = Some ids" "i \<in> set ids" "map_of contents (ty, i) = Some e" for ty ids i e
  proof -
    have "(ty, List.map_filter (\<lambda>i. map_of contents (ty, i)) ids) \<in> set res"
      using map_of_SomeD [OF that(1)] by (force simp: res_def)
    moreover have "e \<in> set (List.map_filter (\<lambda>i. map_of contents (ty, i)) ids)"
      using that(2,3) by (auto simp: mem_map_filter)
    ultimately show ?thesis by blast
  qed
  moreover have "\<exists>eid. entity_get_id (\<lambda>_. []) e = Inr eid \<and> map_of contents (ty, eid) = Some e"
    if "(ty, es) \<in> set res" "e \<in> set es" for ty es e
    using that ids by (fastforce simp: res_def mem_map_filter)
  ultimately have "many_result (\<lambda>_. []) (mem_S contents) keys res"
    by (auto simp: many_result_def mem_S_def)
  then show ?thesis by (simp only: res_def)
qed

lemma mem_entity_reader:
  assumes "contents_wf contents"
  shows "entity_reader (mem_env contents) lpq_items (mem_S contents)"
proof (intro entity_reader.intro entity_reader_axioms.intro)
  show "priority_queue (ce_api (mem_env contents)) lpq_items"
    by (simp add: mem_env_def lpq.priority_queue_axioms)
  show "ws_get (mem_env contents) k = Inr (mem_S contents k)" for k
    by (simp add: mem_env_def)
  show "\<exists>res. ws_get_many (mem_env contents) keys = Inr res \<and>
      many_result (hex_encode (mem_env contents)) (mem_S contents) keys res" if "bt_wf keys" for keys
    using mem_many_result [OF assms that] by (simp add: mem_env_def)
  show "mem_S contents k = Some e \<Longrightarrow> entity_get_id (hex_encode (mem_env contents)) e = Inr (entity_id k)" for k e
    using assms by (auto simp: mem_S_def mem_env_def contents_wf_def list_all_iff dest: map_of_SomeD)
qed

definition sample_contents :: contents where
  "sample_contents = [((''Token'', ''a''), [(''__typename'', V_String ''Token''), (''id'', V_String ''a''), (''n'', V_Int 1)])]"

definition token_key :: "string \<Rightarrow> EntityKey" where
  "token_key i = \<lparr>subgraph_id = ''Qm'', entity_type = ''Token'', entity_id = i\<rparr>"

lemma sample_contents_wf: "contents_wf sample_contents"
  by (simp add: contents_wf_def sample_contents_def entity_get_id_def)

interpretation sample: entity_reader "mem_env sample_contents" lpq_items "mem_S sample_contents"
  by (rule mem_entity_reader [OF sample_contents_wf])

lemma sample_cache_ok: "cache_ok lpq_items (mem_S sample_contents) (cache_new (mem_env sample_contents) :: ((EntityKey, Entity option) lpq, unit) EntityCache)"
  using sample.lfu_new_inv sample.lfu_new_view
  by (simp add: cache_ok_def cache_new_def coherent_def)

section \<open>Properties of the entity cache\<close>



text \<open>
  A handler that ends normally keeps its effect: after \<open>exit_handler\<close> every read returns what
  the handler itself would have read, and the handler's operations are merged into the operations
  of the block.
\<close>

theorem exit_handler_keeps_reads:
  assumes "entity_reader env items S" and "cache_ok items S c" and "in_handler c"
  shows "\<exists>c'. exit_handler c = Inr c' \<and> \<not> in_handler c' \<and> handler_updates c' = [] \<and> cache_ok items S c' \<and>
    (\<forall>k. \<exists>v v' c1 c2. cache_get env k c = (Inr v, c1) \<and> cache_get env k c' = (Inr v', c2) \<and> same_entity v' v)"
proof -
  obtain c' where c': "exit_handler c = Inr c'" "cache_ok items S c'" "\<not> in_handler c'"
      "\<forall>k. same_entity (cache_value S c' k) (cache_value S c k)"
    using entity_reader.exit_handler_spec [OF assms] by blast
  have "\<exists>v v' c1 c2. cache_get env k c = (Inr v, c1) \<and> cache_get env k c' = (Inr v', c2) \<and> same_entity v' v" for k
    using entity_reader.reads_agree [OF assms(1,2) c'(2)] c'(4) by blast
  moreover have "handler_updates c' = []" using c'(2,3) by (simp add: cache_ok_def)
  ultimately show ?thesis using c' by blast
qed

theorem exit_handler_keeps_reads_witness:
  "\<exists>c' :: ((EntityKey, Entity option) lpq, unit) EntityCache.
     exit_handler (entity_op (token_key ''a'') Op_Remove ((cache_new (mem_env sample_contents))\<lparr>in_handler := True\<rparr>)) = Inr c' \<and>
     \<not> in_handler c'"
proof -
  let ?c0 = "(cache_new (mem_env sample_contents))\<lparr>in_handler := True\<rparr> :: ((EntityKey, Entity option) lpq, unit) EntityCache"
  have "cache_ok lpq_items (mem_S sample_contents) ?c0"
    using sample_cache_ok by (auto simp: cache_ok_def cache_new_def)
  then have "cache_ok lpq_items (mem_S sample_contents) (entity_op (token_key ''a'') Op_Remove ?c0)"
    using entity_op_value [of lpq_items "mem_S sample_contents" ?c0 Op_Remove] by simp
  moreover have "in_handler (entity_op (token_key ''a'') Op_Remove ?c0)" by (simp add: entity_op_def)
  ultimately show ?thesis
    using exit_handler_keeps_reads [OF sample.entity_reader_axioms] by blast
qed





text \<open>
  The documentation of the cache promises that only entities that will actually be changed are
  changed. An entity that was removed and set again with an explicit null field is written again
  although every field keeps its value: the null is compared as if it were a change.
\<close>

theorem overwrite_with_null_is_written:
  assumes "hm_get cur a = None"
  shows "fst (modification_for key (Some cur) (Op_Overwrite (hm_insert a V_Null cur))) =
      Some (Overwrite key (hm_insert a V_Null cur)) \<and>
    same_entity (Some (hm_insert a V_Null cur)) (Some cur)"
  using assms by (auto simp: hm_eq_iff visible_def non_null_def fun_eq_iff dest: fun_cong [of _ _ a])

theorem overwrite_with_null_is_written_witness:
  "fst (modification_for (token_key ''a'') (Some [(''id'', V_String ''a'')])
     (Op_Overwrite [(''id'', V_String ''a''), (''n'', V_Null)])) =
   Some (Overwrite (token_key ''a'') [(''id'', V_String ''a''), (''n'', V_Null)])"
  using overwrite_with_null_is_written [of "[(''id'', V_String ''a'')]" "''n''" "token_key ''a''"] by simp


end
