(* ===== verification/Block_Range.thy ===== *)
theory Block_Range
  imports Values
begin

text \<open>
  Block ranges (\<^verbatim>\<open>store/postgres/src/block_range.rs\<close>). The code writes SQL fragments; here each
  fragment is a term of a small expression language, and the evaluator gives that language the
  meaning PostgreSQL documents for ranges, nulls and comparisons. Integer ranges are kept in
  their canonical form, closed below and open above.
\<close>

section \<open>Ranges\<close>

definition BLOCK_NUMBER_MAX :: int where
  "BLOCK_NUMBER_MAX = 2147483647"

datatype Bound = Included int | Excluded int | Unbounded

type_synonym BlockRange = "Bound \<times> Bound"

definition BLOCK_UNVERSIONED :: int where
  "BLOCK_UNVERSIONED = - 1"

definition UNVERSIONED_RANGE :: BlockRange where
  "UNVERSIONED_RANGE = (Included BLOCK_UNVERSIONED, Unbounded)"

fun clone_bound :: "Bound \<Rightarrow> Bound" where
  "clone_bound (Included nr) = Included nr"
| "clone_bound (Excluded nr) = Excluded nr"
| "clone_bound Unbounded = Unbounded"

text \<open>The range expression \<open>block..\<close> has an included start and no end.\<close>

definition block_range_from :: "int \<Rightarrow> BlockRange" where
  "block_range_from block = (clone_bound (Included block), clone_bound Unbounded)"

definition first_block_in_range :: "BlockRange \<Rightarrow> int option" where
  "first_block_in_range bound =
     (if bound = UNVERSIONED_RANGE then None
      else (case fst bound of
              Included nr \<Rightarrow> Some nr
            | Excluded nr \<Rightarrow> Some (i32 (nr + 1))
            | Unbounded \<Rightarrow> None))"

text \<open>PostgreSQL's \<open>int4range\<close>: empty, or \<open>[lower, upper)\<close> with missing bounds for infinity.\<close>

datatype int4range = Empty_Range | Range "int option" "int option"

fun lower_bound :: "Bound \<Rightarrow> int option" where
  "lower_bound (Included nr) = Some nr"
| "lower_bound (Excluded nr) = Some (nr + 1)"
| "lower_bound Unbounded = None"

fun upper_bound :: "Bound \<Rightarrow> int option" where
  "upper_bound (Included nr) = Some (nr + 1)"
| "upper_bound (Excluded nr) = Some nr"
| "upper_bound Unbounded = None"

datatype sql_error =
    RangeBoundsError
  | UndefinedColumn string
  | ExclusionViolation string
  | UniqueViolation string
  | NotNullViolation string
  | NumericValueOutOfRange
  | NotFound

text \<open>The constructor function \<open>int4range(l, u)\<close>: an error when the bounds are out of order.\<close>

definition int4range :: "int option \<Rightarrow> int option \<Rightarrow> (sql_error, int4range) result" where
  "int4range l u =
     (case (l, u) of
        (Some a, Some b) \<Rightarrow>
          (if b < a then Inl RangeBoundsError else if a = b then Inr Empty_Range else Inr (Range l u))
      | _ \<Rightarrow> Inr (Range l u))"

fun range_contains :: "int4range \<Rightarrow> int \<Rightarrow> bool" where
  "range_contains Empty_Range x = False"
| "range_contains (Range l u) x =
     ((case l of None \<Rightarrow> True | Some a \<Rightarrow> a \<le> x) \<and> (case u of None \<Rightarrow> True | Some b \<Rightarrow> x < b))"

fun range_lower :: "int4range \<Rightarrow> int option" where
  "range_lower Empty_Range = None"
| "range_lower (Range l u) = l"

fun range_upper :: "int4range \<Rightarrow> int option" where
  "range_upper Empty_Range = None"
| "range_upper (Range l u) = u"

text \<open>The overlap operator \<open>&&\<close>; the empty range overlaps nothing.\<close>

definition range_overlaps :: "int4range \<Rightarrow> int4range \<Rightarrow> bool" where
  "range_overlaps r s =
     (case (r, s) of
        (Range l u, Range m v) \<Rightarrow>
          (case (l, v) of (Some a, Some b) \<Rightarrow> a < b | _ \<Rightarrow> True) \<and>
          (case (m, u) of (Some a, Some b) \<Rightarrow> a < b | _ \<Rightarrow> True)
      | _ \<Rightarrow> False)"

section \<open>SQL conditions\<close>

text \<open>The block column of a row: a range for mutable entities, a block number for immutable ones.\<close>

datatype block_value = BV_Range int4range | BV_Block int

datatype int_expr =
    E_Lower
  | E_Upper
  | E_Coalesce int_expr int
  | E_Block
  | E_Param int

datatype comparison = Cmp_Le | Cmp_Lt | Cmp_Ge | Cmp_Gt | Cmp_Eq

datatype sql_cond =
    C_True
  | C_Contains int
  | C_Cmp int_expr comparison int_expr
  | C_And sql_cond sql_cond
  | C_Not sql_cond
  | C_Id_Eq string
  | C_Id_In "string list"

record row =
  row_id :: string
  row_data :: Entity
  row_block :: block_value

fun eval_int :: "int_expr \<Rightarrow> row \<Rightarrow> int option" where
  "eval_int E_Lower r = (case row_block r of BV_Range g \<Rightarrow> range_lower g | BV_Block _ \<Rightarrow> None)"
| "eval_int E_Upper r = (case row_block r of BV_Range g \<Rightarrow> range_upper g | BV_Block _ \<Rightarrow> None)"
| "eval_int (E_Coalesce e d) r = (case eval_int e r of None \<Rightarrow> Some d | Some v \<Rightarrow> Some v)"
| "eval_int E_Block r = (case row_block r of BV_Block b \<Rightarrow> Some b | BV_Range _ \<Rightarrow> None)"
| "eval_int (E_Param p) r = Some p"

fun compare_ints :: "comparison \<Rightarrow> int \<Rightarrow> int \<Rightarrow> bool" where
  "compare_ints Cmp_Le a b = (a \<le> b)"
| "compare_ints Cmp_Lt a b = (a < b)"
| "compare_ints Cmp_Ge a b = (a \<ge> b)"
| "compare_ints Cmp_Gt a b = (a > b)"
| "compare_ints Cmp_Eq a b = (a = b)"

text \<open>Three-valued logic: \<open>None\<close> is null.\<close>

fun and3 :: "bool option \<Rightarrow> bool option \<Rightarrow> bool option" where
  "and3 (Some False) y = Some False"
| "and3 (Some True) y = y"
| "and3 None (Some False) = Some False"
| "and3 None _ = None"

fun eval_cond :: "sql_cond \<Rightarrow> row \<Rightarrow> bool option" where
  "eval_cond C_True r = Some True"
| "eval_cond (C_Contains b) r =
     (case row_block r of BV_Range g \<Rightarrow> Some (range_contains g b) | BV_Block _ \<Rightarrow> None)"
| "eval_cond (C_Cmp e c f) r =
     (case (eval_int e r, eval_int f r) of (Some x, Some y) \<Rightarrow> Some (compare_ints c x y) | _ \<Rightarrow> None)"
| "eval_cond (C_And c d) r = and3 (eval_cond c r) (eval_cond d r)"
| "eval_cond (C_Not c) r = map_option Not (eval_cond c r)"
| "eval_cond (C_Id_Eq i) r = Some (row_id r = i)"
| "eval_cond (C_Id_In is) r = Some (row_id r \<in> set is)"

text \<open>A row is selected when its condition is true, not when it is null.\<close>

definition holds :: "sql_cond \<Rightarrow> row \<Rightarrow> bool" where
  "holds c r \<longleftrightarrow> eval_cond c r = Some True"

text \<open>The columns a condition mentions; naming a column the table does not have is an error.\<close>

fun expr_uses_range :: "int_expr \<Rightarrow> bool" where
  "expr_uses_range E_Lower = True"
| "expr_uses_range E_Upper = True"
| "expr_uses_range (E_Coalesce e d) = expr_uses_range e"
| "expr_uses_range E_Block = False"
| "expr_uses_range (E_Param p) = False"

fun uses_range :: "sql_cond \<Rightarrow> bool" where
  "uses_range (C_Contains b) = True"
| "uses_range (C_Cmp e c f) = (expr_uses_range e \<or> expr_uses_range f)"
| "uses_range (C_And c d) = (uses_range c \<or> uses_range d)"
| "uses_range (C_Not c) = uses_range c"
| "uses_range _ = False"

fun expr_uses_block :: "int_expr \<Rightarrow> bool" where
  "expr_uses_block E_Block = True"
| "expr_uses_block (E_Coalesce e d) = expr_uses_block e"
| "expr_uses_block _ = False"

fun uses_block :: "sql_cond \<Rightarrow> bool" where
  "uses_block (C_Cmp e c f) = (expr_uses_block e \<or> expr_uses_block f)"
| "uses_block (C_And c d) = (uses_block c \<or> uses_block d)"
| "uses_block (C_Not c) = uses_block c"
| "uses_block _ = False"

section \<open>Tables and the fragments for their block column\<close>

record Column =
  field :: string
  nullable :: bool
  fulltext_fields :: "string list option"

record Table =
  object :: string
  columns :: "Column list"
  is_account_like :: bool
  immutable :: bool

datatype BlockRangeColumn = Mutable Table int | Immutable Table int

definition br_new :: "Table \<Rightarrow> int \<Rightarrow> BlockRangeColumn" where
  "br_new table block = (if immutable table then Immutable table block else Mutable table block)"

definition BLOCK_RANGE_CURRENT :: sql_cond where
  "BLOCK_RANGE_CURRENT = C_Contains 2147483647"

definition block_range_lower_bound_clause :: "int \<Rightarrow> sql_cond" where
  "block_range_lower_bound_clause block = C_Cmp E_Lower Cmp_Eq (E_Param block)"

definition block_range_upper_bound_clause :: "int \<Rightarrow> sql_cond" where
  "block_range_upper_bound_clause block = C_Cmp (E_Coalesce E_Upper 2147483647) Cmp_Eq (E_Param block)"

fun br_contains :: "BlockRangeColumn \<Rightarrow> sql_cond" where
  "br_contains (Mutable table block) =
     (if is_account_like table \<and> block < BLOCK_NUMBER_MAX
      then C_And (C_And (C_Contains block)
             (C_Cmp (E_Coalesce E_Upper 2147483647) Cmp_Gt (E_Param block)))
             (C_Cmp E_Lower Cmp_Le (E_Param block))
      else C_Contains block)"
| "br_contains (Immutable table block) =
     (if block = BLOCK_NUMBER_MAX then C_True else C_Cmp E_Block Cmp_Le (E_Param block))"

fun literal_range_current :: "BlockRangeColumn \<Rightarrow> block_value" where
  "literal_range_current (Mutable table block) =
     (case block_range_from block of (l, u) \<Rightarrow> BV_Range (Range (lower_bound l) (upper_bound u)))"
| "literal_range_current (Immutable table block) = BV_Block block"

fun br_latest :: "BlockRangeColumn \<Rightarrow> sql_cond" where
  "br_latest (Mutable table block) = BLOCK_RANGE_CURRENT"
| "br_latest (Immutable table block) = C_True"

text \<open>
  The new value \<open>int4range(e, u)\<close> for the range column, with \<open>None\<close> for a null upper bound.
  \<open>clamp\<close> panics for an immutable table.
\<close>

datatype range_update = Set_Range int_expr "int option"

fun clamp :: "BlockRangeColumn \<Rightarrow> range_update option" where
  "clamp (Mutable table block) = Some (Set_Range E_Lower (Some block))"
| "clamp (Immutable table block) = None"

fun changed_since :: "BlockRangeColumn \<Rightarrow> sql_cond" where
  "changed_since (Mutable table block) = C_Cmp E_Lower Cmp_Ge (E_Param block)"
| "changed_since (Immutable table block) = C_Cmp E_Block Cmp_Ge (E_Param block)"

fun eval_update :: "range_update \<Rightarrow> row \<Rightarrow> (sql_error, row) result" where
  "eval_update (Set_Range e u) r =
     and_then (int4range (eval_int e r) u) (\<lambda>g. Inr (r\<lparr>row_block := BV_Range g\<rparr>))"

section \<open>Ranges of stored versions\<close>

text \<open>
  The ranges the code writes: empty, or from a block on, up to a later block or open. No block
  number reaches the largest one.
\<close>

fun range_ok :: "int \<Rightarrow> int4range \<Rightarrow> bool" where
  "range_ok head Empty_Range = True"
| "range_ok head (Range (Some l) None) = (l \<le> head \<and> l < 2147483647)"
| "range_ok head (Range (Some l) (Some u)) = (l < u \<and> u \<le> head \<and> u < 2147483647)"
| "range_ok head (Range None u) = False"

lemma range_ok_cases:
  assumes "range_ok head g"
  obtains "g = Empty_Range" | l where "g = Range (Some l) None" "l \<le> head" "l < 2147483647"
  | l u where "g = Range (Some l) (Some u)" "l < u" "u \<le> head" "u < 2147483647"
proof (cases g)
  case Empty_Range
  then show ?thesis by (rule that(1))
next
  case (Range l u)
  with assms that show ?thesis by (cases l; cases u) auto
qed

lemma range_ok_mono: "range_ok head g \<Longrightarrow> head \<le> head' \<Longrightarrow> range_ok head' g"
  by (erule range_ok_cases) auto

lemma literal_range_ok: "head \<le> block \<Longrightarrow> block < 2147483647 \<Longrightarrow> range_ok block (Range (Some block) None)"
  by simp

lemma range_overlaps_iff:
  assumes "range_ok h r" and "range_ok h' s"
  shows "range_overlaps r s \<longleftrightarrow> (\<exists>x. range_contains r x \<and> range_contains s x)"
proof (cases "r = Empty_Range \<or> s = Empty_Range")
  case True
  then show ?thesis by (auto simp: range_overlaps_def split: int4range.splits)
next
  case False
  then obtain l u m v where rs: "r = Range (Some l) u" "s = Range (Some m) v"
      "\<forall>b. u = Some b \<longrightarrow> l < b" "\<forall>b. v = Some b \<longrightarrow> m < b"
    using assms by (auto elim!: range_ok_cases)
  show ?thesis
  proof
    assume "range_overlaps r s"
    then have "range_contains r (max l m) \<and> range_contains s (max l m)"
      using rs by (auto simp: range_overlaps_def split: option.splits)
    then show "\<exists>x. range_contains r x \<and> range_contains s x" ..
  qed (use rs in \<open>auto simp: range_overlaps_def split: option.splits\<close>)
qed

lemma current_iff:
  assumes "range_ok head g"
  shows "range_contains g 2147483647 \<longleftrightarrow> (\<exists>l. g = Range (Some l) None)"
  using assms by (auto elim!: range_ok_cases)

lemma and3_True [simp]: "and3 x y = Some True \<longleftrightarrow> x = Some True \<and> y = Some True"
  by (cases "(x, y)" rule: and3.cases) auto

lemma holds_simps [simp]:
  "holds C_True r"
  "holds (C_And c d) r \<longleftrightarrow> holds c r \<and> holds d r"
  "holds (C_Id_Eq i) r \<longleftrightarrow> row_id r = i"
  "holds (C_Id_In is) r \<longleftrightarrow> row_id r \<in> set is"
  by (simp_all add: holds_def)

lemma holds_contains [simp]:
  "row_block r = BV_Range g \<Longrightarrow> holds (C_Contains b) r \<longleftrightarrow> range_contains g b"
  by (simp add: holds_def)

lemma holds_br_contains_mutable:
  assumes "row_block r = BV_Range g" and "range_ok head g"
  shows "holds (br_contains (Mutable table block)) r \<longleftrightarrow> range_contains g block"
  using assms by (auto elim!: range_ok_cases simp: holds_def BLOCK_NUMBER_MAX_def)

lemma holds_changed_since_mutable:
  assumes "row_block r = BV_Range g"
  shows "holds (changed_since (Mutable table block)) r \<longleftrightarrow> (\<exists>l. range_lower g = Some l \<and> block \<le> l)"
  using assms by (auto simp: holds_def split: option.splits)

text \<open>
  The additional clauses that \<open>contains\<close> writes for account-like tables, which let PostgreSQL
  use another index, select exactly the versions that the plain clause selects.
\<close>

theorem account_like_clause_equivalent:
  assumes "row_block r = BV_Range g" and "range_ok head g"
  shows "holds (br_contains (br_new (table\<lparr>immutable := False, is_account_like := True\<rparr>) block)) r \<longleftrightarrow>
    holds (br_contains (br_new (table\<lparr>immutable := False, is_account_like := False\<rparr>) block)) r"
  unfolding br_new_def using holds_br_contains_mutable [OF assms] by (simp del: br_contains.simps)

theorem account_like_clause_equivalent_witness:
  "holds (br_contains (br_new \<lparr>object = ''T'', columns = [], is_account_like = True, immutable = False\<rparr> 5))
       \<lparr>row_id = ''a'', row_data = [], row_block = BV_Range (Range (Some 2) (Some 7))\<rparr> \<longleftrightarrow>
   holds (br_contains (br_new \<lparr>object = ''T'', columns = [], is_account_like = False, immutable = False\<rparr> 5))
       \<lparr>row_id = ''a'', row_data = [], row_block = BV_Range (Range (Some 2) (Some 7))\<rparr>"
  using account_like_clause_equivalent
    [of "\<lparr>row_id = ''a'', row_data = [], row_block = BV_Range (Range (Some 2) (Some 7))\<rparr>"
      "Range (Some 2) (Some 7)" 7 "\<lparr>object = ''T'', columns = [], is_account_like = True, immutable = False\<rparr>" 5]
  by (simp del: br_contains.simps)

end
