(* ===== verification/Store_Events.thy ===== *)
theory Store_Events
  imports Entity_Ops
begin

text \<open>
  Change events and the subscriptions that receive them
  (\<^verbatim>\<open>graph/src/components/store/mod.rs\<close>, \<^verbatim>\<open>graph/src/data/store/mod.rs\<close>): which changes a set of
  modifications reports, which subscriptions a change reaches, and the throttling of a stream of
  events while a deployment is syncing, as the poll function the code writes.
\<close>

section \<open>Changes and filters\<close>

record DeploymentLocator =
  locator_id :: int
  locator_hash :: string

datatype EntityChangeOperation = Change_Set | Change_Removed

datatype EntityChange =
    Data_Change string string
  | Assignment_Change DeploymentLocator EntityChangeOperation

datatype SubscriptionFilter = Filter_Entities string string | Filter_Assignment

fun filter_matches :: "SubscriptionFilter \<Rightarrow> EntityChange \<Rightarrow> bool" where
  "filter_matches (Filter_Entities eid etype) (Data_Change sid ty) = (sid = eid \<and> ty = etype)"
| "filter_matches Filter_Assignment (Assignment_Change d op) = True"
| "filter_matches _ _ = False"

definition for_data :: "EntityKey \<Rightarrow> EntityChange" where
  "for_data key = Data_Change (subgraph_id key) (entity_type key)"

definition for_assignment :: "DeploymentLocator \<Rightarrow> EntityChangeOperation \<Rightarrow> EntityChange" where
  "for_assignment deployment op = Assignment_Change deployment op"

fun as_filter :: "EntityChange \<Rightarrow> SubscriptionFilter" where
  "as_filter (Data_Change sid ty) = Filter_Entities sid ty"
| "as_filter (Assignment_Change d op) = Filter_Assignment"

section \<open>Events\<close>

record StoreEvent =
  tag :: nat
  changes :: "EntityChange set"

text \<open>The tag comes from a counter and is passed in.\<close>

definition event_new :: "nat \<Rightarrow> EntityChange list \<Rightarrow> StoreEvent" where
  "event_new next_tag cs = \<lparr>tag = next_tag, changes = set cs\<rparr>"

definition event_from_modifications :: "nat \<Rightarrow> EntityModification list \<Rightarrow> StoreEvent" where
  "event_from_modifications next_tag mods =
     event_new next_tag
       (map (\<lambda>op. case op of Insert key _ \<Rightarrow> for_data key | Overwrite key _ \<Rightarrow> for_data key
                          | Remove key \<Rightarrow> for_data key) mods)"

fun event_accumulate :: "StoreEvent option \<Rightarrow> StoreEvent \<Rightarrow> StoreEvent option" where
  "event_accumulate (Some e) ev2 = Some (e\<lparr>changes := changes e \<union> changes ev2\<rparr>)"
| "event_accumulate None ev2 = Some ev2"

definition event_extend :: "StoreEvent \<Rightarrow> StoreEvent \<Rightarrow> StoreEvent" where
  "event_extend self other = self\<lparr>changes := changes self \<union> changes other\<rparr>"

definition event_matches :: "SubscriptionFilter list \<Rightarrow> StoreEvent \<Rightarrow> bool" where
  "event_matches filters ev = (\<exists>change \<in> changes ev. list_ex (\<lambda>f. filter_matches f change) filters)"

definition event_eq :: "StoreEvent \<Rightarrow> StoreEvent \<Rightarrow> bool" where
  "event_eq self other = (changes self = changes other)"

section \<open>Streams of events\<close>

text \<open>One result of polling a stream: an item, the end, an error, or nothing yet.\<close>

datatype 'a poll = NotReady | Ready_End | Ready 'a | Poll_Err

fun poll_matches :: "SubscriptionFilter list \<Rightarrow> StoreEvent poll \<Rightarrow> bool" where
  "poll_matches filters (Ready ev) = event_matches filters ev"
| "poll_matches filters _ = True"

definition filter_by_entities :: "SubscriptionFilter list \<Rightarrow> StoreEvent poll list \<Rightarrow> StoreEvent poll list" where
  "filter_by_entities filters source = filter (poll_matches filters) source"

record throttle =
  pending_event :: "StoreEvent option"
  had_err :: bool

fun take_pending :: "StoreEvent option \<Rightarrow> StoreEvent poll" where
  "take_pending (Some ev) = Ready ev"
| "take_pending None = Ready_End"

text \<open>
  The loop that drains the source. Its argument is what successive polls of the source return;
  \<open>None\<close> means that the loop is still polling when that list ends.
\<close>

fun throttle_loop ::
  "bool \<Rightarrow> throttle \<Rightarrow> StoreEvent poll list \<Rightarrow> (StoreEvent poll \<times> throttle \<times> StoreEvent poll list) option" where
  "throttle_loop should_send st [] = None"
| "throttle_loop should_send st (NotReady # source) =
     (if should_send \<and> pending_event st \<noteq> None
      then Some (take_pending (pending_event st), st\<lparr>pending_event := None\<rparr>, source)
      else Some (NotReady, st, source))"
| "throttle_loop should_send st (Ready_End # source) =
     Some (take_pending (pending_event st), st\<lparr>pending_event := None\<rparr>, source)"
| "throttle_loop should_send st (Ready ev # source) =
     throttle_loop should_send (st\<lparr>pending_event := event_accumulate (pending_event st) ev\<rparr>) source"
| "throttle_loop should_send st (Poll_Err # source) =
     (if pending_event st \<noteq> None
      then Some (take_pending (pending_event st), st\<lparr>had_err := True, pending_event := None\<rparr>, source)
      else Some (Poll_Err, st, source))"

definition throttle_poll ::
  "bool \<Rightarrow> bool \<Rightarrow> throttle \<Rightarrow> StoreEvent poll list \<Rightarrow> (StoreEvent poll \<times> throttle \<times> StoreEvent poll list) option" where
  "throttle_poll synced should_send st source =
     (if had_err st then Some (Poll_Err, st\<lparr>had_err := False\<rparr>, source)
      else if synced then (case source of [] \<Rightarrow> None | p # rest \<Rightarrow> Some (p, st, rest))
      else throttle_loop should_send st source)"

section \<open>Conservation of changes\<close>

fun poll_changes :: "StoreEvent poll \<Rightarrow> EntityChange set" where
  "poll_changes (Ready ev) = changes ev"
| "poll_changes _ = {}"

definition pending_changes :: "throttle \<Rightarrow> EntityChange set" where
  "pending_changes st = (case pending_event st of None \<Rightarrow> {} | Some ev \<Rightarrow> changes ev)"

definition source_changes :: "StoreEvent poll list \<Rightarrow> EntityChange set" where
  "source_changes source = \<Union> (poll_changes ` set source)"

definition source_errors :: "StoreEvent poll list \<Rightarrow> nat" where
  "source_errors source = length (filter (\<lambda>p. p = Poll_Err) source)"

lemma source_simps [simp]:
  "source_changes [] = {}" "source_changes (p # source) = poll_changes p \<union> source_changes source"
  "source_errors [] = 0" "source_errors (p # source) = (if p = Poll_Err then 1 else 0) + source_errors source"
  by (simp_all add: source_changes_def source_errors_def)

lemma poll_changes_take_pending: "poll_changes (take_pending p) = (case p of None \<Rightarrow> {} | Some ev \<Rightarrow> changes ev)"
  by (cases p) simp_all

lemma pending_changes_accumulate:
  "pending_changes (st\<lparr>pending_event := event_accumulate (pending_event st) ev\<rparr>) = pending_changes st \<union> changes ev"
  by (cases "pending_event st") (auto simp: pending_changes_def)

definition owed :: "throttle \<Rightarrow> nat" where
  "owed st = (if had_err st then 1 else 0)"

lemma throttle_loop_conserves:
  assumes "throttle_loop should_send st source = Some (p, st', rest)" and "\<not> had_err st"
  shows "pending_changes st \<union> source_changes source = poll_changes p \<union> pending_changes st' \<union> source_changes rest \<and>
    source_errors source = (if p = Poll_Err then 1 else 0) + owed st' + source_errors rest"
  using assms
proof (induction should_send st source arbitrary: p st' rest rule: throttle_loop.induct)
  case (4 should_send st ev source)
  then show ?case using pending_changes_accumulate [of st ev] by auto
next
  case (2 should_send st source)
  then show ?case
    by (cases "pending_event st") (auto simp: pending_changes_def owed_def split: if_splits)
next
  case (3 should_send st source)
  then show ?case
    by (cases "pending_event st") (auto simp: pending_changes_def owed_def)
next
  case (5 should_send st source)
  then show ?case
    by (cases "pending_event st") (auto simp: pending_changes_def owed_def split: if_splits)
qed simp

lemma throttle_loop_returns:
  "\<exists>p \<in> set source. \<forall>ev. p \<noteq> Ready ev \<Longrightarrow> throttle_loop should_send st source \<noteq> None"
  by (induction should_send st source rule: throttle_loop.induct) auto

section \<open>Properties of events\<close>

text \<open>
  The event for a list of modifications reaches exactly the subscriptions that ask for the
  type of one of the modified entities, whatever kind of modification it is.
\<close>

theorem modification_event_reaches_subscribers:
  "event_matches filters (event_from_modifications t mods) \<longleftrightarrow>
     (\<exists>m \<in> set mods. Filter_Entities (subgraph_id (entity_key m)) (entity_type (entity_key m)) \<in> set filters)"
proof -
  have "filter_matches f (for_data k) \<longleftrightarrow> f = Filter_Entities (subgraph_id k) (entity_type k)" for f k
    by (cases f) (auto simp: for_data_def)
  moreover have "(case m of Insert key _ \<Rightarrow> for_data key | Overwrite key _ \<Rightarrow> for_data key | Remove key \<Rightarrow> for_data key) =
      for_data (entity_key m)" for m
    by (cases m) simp_all
  ultimately show ?thesis
    by (auto simp: event_matches_def event_from_modifications_def event_new_def list_ex_iff)
qed

text \<open>
  C28: throttling loses nothing and invents nothing. A poll of the throttled stream that returns
  accounts for every change that was pending or arrived from the source: it is delivered now or
  is still pending. Every error of the source is reported, after what was accumulated before it,
  and a poll returns as soon as the source has nothing more to offer.
\<close>

theorem throttle_conserves_changes:
  assumes "\<exists>p \<in> set source. \<forall>ev. p \<noteq> Ready ev"
  shows "\<exists>p st' rest. throttle_poll synced should_send st source = Some (p, st', rest) \<and>
    pending_changes st \<union> source_changes source =
      poll_changes p \<union> pending_changes st' \<union> source_changes rest \<and>
    owed st + source_errors source = (if p = Poll_Err then 1 else 0) + owed st' + source_errors rest"
proof -
  consider "had_err st" | "\<not> had_err st" "synced" | "\<not> had_err st" "\<not> synced" by blast
  then show ?thesis
  proof cases
    case 1
    then show ?thesis by (simp add: throttle_poll_def owed_def pending_changes_def)
  next
    case 2
    with assms show ?thesis by (cases source) (auto simp: throttle_poll_def owed_def)
  next
    case 3
    with throttle_loop_returns [OF assms] obtain p st' rest
      where "throttle_loop should_send st source = Some (p, st', rest)" by (metis option.exhaust prod.exhaust)
    with throttle_loop_conserves [OF this] 3 show ?thesis by (simp add: throttle_poll_def owed_def)
  qed
qed

theorem throttle_conserves_changes_witness:
  "\<exists>p st' rest. throttle_poll False True \<lparr>pending_event = None, had_err = False\<rparr>
      [Ready \<lparr>tag = 1, changes = {Data_Change ''Qm'' ''Token''}\<rparr>, Poll_Err] = Some (p, st', rest) \<and>
    Data_Change ''Qm'' ''Token'' \<in> poll_changes p \<union> pending_changes st' \<union> source_changes rest"
  using throttle_conserves_changes [of "[Ready \<lparr>tag = 1, changes = {Data_Change ''Qm'' ''Token''}\<rparr>, Poll_Err]"
      False True "\<lparr>pending_event = None, had_err = False\<rparr>"]
  by (simp add: poll.distinct) blast

end
