(* ===== verification/Relational.thy ===== *)
theory Relational
  imports Block_Range Store_Events
begin

text \<open>
  The relational store of a deployment (\<^verbatim>\<open>store/postgres/src/relational.rs\<close>,
  \<^verbatim>\<open>relational_queries.rs\<close>, and the constraints of the tables in \<^verbatim>\<open>relational/ddl.rs\<close>). Every entity
  has versions, each valid for a range of blocks. The statements run against a list of rows per
  table with PostgreSQL's constraint checks; values are stored as they are, their encoding into
  SQL types and back is not modelled. A statement that fails aborts its transaction, so that
  operations return either an error or the new state.
\<close>

section \<open>Errors, tables and statements\<close>

datatype unknown_error = Diesel sql_error | Anyhow string

datatype StoreError =
    Unknown unknown_error
  | ConflictingId string string string
  | UnknownField string
  | UnknownTable string
  | MalformedDirective string
  | QueryExecutionError string
  | InvalidIdentifier string
  | DuplicateBlockProcessing string int
  | ConstraintViolation string
  | DeploymentNotFound string
  | UnknownShard string
  | FulltextSearchNonDeterministic
  | Canceled
  | DatabaseUnavailable
  | ForkFailure string
  | Poisoned
  | WriterPanic string
  | Panic string

definition db_error :: "(sql_error, 'a) result \<Rightarrow> (StoreError, 'a) result" where
  "db_error r = (case r of Inl e \<Rightarrow> Inl (Unknown (Diesel e)) | Inr x \<Rightarrow> Inr x)"

text \<open>The constraints of a table: one live version per entity and block, or one per entity.\<close>

definition rows_conflict :: "row \<Rightarrow> row \<Rightarrow> bool" where
  "rows_conflict r s =
     (row_id r = row_id s \<and>
      (case (row_block r, row_block s) of
         (BV_Range g, BV_Range h) \<Rightarrow> range_overlaps g h
       | _ \<Rightarrow> True))"

definition constraint_ok :: "row list \<Rightarrow> bool" where
  "constraint_ok rows = sorted_wrt (\<lambda>r s. \<not> rows_conflict r s) rows"

definition column_not_null :: "Column \<Rightarrow> bool" where
  "column_not_null c = (field c = ''id'' \<or> \<not> nullable c)"

definition check_columns :: "Table \<Rightarrow> sql_cond \<Rightarrow> (sql_error, unit) result" where
  "check_columns table cond =
     (if immutable table \<and> uses_range cond then Inl (UndefinedColumn ''block_range'')
      else if \<not> immutable table \<and> uses_block cond then Inl (UndefinedColumn ''block$'')
      else Inr ())"

definition sql_select :: "Table \<Rightarrow> sql_cond \<Rightarrow> row list \<Rightarrow> (sql_error, row list) result" where
  "sql_select table cond rows = and_then (check_columns table cond) (\<lambda>_. Inr (filter (holds cond) rows))"

text \<open>\<open>delete .. where .. returning id\<close> and \<open>update .. set .. where .. returning id\<close>.\<close>

definition sql_delete :: "Table \<Rightarrow> sql_cond \<Rightarrow> row list \<Rightarrow> (sql_error, string list \<times> row list) result" where
  "sql_delete table cond rows =
     and_then (check_columns table cond) (\<lambda>_.
       Inr (map row_id (filter (holds cond) rows), filter (\<lambda>r. \<not> holds cond r) rows))"

definition sql_update ::
  "Table \<Rightarrow> range_update \<Rightarrow> sql_cond \<Rightarrow> row list \<Rightarrow> (sql_error, string list \<times> row list) result" where
  "sql_update table upd cond rows =
     and_then (check_columns table cond) (\<lambda>_.
     and_then (try_map (\<lambda>r. if holds cond r then eval_update upd r else Inr r) rows) (\<lambda>rows1.
       if constraint_ok rows1 then Inr (map row_id (filter (holds cond) rows), rows1)
       else Inl (ExclusionViolation (object table))))"

definition sql_insert_row :: "Table \<Rightarrow> row \<Rightarrow> row list \<Rightarrow> (sql_error, row list) result" where
  "sql_insert_row table r rows =
     (case List.find (\<lambda>c. column_not_null c \<and> (case hm_get (row_data r) (field c) of
                             None \<Rightarrow> True | Some v \<Rightarrow> v = V_Null)) (columns table) of
        Some c \<Rightarrow> Inl (NotNullViolation (field c))
      | None \<Rightarrow>
          (if list_ex (\<lambda>s. rows_conflict s r) rows
           then Inl (if immutable table then UniqueViolation (row_id r) else ExclusionViolation (row_id r))
           else Inr (rows @ [r])))"

section \<open>Reading versions\<close>

definition new_entity :: "string \<Rightarrow> Entity" where
  "new_entity typename = hm_insert ''__typename'' (V_String typename) entity_new"

definition table_column :: "Table \<Rightarrow> string \<Rightarrow> Column option" where
  "table_column table name = List.find (\<lambda>c. field c = name) (filter (\<lambda>c. fulltext_fields c = None) (columns table))"

definition deserialize_with_layout :: "Table \<Rightarrow> Entity \<Rightarrow> Entity" where
  "deserialize_with_layout table data =
     fold (\<lambda>(key, value) out.
             case table_column table key of
               Some c \<Rightarrow> if value \<noteq> V_Null then hm_insert (field c) value out else out
             | None \<Rightarrow> out)
       data (new_entity (object table))"

type_synonym db = "string \<Rightarrow> row list"

record Layout =
  site_deployment :: string
  tables :: "(string, Table) hash_map"
  layout_hex :: "u8 list \<Rightarrow> string"

definition table_for_entity :: "Layout \<Rightarrow> string \<Rightarrow> (StoreError, Table) result" where
  "table_for_entity layout ty =
     (case hm_get (tables layout) ty of None \<Rightarrow> Inl (UnknownTable ty) | Some t \<Rightarrow> Inr t)"

definition find_query :: "Table \<Rightarrow> string \<Rightarrow> int \<Rightarrow> sql_cond" where
  "find_query table i block = C_And (C_Id_Eq i) (br_contains (br_new table block))"

definition layout_find ::
  "Layout \<Rightarrow> db \<Rightarrow> string \<Rightarrow> string \<Rightarrow> int \<Rightarrow> (StoreError, Entity option) result" where
  "layout_find layout d ty i block =
     and_then (table_for_entity layout ty) (\<lambda>table.
     and_then (db_error (sql_select table (find_query table i block) (d (object table)))) (\<lambda>rows.
       Inr (case rows of [] \<Rightarrow> None | r # _ \<Rightarrow> Some (deserialize_with_layout table (row_data r)))))"

definition find_many_query :: "Table \<Rightarrow> string list \<Rightarrow> int \<Rightarrow> sql_cond" where
  "find_many_query table ids block = C_And (C_Id_In ids) (br_contains (br_new table block))"

text \<open>The union of the selects for all tables, with the results grouped by entity type.\<close>

definition layout_find_many ::
  "Layout \<Rightarrow> db \<Rightarrow> (string, string list) btree_map \<Rightarrow> int \<Rightarrow>
   (StoreError, (string, Entity list) btree_map) result" where
  "layout_find_many layout d ids_for_type block =
     (if ids_for_type = [] then Inr []
      else
        and_then (try_map (\<lambda>(ty, ids). and_then (table_for_entity layout ty) (\<lambda>t. Inr (t, ids))) ids_for_type) (\<lambda>ts.
        and_then (try_map (\<lambda>(t, ids). and_then (db_error (sql_select t (find_many_query t ids block) (d (object t))))
                     (\<lambda>rows. Inr (map (\<lambda>r. (object t, deserialize_with_layout t (row_data r))) rows))) ts) (\<lambda>datas.
          Inr (fold (\<lambda>(ty, e). bt_entry ty [] (\<lambda>es. es @ [e])) (concat datas) []))))"

definition find_changes_query :: "int \<Rightarrow> sql_cond" where
  "find_changes_query block = block_range_lower_bound_clause block"

definition find_possible_deletions_query :: "int \<Rightarrow> sql_cond" where
  "find_possible_deletions_query block = block_range_upper_bound_clause block"

text \<open>The tables other than the one for proofs of indexing, in the iteration order of the map.\<close>

definition change_tables :: "Layout \<Rightarrow> Table list" where
  "change_tables layout = filter (\<lambda>t. object t \<noteq> ''Poi$'') (map snd (tables layout))"

definition change_op :: "Layout \<Rightarrow> Table \<Rightarrow> row \<Rightarrow> (StoreError, (string \<times> string) \<times> EntityOperation) result" where
  "change_op layout t r =
     (let data = deserialize_with_layout t (row_data r) in
      case entity_get_id (layout_hex layout) data of
        Inl _ \<Rightarrow> Inl (Panic ''Invalid ID for entity.'')
      | Inr eid \<Rightarrow>
          (case hm_get data ''__typename'' of
             None \<Rightarrow> Inl (Panic ''__typename expected; this is a bug'')
           | Some _ \<Rightarrow>
               Inr ((object t, eid),
                    Set_Op \<lparr>subgraph_id = site_deployment layout, entity_type = object t, entity_id = eid\<rparr>
                      (hm_remove ''__typename'' data))))"

definition layout_find_changes :: "Layout \<Rightarrow> db \<Rightarrow> int \<Rightarrow> (StoreError, EntityOperation list) result" where
  "layout_find_changes layout d block =
     and_then (try_map (\<lambda>t. and_then (db_error (sql_select t (find_changes_query block) (d (object t))))
                  (\<lambda>rows. Inr (map (Pair t) rows))) (change_tables layout)) (\<lambda>sets.
     and_then (try_map (\<lambda>t. and_then (db_error (sql_select t (find_possible_deletions_query block) (d (object t))))
                  (\<lambda>rows. Inr (map (\<lambda>r. (object t, row_id r)) rows))) (change_tables layout)) (\<lambda>dels.
     and_then (try_map (\<lambda>(t, r). change_op layout t r) (concat sets)) (\<lambda>changes.
       Inr (map snd changes @
            map (\<lambda>(ty, i). Remove_Op \<lparr>subgraph_id = site_deployment layout, entity_type = ty, entity_id = i\<rparr>)
              (filter (\<lambda>x. x \<notin> set (map fst changes)) (concat dels))))))"

section \<open>Writing versions\<close>

definition prepare_column :: "EntityKey \<Rightarrow> Column \<Rightarrow> Entity \<Rightarrow> (StoreError, Entity) result" where
  "prepare_column key c entity =
     (let entity1 = (case fulltext_fields c of
                       None \<Rightarrow> entity
                     | Some fs \<Rightarrow>
                         (let vs = List.map_filter (hm_get entity) fs in
                          if vs = [] then entity else hm_insert (field c) (V_List vs) entity))
      in if \<not> nullable c \<and> hm_get entity1 (field c) = None
         then Inl (QueryExecutionError (field c)) else Inr entity1)"

definition insert_query_new ::
  "Table \<Rightarrow> (EntityKey \<times> Entity) list \<Rightarrow> (StoreError, (EntityKey \<times> Entity) list) result" where
  "insert_query_new table entities =
     try_map (\<lambda>(key, entity). and_then (try_fold (prepare_column key) (columns table) entity) (\<lambda>e. Inr (key, e))) entities"

definition unique_columns :: "Table \<Rightarrow> (EntityKey \<times> Entity) list \<Rightarrow> Column list" where
  "unique_columns table entities =
     filter (\<lambda>c. list_ex (\<lambda>(key, entity). hm_get entity (field c) \<noteq> None) entities) (columns table)"

definition insert_row :: "(u8 list \<Rightarrow> string) \<Rightarrow> Column list \<Rightarrow> Entity \<Rightarrow> block_value \<Rightarrow> row" where
  "insert_row hex cols entity bv =
     \<lparr>row_id = (case entity_get_id hex entity of Inr i \<Rightarrow> i | Inl _ \<Rightarrow> []),
      row_data = map (\<lambda>c. (field c, case hm_get entity (field c) of Some v \<Rightarrow> v | None \<Rightarrow> V_Null)) cols,
      row_block = bv\<rparr>"

definition insert_query ::
  "Layout \<Rightarrow> Table \<Rightarrow> (EntityKey \<times> Entity) list \<Rightarrow> int \<Rightarrow> row list \<Rightarrow> (StoreError, nat \<times> row list) result" where
  "insert_query layout table chunk block rows =
     and_then (insert_query_new table chunk) (\<lambda>entities.
       (let cols = unique_columns table entities;
            bv = literal_range_current (br_new table block)
        in and_then (db_error (try_fold (\<lambda>(key, e). sql_insert_row table (insert_row (layout_hex layout) cols e bv)) entities rows))
             (\<lambda>rows1. Inr (length entities, rows1))))"

function chunks :: "nat \<Rightarrow> 'a list \<Rightarrow> 'a list list" where
  "chunks n [] = []"
| "chunks n (x # xs) = take (max 1 n) (x # xs) # chunks n (drop (max 1 n) (x # xs))"
  by pat_completeness auto
termination by (relation "measure (length \<circ> snd)") auto

definition POSTGRES_MAX_PARAMETERS :: nat where
  "POSTGRES_MAX_PARAMETERS = 65535"

definition DELETE_OPERATION_CHUNK_SIZE :: nat where
  "DELETE_OPERATION_CHUNK_SIZE = 1000"

text \<open>\<open>chunks_mut\<close> panics for a chunk size of zero.\<close>

definition insert_chunks ::
  "Layout \<Rightarrow> Table \<Rightarrow> (EntityKey \<times> Entity) list \<Rightarrow> int \<Rightarrow> row list \<Rightarrow> (StoreError, nat \<times> row list) result" where
  "insert_chunks layout table entities block rows =
     (let chunk_size = POSTGRES_MAX_PARAMETERS div (length (columns table) + 1) in
      if chunk_size = 0 then Inl (Panic ''chunk size must be non-zero'')
      else try_fold (\<lambda>chunk (count, rs). and_then (insert_query layout table chunk block rs)
                       (\<lambda>(n, rs1). Inr (count + n, rs1))) (chunks chunk_size entities) (0, rows))"

definition layout_insert ::
  "Layout \<Rightarrow> string \<Rightarrow> (EntityKey \<times> Entity) list \<Rightarrow> int \<Rightarrow> db \<Rightarrow> (StoreError, nat \<times> db) result" where
  "layout_insert layout ty entities block d =
     and_then (table_for_entity layout ty) (\<lambda>table.
     and_then (insert_chunks layout table entities block (d (object table))) (\<lambda>(count, rows).
       Inr (count, d(object table := rows))))"

definition clamp_range_query ::
  "Table \<Rightarrow> string list \<Rightarrow> int \<Rightarrow> row list \<Rightarrow> (StoreError, nat \<times> row list) result" where
  "clamp_range_query table ids block rows =
     (if immutable table then Inl (ConstraintViolation (object table))
      else
        (let br_column = br_new table block in
         case clamp br_column of
           None \<Rightarrow> Inl (Panic ''immutable entities can not be updated or deleted'')
         | Some upd \<Rightarrow>
             and_then (db_error (sql_update table upd (C_And (C_Id_In ids) (br_latest br_column)) rows))
               (\<lambda>(touched, rows1). Inr (length touched, rows1))))"

definition layout_update ::
  "Layout \<Rightarrow> string \<Rightarrow> (EntityKey \<times> Entity) list \<Rightarrow> int \<Rightarrow> db \<Rightarrow> (StoreError, nat \<times> db) result" where
  "layout_update layout ty entities block d =
     and_then (table_for_entity layout ty) (\<lambda>table.
       if immutable table then Inl (ConstraintViolation ty)
       else
         and_then (clamp_range_query table (map (\<lambda>(key, _). entity_id key) entities) block (d (object table))) (\<lambda>(_, rows).
         and_then (insert_chunks layout table entities block rows) (\<lambda>(count, rows1).
           Inr (count, d(object table := rows1)))))"

definition layout_delete ::
  "Layout \<Rightarrow> string \<Rightarrow> string list \<Rightarrow> int \<Rightarrow> db \<Rightarrow> (StoreError, nat \<times> db) result" where
  "layout_delete layout ty ids block d =
     and_then (table_for_entity layout ty) (\<lambda>table.
       if immutable table then Inl (ConstraintViolation ty)
       else
         and_then (try_fold (\<lambda>chunk (count, rs). and_then (clamp_range_query table chunk block rs)
                       (\<lambda>(n, rs1). Inr (count + n, rs1))) (chunks DELETE_OPERATION_CHUNK_SIZE ids) (0, d (object table)))
           (\<lambda>(count, rows). Inr (count, d(object table := rows))))"

section \<open>Reverting\<close>

definition revert_remove_query :: "Table \<Rightarrow> int \<Rightarrow> sql_cond" where
  "revert_remove_query table block = changed_since (br_new table block)"

definition revert_clamp_cond :: "int \<Rightarrow> sql_cond" where
  "revert_clamp_cond block =
     C_And (C_And (C_And (C_And (C_Contains block) (C_Not BLOCK_RANGE_CURRENT))
       (C_Cmp E_Lower Cmp_Le (E_Param block)))
       (C_Cmp (E_Coalesce E_Upper 2147483647) Cmp_Gt (E_Param block)))
       (C_Cmp (E_Coalesce E_Upper 2147483647) Cmp_Lt (E_Param 2147483647))"

definition revert_clamp_query :: "Table \<Rightarrow> int \<Rightarrow> row list \<Rightarrow> (StoreError, string list \<times> row list) result" where
  "revert_clamp_query table block rows =
     (if immutable table then Inl (ConstraintViolation (object table))
      else db_error (sql_update table (Set_Range E_Lower None) (revert_clamp_cond block) rows))"

text \<open>
  One table: the ids of the removed and of the unclamped versions, the change of the entity count
  and the changed rows. Block numbers and counts are \<open>i32\<close>.
\<close>

definition revert_table ::
  "Layout \<Rightarrow> int \<Rightarrow> Table \<Rightarrow> row list \<Rightarrow> (StoreError, EntityChange list \<times> int \<times> row list) result" where
  "revert_table layout block table rows =
     and_then (db_error (sql_delete table (revert_remove_query table block) rows)) (\<lambda>(removed, rows1).
     and_then (if immutable table then Inr ([], rows1)
               else revert_clamp_query table (i32 (block - 1)) rows1) (\<lambda>(unclamped, rows2).
       (let deleted = filter (\<lambda>i. i \<notin> set unclamped) (remdups removed);
            inserted = filter (\<lambda>i. i \<notin> set removed) (remdups unclamped);
            change = Data_Change (site_deployment layout) (object table)
        in Inr (map (\<lambda>_. change) deleted @ map (\<lambda>_. change) (remdups unclamped),
                i32 (int (length inserted) - int (length deleted)), rows2))))"

definition layout_revert_block ::
  "nat \<Rightarrow> Layout \<Rightarrow> int \<Rightarrow> db \<Rightarrow> (StoreError, (StoreEvent \<times> int) \<times> db) result" where
  "layout_revert_block next_tag layout block d =
     and_then (try_fold (\<lambda>table (changes, count, d1).
                  and_then (revert_table layout block table (d1 (object table))) (\<lambda>(cs, n, rows).
                    Inr (changes @ cs, i32 (count + n), d1(object table := rows))))
                (map snd (tables layout)) ([], 0, d)) (\<lambda>(changes, count, d1).
       Inr ((event_new next_tag changes, count), d1))"

section \<open>Versions of entities\<close>

text \<open>The version of an entity that is valid at a block.\<close>

definition row_contains :: "row \<Rightarrow> int \<Rightarrow> bool" where
  "row_contains r c = (case row_block r of BV_Range g \<Rightarrow> range_contains g c | BV_Block b \<Rightarrow> b \<le> c)"

definition version :: "row list \<Rightarrow> string \<Rightarrow> int \<Rightarrow> Entity option" where
  "version rows i c = map_option row_data (List.find (\<lambda>r. row_id r = i \<and> row_contains r c) rows)"

definition block_ok :: "bool \<Rightarrow> int \<Rightarrow> block_value \<Rightarrow> bool" where
  "block_ok immut head bv =
     (case bv of BV_Range g \<Rightarrow> \<not> immut \<and> range_ok head g
               | BV_Block b \<Rightarrow> immut \<and> b \<le> head \<and> b < 2147483647)"

text \<open>No block number in the table is beyond \<open>head\<close>, and the table's constraint holds.\<close>

definition table_inv :: "Table \<Rightarrow> int \<Rightarrow> row list \<Rightarrow> bool" where
  "table_inv t head rows \<longleftrightarrow>
     constraint_ok rows \<and> (\<forall>r \<in> set rows. block_ok (immutable t) head (row_block r))"

lemma find_map_same:
  assumes "\<And>r. r \<in> set rows \<Longrightarrow> P (f r) \<longleftrightarrow> Q r" and "\<And>r. r \<in> set rows \<Longrightarrow> row_data (f r) = row_data r"
  shows "map_option row_data (List.find P (map f rows)) = map_option row_data (List.find Q rows)"
  using assms by (induction rows) auto

lemma version_cong:
  assumes "\<And>r. r \<in> set rows \<Longrightarrow> row_id r = i \<Longrightarrow> row_contains r c \<longleftrightarrow> row_contains r c'"
  shows "version rows i c = version rows i c'"
proof -
  have "List.find (\<lambda>r. row_id r = i \<and> row_contains r c) rows = List.find (\<lambda>r. row_id r = i \<and> row_contains r c') rows"
    using assms by (intro find_cong) auto
  then show ?thesis by (simp add: version_def)
qed

lemma version_None_iff: "version rows i c = None \<longleftrightarrow> (\<forall>r \<in> set rows. row_id r = i \<longrightarrow> \<not> row_contains r c)"
  by (auto simp: version_def find_None_iff)

lemma table_inv_mono: "table_inv t head rows \<Longrightarrow> head \<le> head' \<Longrightarrow> table_inv t head' rows"
  by (auto simp: table_inv_def block_ok_def intro: range_ok_mono split: block_value.splits)

lemma range_stable: "range_ok head g \<Longrightarrow> head \<le> b \<Longrightarrow> b \<le> c \<Longrightarrow> range_contains g c \<longleftrightarrow> range_contains g b"
  by (erule range_ok_cases) auto

lemma version_stable:
  assumes "table_inv t head rows" and "head \<le> b" and "b \<le> c"
  shows "version rows i c = version rows i b"
proof (rule version_cong)
  fix r assume "r \<in> set rows"
  then have "block_ok (immutable t) head (row_block r)" using assms(1) by (simp add: table_inv_def)
  then show "row_contains r c \<longleftrightarrow> row_contains r b"
    using assms(2,3) by (cases "row_block r") (auto simp: block_ok_def row_contains_def range_stable [OF _ assms(2,3)])
qed

lemma holds_find_query:
  assumes "table_inv t head rows" and "r \<in> set rows"
  shows "holds (find_query t i c) r \<longleftrightarrow> row_id r = i \<and> (row_contains r c \<or> immutable t \<and> c = 2147483647)"
proof -
  have ok: "block_ok (immutable t) head (row_block r)" using assms by (simp add: table_inv_def)
  show ?thesis
  proof (cases "row_block r")
    case (BV_Range g)
    with ok have "\<not> immutable t" "range_ok head g" by (simp_all add: block_ok_def)
    then show ?thesis
      using holds_br_contains_mutable [OF BV_Range] BV_Range by (simp add: find_query_def br_new_def row_contains_def)
  next
    case (BV_Block b)
    with ok have "immutable t" by (simp add: block_ok_def)
    then show ?thesis
      using BV_Block by (simp add: find_query_def br_new_def row_contains_def holds_def BLOCK_NUMBER_MAX_def)
  qed
qed

lemma check_columns_find [simp]: "check_columns t (find_query t i c) = Inr ()"
  by (auto simp: check_columns_def find_query_def br_new_def)

lemma layout_find_version:
  assumes "table_for_entity layout ty = Inr t" and "table_inv t head (d (object t))" and "c \<le> 2147483647"
  shows "layout_find layout d ty i c = Inr (map_option (deserialize_with_layout t) (version (d (object t)) i c))"
proof -
  have "holds (find_query t i c) r \<longleftrightarrow> row_id r = i \<and> row_contains r c" if "r \<in> set (d (object t))" for r
  proof -
    have "block_ok (immutable t) head (row_block r)" using assms(2) that by (simp add: table_inv_def)
    then show ?thesis
      using holds_find_query [OF assms(2) that, of i c] assms(3)
      by (cases "row_block r") (auto simp: block_ok_def row_contains_def)
  qed
  then have "filter (holds (find_query t i c)) (d (object t)) =
      filter (\<lambda>r. row_id r = i \<and> row_contains r c) (d (object t))"
    by (intro filter_cong) auto
  moreover have "List.find P xs = (case filter P xs of [] \<Rightarrow> None | x # _ \<Rightarrow> Some x)" for P :: "row \<Rightarrow> bool" and xs
    by (induction xs) auto
  ultimately show ?thesis
    using assms(1) by (simp add: layout_find_def sql_select_def db_error_def version_def split: list.splits)
qed

section \<open>Clamping versions\<close>

definition clamp_row :: "string list \<Rightarrow> int \<Rightarrow> row \<Rightarrow> row" where
  "clamp_row ids b r =
     (if row_id r \<in> set ids then
        (case row_block r of
           BV_Range (Range (Some l) None) \<Rightarrow>
             r\<lparr>row_block := BV_Range (if l = b then Empty_Range else Range (Some l) (Some b))\<rparr>
         | _ \<Rightarrow> r)
      else r)"

lemma clamp_row_simps [simp]: "row_id (clamp_row ids b r) = row_id r" "row_data (clamp_row ids b r) = row_data r"
  by (auto simp: clamp_row_def split: block_value.splits int4range.splits option.splits)

lemma clamp_row_block:
  assumes "block_ok False head (row_block r)" and "head \<le> b" and "b < 2147483647"
  shows "block_ok False b (row_block (clamp_row ids b r))"
    and "row_contains (clamp_row ids b r) c \<longleftrightarrow> row_contains r c \<and> \<not> (row_id r \<in> set ids \<and> b \<le> c)"
proof -
  obtain g where g: "row_block r = BV_Range g" "range_ok head g"
    using assms(1) by (auto simp: block_ok_def split: block_value.splits)
  show "block_ok False b (row_block (clamp_row ids b r))"
    using g(2,1) assms(2,3) by (auto elim!: range_ok_cases simp: block_ok_def clamp_row_def)
  show "row_contains (clamp_row ids b r) c \<longleftrightarrow> row_contains r c \<and> \<not> (row_id r \<in> set ids \<and> b \<le> c)"
    using g(2,1) assms(2) by (auto elim!: range_ok_cases simp: row_contains_def clamp_row_def split: if_splits)
qed

lemma clamp_step:
  assumes "block_ok False head (row_block r)" and "head \<le> b" and "b < 2147483647"
  shows "(if holds (C_And (C_Id_In ids) BLOCK_RANGE_CURRENT) r then eval_update (Set_Range E_Lower (Some b)) r else Inr r)
    = Inr (clamp_row ids b r)"
proof -
  obtain g where g: "row_block r = BV_Range g" "range_ok head g"
    using assms(1) by (auto simp: block_ok_def split: block_value.splits)
  show ?thesis
    using g(2,1) assms(2,3)
    by (auto elim!: range_ok_cases simp: holds_def BLOCK_RANGE_CURRENT_def clamp_row_def int4range_def)
qed

lemma try_map_Inr: "(\<And>x. x \<in> set xs \<Longrightarrow> f x = Inr (g x)) \<Longrightarrow> try_map f xs = Inr (map g xs)"
  by (induction xs) auto

text \<open>Changing rows keeps the constraint when the new versions hold only where an old one did.\<close>

lemma constraint_ok_map:
  assumes "constraint_ok rows"
    and "\<And>r. r \<in> set rows \<Longrightarrow> block_ok False h (row_block r) \<and> block_ok False h' (row_block (f r)) \<and> row_id (f r) = row_id r"
    and "\<And>r x. r \<in> set rows \<Longrightarrow> row_contains (f r) x \<Longrightarrow> row_contains r (g x)"
  shows "constraint_ok (map f rows)"
proof -
  have "\<not> rows_conflict (f r) (f s)" if rs: "r \<in> set rows" "s \<in> set rows" "\<not> rows_conflict r s" for r s
  proof -
    obtain p q p' q' where b: "row_block r = BV_Range p" "row_block s = BV_Range q"
        "row_block (f r) = BV_Range p'" "row_block (f s) = BV_Range q'"
        "range_ok h p" "range_ok h q" "range_ok h' p'" "range_ok h' q'"
      using assms(2) [OF rs(1)] assms(2) [OF rs(2)] by (auto simp: block_ok_def split: block_value.splits)
    have "\<exists>x. range_contains p x \<and> range_contains q x" if "range_contains p' x" "range_contains q' x" for x
      using assms(3) [OF rs(1), of x] assms(3) [OF rs(2), of x] that b
      by (auto simp: row_contains_def)
    then have "range_overlaps p' q' \<Longrightarrow> range_overlaps p q"
      using range_overlaps_iff [OF b(5,6)] range_overlaps_iff [OF b(7,8)] by blast
    with rs(3) assms(2) [OF rs(1)] assms(2) [OF rs(2)] b(1-4) show ?thesis by (auto simp: rows_conflict_def)
  qed
  then show ?thesis
    using assms(1) unfolding constraint_ok_def sorted_wrt_map by (rule sorted_wrt_mono_rel)
qed

lemma clamp_range_query_spec:
  assumes inv: "table_inv t head rows" and "head \<le> b" and "b < 2147483647" and "\<not> immutable t"
  shows "\<exists>n. clamp_range_query t ids b rows = Inr (n, map (clamp_row ids b) rows)"
    and "table_inv t b (map (clamp_row ids b) rows)"
    and "version (map (clamp_row ids b) rows) i c = (if i \<in> set ids \<and> b \<le> c then None else version rows i c)"
proof -
  have ok: "block_ok False head (row_block r)" if "r \<in> set rows" for r
    using inv assms(4) that by (simp add: table_inv_def)
  have con: "constraint_ok (map (clamp_row ids b) rows)"
    using inv ok clamp_row_block [OF ok assms(2,3)]
    by (intro constraint_ok_map [of rows head b _ id]) (auto simp: table_inv_def)
  have "try_map (\<lambda>r. if holds (C_And (C_Id_In ids) BLOCK_RANGE_CURRENT) r then eval_update (Set_Range E_Lower (Some b)) r else Inr r) rows
      = Inr (map (clamp_row ids b) rows)"
    using clamp_step [OF ok assms(2,3)] by (rule try_map_Inr)
  with con show "\<exists>n. clamp_range_query t ids b rows = Inr (n, map (clamp_row ids b) rows)"
    using assms(4) by (simp add: clamp_range_query_def br_new_def sql_update_def check_columns_def db_error_def
        BLOCK_RANGE_CURRENT_def)
  show "table_inv t b (map (clamp_row ids b) rows)"
    using con clamp_row_block(1) [OF ok assms(2,3)] assms(4) by (auto simp: table_inv_def)
  show "version (map (clamp_row ids b) rows) i c = (if i \<in> set ids \<and> b \<le> c then None else version rows i c)"
  proof (cases "i \<in> set ids \<and> b \<le> c")
    case True
    then show ?thesis using clamp_row_block(2) [OF ok assms(2,3)] by (auto simp: version_None_iff)
  next
    case False
    then have "version (map (clamp_row ids b) rows) i c = version rows i c"
      unfolding version_def using clamp_row_block(2) [OF ok assms(2,3)] by (intro find_map_same) auto
    with False show ?thesis by auto
  qed
qed

section \<open>Inserting versions\<close>

lemma find_SomeD: "List.find P xs = Some x \<Longrightarrow> P x \<and> x \<in> set xs"
  by (induction xs) (auto split: if_splits)

lemma literal_range_current_br_new:
  "literal_range_current (br_new t b) = (if immutable t then BV_Block b else BV_Range (Range (Some b) None))"
  by (simp add: br_new_def block_range_from_def)

lemma find_append: "List.find P (xs @ ys) = (case List.find P xs of None \<Rightarrow> List.find P ys | Some x \<Rightarrow> Some x)"
  by (induction xs) auto

text \<open>A new current version of an entity without one conflicts with nothing.\<close>

lemma no_conflict:
  assumes "table_inv t head rows" and "head \<le> b" and "version rows (row_id r) b = None"
    and "row_block r = literal_range_current (br_new t b)" and "s \<in> set rows"
  shows "\<not> rows_conflict s r"
proof (cases "row_id s = row_id r")
  case True
  have ok: "block_ok (immutable t) head (row_block s)" using assms(1,5) by (simp add: table_inv_def)
  have no: "\<not> row_contains s b" using assms(3,5) True by (simp add: version_None_iff)
  show ?thesis
  proof (cases "row_block s")
    case (BV_Range g)
    with ok have g: "\<not> immutable t" "range_ok head g" by (simp_all add: block_ok_def)
    have "\<not> range_overlaps g (Range (Some b) None)"
      using g(2) assms(2) no BV_Range by (auto elim!: range_ok_cases simp: range_overlaps_def row_contains_def)
    then show ?thesis using BV_Range assms(4) g(1) by (simp add: rows_conflict_def literal_range_current_br_new)
  next
    case (BV_Block x)
    with ok no assms(2) show ?thesis by (simp add: block_ok_def row_contains_def)
  qed
qed (simp add: rows_conflict_def)

lemma insert_version:
  assumes inv: "table_inv t head rows" and b: "head \<le> b" "b < 2147483647"
    and none: "version rows (row_id r) b = None" and r: "row_block r = literal_range_current (br_new t b)"
  shows "table_inv t b (rows @ [r])"
    and "version (rows @ [r]) j c = (if j = row_id r \<and> b \<le> c then Some (row_data r) else version rows j c)"
proof -
  have "constraint_ok (rows @ [r])"
    using inv no_conflict [OF inv b(1) none r]
    by (auto simp: table_inv_def constraint_ok_def sorted_wrt_append)
  moreover have "block_ok (immutable t) b (row_block r)"
    using r b by (simp add: literal_range_current_br_new block_ok_def)
  ultimately show "table_inv t b (rows @ [r])"
    using table_inv_mono [OF inv b(1)] by (auto simp: table_inv_def)
  have contains: "row_contains r c \<longleftrightarrow> b \<le> c"
    using r by (simp add: row_contains_def literal_range_current_br_new)
  show "version (rows @ [r]) j c = (if j = row_id r \<and> b \<le> c then Some (row_data r) else version rows j c)"
    using none version_stable [OF inv b(1), of c "row_id r"] contains
    by (auto simp: version_def find_append split: option.splits)
qed

definition not_null_ok :: "Table \<Rightarrow> row \<Rightarrow> bool" where
  "not_null_ok t r \<longleftrightarrow> (\<forall>c \<in> set (columns t). column_not_null c \<longrightarrow>
     (\<exists>v. hm_get (row_data r) (field c) = Some v \<and> v \<noteq> V_Null))"

lemma sql_insert_row_ok:
  assumes "table_inv t head rows" and "head \<le> b" and "version rows (row_id r) b = None"
    and "row_block r = literal_range_current (br_new t b)" and "not_null_ok t r"
  shows "sql_insert_row t r rows = Inr (rows @ [r])"
proof -
  have "List.find (\<lambda>c. column_not_null c \<and> (case hm_get (row_data r) (field c) of
      None \<Rightarrow> True | Some v \<Rightarrow> v = V_Null)) (columns t) = None"
    using assms(5) by (auto simp: find_None_iff not_null_ok_def)
  moreover have "\<not> list_ex (\<lambda>s. rows_conflict s r) rows"
    using no_conflict [OF assms(1-4)] by (auto simp: list_ex_iff)
  ultimately show ?thesis by (simp add: sql_insert_row_def)
qed

lemma insert_rows_spec:
  assumes "table_inv t head rows" and "head \<le> b" and "b < 2147483647"
    and "distinct (map row_id new)"
    and "\<And>r. r \<in> set new \<Longrightarrow> version rows (row_id r) b = None \<and>
      row_block r = literal_range_current (br_new t b) \<and> not_null_ok t r"
  shows "try_fold (sql_insert_row t) new rows = Inr (rows @ new) \<and> table_inv t b (rows @ new) \<and>
    version (rows @ new) j c =
      (if b \<le> c then (case List.find (\<lambda>r. row_id r = j) new of Some r \<Rightarrow> Some (row_data r) | None \<Rightarrow> version rows j c)
       else version rows j c)"
  using assms
proof (induction new arbitrary: rows head)
  case Nil
  then show ?case by (simp add: table_inv_mono)
next
  case (Cons r new)
  have r: "version rows (row_id r) b = None" "row_block r = literal_range_current (br_new t b)" "not_null_ok t r"
    using Cons.prems(5) by auto
  note step = sql_insert_row_ok [OF Cons.prems(1,2) r]
  note ver = insert_version [OF Cons.prems(1-3) r(1,2)]
  have other: "row_id s \<noteq> row_id r" if "s \<in> set new" for s
    using Cons.prems(4) that by (auto simp: image_iff)
  have IH: "try_fold (sql_insert_row t) new (rows @ [r]) = Inr ((rows @ [r]) @ new) \<and> table_inv t b ((rows @ [r]) @ new) \<and>
    version ((rows @ [r]) @ new) j c =
      (if b \<le> c then (case List.find (\<lambda>r. row_id r = j) new of Some r \<Rightarrow> Some (row_data r) | None \<Rightarrow> version (rows @ [r]) j c)
       else version (rows @ [r]) j c)"
    using Cons.prems(3-5) by (intro Cons.IH [OF ver(1) order_refl]) (auto simp: ver(2) other)
  have "List.find (\<lambda>s. row_id s = row_id r) new = None"
    using other by (simp add: find_None_iff)
  with IH step show ?case by (auto simp: ver(2) split: option.splits)
qed

section \<open>What a row stores of an entity\<close>

definition table_wf :: "Table \<Rightarrow> bool" where
  "table_wf t \<longleftrightarrow>
     distinct (map field (columns t)) \<and> length (columns t) < 65535 \<and>
     ''__typename'' \<notin> set (map field (columns t)) \<and>
     (\<exists>c \<in> set (columns t). field c = ''id'' \<and> fulltext_fields c = None) \<and>
     (\<forall>c \<in> set (columns t). fulltext_fields c \<noteq> None \<longrightarrow> nullable c)"

text \<open>An entity that can be stored: it has its id, every required value and no unknown attribute.\<close>

definition entity_fits :: "(u8 list \<Rightarrow> string) \<Rightarrow> Table \<Rightarrow> string \<Rightarrow> Entity \<Rightarrow> bool" where
  "entity_fits hex t i e \<longleftrightarrow>
     entity_get_id hex e = Inr i \<and>
     (\<forall>c \<in> set (columns t). column_not_null c \<longrightarrow> (\<exists>v. hm_get e (field c) = Some v \<and> v \<noteq> V_Null)) \<and>
     (\<forall>k v. hm_get e k = Some v \<longrightarrow> v \<noteq> V_Null \<longrightarrow> k \<noteq> ''__typename'' \<longrightarrow> table_column t k \<noteq> None)"

lemma table_column_Some: "table_column t k = Some c \<Longrightarrow> field c = k \<and> c \<in> set (columns t) \<and> fulltext_fields c = None"
  by (auto simp: table_column_def dest!: find_SomeD)

lemma deserialize_get:
  assumes "hm_wf data"
  shows "map_of (deserialize_with_layout t data) k =
    (case map_of data k of
       Some v \<Rightarrow> if table_column t k \<noteq> None \<and> v \<noteq> V_Null then Some v else map_of (new_entity (object t)) k
     | None \<Rightarrow> map_of (new_entity (object t)) k)"
proof -
  have "map_of (fold (\<lambda>(key, value) out. case table_column t key of
          Some c \<Rightarrow> if value \<noteq> V_Null then hm_insert (field c) value out else out | None \<Rightarrow> out) data out) k =
      (case map_of data k of
         Some v \<Rightarrow> if table_column t k \<noteq> None \<and> v \<noteq> V_Null then Some v else map_of out k
       | None \<Rightarrow> map_of out k)" for out
    using assms
  proof (induction data arbitrary: out)
    case (Cons x data)
    obtain key v where x: "x = (key, v)" by (cases x)
    with Cons.prems have none: "map_of data key = None" by (simp add: map_of_eq_None_iff)
    show ?case
      using Cons x none by (auto dest: table_column_Some split: option.splits)
  qed simp
  then show ?thesis by (simp add: deserialize_with_layout_def)
qed

definition prep_column :: "Column \<Rightarrow> Entity \<Rightarrow> Entity" where
  "prep_column c entity =
     (case fulltext_fields c of
        None \<Rightarrow> entity
      | Some fs \<Rightarrow>
          (let vs = List.map_filter (hm_get entity) fs in
           if vs = [] then entity else hm_insert (field c) (V_List vs) entity))"

lemma prepare_column_alt:
  "prepare_column key c e =
     (if \<not> nullable c \<and> hm_get (prep_column c e) (field c) = None then Inl (QueryExecutionError (field c))
      else Inr (prep_column c e))"
  by (simp add: prepare_column_def prep_column_def Let_def)

lemma prep_column_get: "(field c = k \<Longrightarrow> fulltext_fields c = None) \<Longrightarrow> hm_get (prep_column c e) k = hm_get e k"
  by (auto simp: prep_column_def Let_def split: option.splits)

lemma fold_prep_column_get:
  "(\<And>c. c \<in> set cs \<Longrightarrow> field c = k \<Longrightarrow> fulltext_fields c = None) \<Longrightarrow> hm_get (fold prep_column cs e) k = hm_get e k"
  by (induction cs arbitrary: e) (auto simp: prep_column_get)

lemma prepare_columns_ok:
  assumes "distinct (map field cs)" and "\<forall>c \<in> set cs. fulltext_fields c \<noteq> None \<longrightarrow> nullable c"
    and "\<forall>c \<in> set cs. \<not> nullable c \<longrightarrow> hm_get e (field c) \<noteq> None"
  shows "try_fold (prepare_column key) cs e = Inr (fold prep_column cs e)"
  using assms
proof (induction cs arbitrary: e)
  case (Cons c cs)
  have "hm_get (prep_column c e) (field d) = hm_get e (field d)" if "d \<in> set cs \<or> (d = c \<and> \<not> nullable c)" for d
    using that Cons.prems(1,2) by (intro prep_column_get) (auto simp: image_iff)
  with Cons show ?case by (auto simp: prepare_column_alt)
qed simp

text \<open>What a table says about an entity at a block.\<close>

definition stored :: "Table \<Rightarrow> row list \<Rightarrow> string \<Rightarrow> int \<Rightarrow> (Attribute \<rightharpoonup> Value) option" where
  "stored t rows i c = map_option (\<lambda>data. visible (deserialize_with_layout t data)) (version rows i c)"

lemma new_entity_get [simp]: "map_of (new_entity n) = [''__typename'' \<mapsto> V_String n]"
  by (simp add: new_entity_def entity_new_def)

lemma map_of_columns:
  "distinct (map field cs) \<Longrightarrow> map_of (map (\<lambda>c. (field c, f c)) cs) k =
    (case List.find (\<lambda>c. field c = k) cs of None \<Rightarrow> None | Some c \<Rightarrow> Some (f c))"
  by (induction cs) auto

lemma same_field:
  "table_wf t \<Longrightarrow> c \<in> set (columns t) \<Longrightarrow> d \<in> set (columns t) \<Longrightarrow> field c = field d \<Longrightarrow> c = d"
  by (auto simp: table_wf_def distinct_map dest: inj_onD)

lemma plain_column:
  assumes "table_wf t" and "c \<in> set (columns t)" and "fulltext_fields c = None"
  shows "table_column t (field c) = Some c"
proof (cases "table_column t (field c)")
  case None
  with assms show ?thesis by (auto simp: table_column_def find_None_iff)
next
  case (Some d)
  with same_field [OF assms(1,2), of d] table_column_Some [OF Some] show ?thesis by simp
qed

lemma prep_plain_get:
  assumes "table_wf t" and "table_column t k \<noteq> None"
  shows "hm_get (fold prep_column (columns t) e) k = hm_get e k"
proof (rule fold_prep_column_get)
  fix c assume c: "c \<in> set (columns t)" "field c = k"
  obtain d where d: "field d = k" "d \<in> set (columns t)" "fulltext_fields d = None"
    using assms(2) table_column_Some by blast
  with c same_field [OF assms(1)] have "c = d" by simp
  with d show "fulltext_fields c = None" by simp
qed

lemma not_null_plain: "table_wf t \<Longrightarrow> c \<in> set (columns t) \<Longrightarrow> column_not_null c \<Longrightarrow> fulltext_fields c = None"
proof -
  assume wf: "table_wf t" and c: "c \<in> set (columns t)" "column_not_null c"
  show ?thesis
  proof (cases "field c = ''id''")
    case True
    obtain d where d: "d \<in> set (columns t)" "field d = ''id''" "fulltext_fields d = None"
      using wf by (auto simp: table_wf_def)
    then have "c = d" using same_field [OF wf c(1) d(1)] True by simp
    with d show ?thesis by simp
  next
    case False
    with wf c show ?thesis by (auto simp: table_wf_def column_not_null_def)
  qed
qed

lemma non_null_alt: "non_null m k = (if m k = Some V_Null then None else m k)"
  by (auto simp: non_null_def split: option.splits Value.splits)

lemma table_wf_distinct: "table_wf t \<Longrightarrow> distinct (map field (filter Q (columns t)))"
  unfolding table_wf_def by (rule distinct_map_filter) simp

lemma insert_row_get:
  assumes wf: "table_wf t" and c: "c \<in> set (columns t)" and cols: "cols = filter Q (columns t)"
  shows "hm_get (row_data (insert_row hex cols e bv)) (field c) =
    (if Q c then Some (case hm_get e (field c) of Some v \<Rightarrow> v | None \<Rightarrow> V_Null) else None)"
proof -
  have dist: "distinct (map field cols)" unfolding cols by (rule table_wf_distinct [OF wf])
  have "List.find (\<lambda>d. field d = field c) cols = (if Q c then Some c else None)"
  proof (cases "List.find (\<lambda>d. field d = field c) cols")
    case None
    have "\<not> Q c"
    proof
      assume "Q c"
      with c have "c \<in> set cols" by (simp add: cols)
      with None show False unfolding find_None_iff by blast
    qed
    with None show ?thesis by simp
  next
    case (Some d)
    from find_SomeD [OF Some] have d: "field d = field c" "d \<in> set (columns t)" "Q d" by (auto simp: cols)
    have "d = c" by (rule same_field [OF wf d(2) c d(1)])
    with Some d(3) show ?thesis by simp
  qed
  then show ?thesis by (simp add: insert_row_def map_of_columns [OF dist])
qed

lemma insert_row_wf:
  assumes "table_wf t" and "cols = filter Q (columns t)"
  shows "hm_wf (row_data (insert_row hex cols e bv))"
proof -
  have "distinct (map field cols)" unfolding assms(2) by (rule table_wf_distinct [OF assms(1)])
  then show ?thesis by (simp add: insert_row_def comp_def)
qed

lemma insert_row_no_column:
  "k \<notin> set (map field cols) \<Longrightarrow> hm_get (row_data (insert_row hex cols e bv)) k = None"
  by (auto simp: insert_row_def map_of_eq_None_iff)

lemma insert_row_stores:
  assumes wf: "table_wf t" and fits: "entity_fits hex t i e" and e': "e' = fold prep_column (columns t) e"
    and cols: "cols = filter Q (columns t)" "\<And>c. c \<in> set (columns t) \<Longrightarrow> hm_get e' (field c) \<noteq> None \<Longrightarrow> Q c"
  shows "visible (deserialize_with_layout t (row_data (insert_row hex cols e' bv))) = visible e"
    and "row_id (insert_row hex cols e' bv) = i" and "not_null_ok t (insert_row hex cols e' bv)"
proof -
  let ?r = "insert_row hex cols e' bv"
  have plain: "hm_get e' k = hm_get e k" if "table_column t k \<noteq> None" for k
    using prep_plain_get [OF wf that] e' by simp
  show "not_null_ok t ?r"
    unfolding not_null_ok_def
  proof (intro ballI impI)
    fix c assume c: "c \<in> set (columns t)" "column_not_null c"
    then obtain v where v: "hm_get e (field c) = Some v" "v \<noteq> V_Null" using fits by (auto simp: entity_fits_def)
    moreover have "table_column t (field c) = Some c"
      by (rule plain_column [OF wf c(1) not_null_plain [OF wf c]])
    ultimately have "hm_get e' (field c) = Some v" using plain by simp
    with cols(2) [OF c(1)] v show "\<exists>v. hm_get (row_data ?r) (field c) = Some v \<and> v \<noteq> V_Null"
      by (simp add: insert_row_get [OF wf c(1) cols(1)])
  qed
  obtain idc where idc: "idc \<in> set (columns t)" "field idc = ''id''" "fulltext_fields idc = None"
    using wf by (auto simp: table_wf_def)
  have "hm_get e' ''id'' = hm_get e ''id''" using plain plain_column [OF wf idc(1,3)] idc(2) by simp
  with fits show "row_id ?r = i" by (simp add: insert_row_def entity_fits_def entity_get_id_def)
  have wf_row: "hm_wf (row_data ?r)" by (rule insert_row_wf [OF wf cols(1)])
  show "visible (deserialize_with_layout t (row_data ?r)) = visible e"
  proof
    fix k
    show "visible (deserialize_with_layout t (row_data ?r)) k = visible e k"
    proof (cases "k = ''__typename''")
      case False
      note typename = False
      show ?thesis
      proof (cases "table_column t k")
        case None
        then have "non_null (map_of e) k = None"
          using fits typename unfolding entity_fits_def non_null_alt by (metis option.exhaust)
        with None typename show ?thesis
          by (simp add: visible_def non_null_alt deserialize_get [OF wf_row] split: option.splits)
      next
        case (Some c)
        note c = table_column_Some [OF Some]
        have "hm_get e' k = hm_get e k" using plain Some by simp
        moreover have "hm_get (row_data ?r) k =
            (if Q c then Some (case hm_get e' k of Some v \<Rightarrow> v | None \<Rightarrow> V_Null) else None)"
          using insert_row_get [OF wf _ cols(1), of c hex e' bv] c by simp
        moreover have "hm_get e' k \<noteq> None \<Longrightarrow> Q c" using cols(2) [of c] c by simp
        ultimately show ?thesis
          using typename Some
          by (cases "hm_get e k"; cases "Q c") (simp_all add: visible_def non_null_alt deserialize_get [OF wf_row])
      qed
    qed (simp add: visible_def)
  qed
qed

text \<open>What a batch of entities says about an id.\<close>

definition batch :: "(EntityKey \<times> Entity) list \<Rightarrow> string \<rightharpoonup> Entity" where
  "batch es = map_of (map (\<lambda>(key, e). (entity_id key, e)) es)"

definition batch_ok :: "Layout \<Rightarrow> Table \<Rightarrow> (EntityKey \<times> Entity) list \<Rightarrow> bool" where
  "batch_ok layout t es \<longleftrightarrow>
     distinct (map (\<lambda>x. entity_id (fst x)) es) \<and>
     (\<forall>(key, e) \<in> set es. entity_fits (layout_hex layout) t (entity_id key) e)"

text \<open>
  The history of a table after the entities in \<open>m\<close> changed at block \<open>b\<close>: the new state from \<open>b\<close> on,
  the old one before.
\<close>

type_synonym history = "string \<Rightarrow> int \<Rightarrow> (Attribute \<rightharpoonup> Value) option"

definition change :: "int \<Rightarrow> (string \<rightharpoonup> (Attribute \<rightharpoonup> Value) option) \<Rightarrow> history \<Rightarrow> history" where
  "change b m S = (\<lambda>j c. case m j of Some v \<Rightarrow> if b \<le> c then v else S j c | None \<Rightarrow> S j c)"

definition puts :: "(EntityKey \<times> Entity) list \<Rightarrow> string \<rightharpoonup> (Attribute \<rightharpoonup> Value) option" where
  "puts es = (\<lambda>j. map_option (\<lambda>e. Some (visible e)) (batch es j))"

definition removes :: "string list \<Rightarrow> string \<rightharpoonup> (Attribute \<rightharpoonup> Value) option" where
  "removes ids = (\<lambda>j. if j \<in> set ids then Some None else None)"

lemma change_change: "change b m (change b k S) = change b (k ++ m) S"
  by (auto simp: change_def map_add_def fun_eq_iff split: option.splits)

lemma puts_append:
  assumes "distinct (map (\<lambda>x. entity_id (fst x)) (es @ fs))"
  shows "puts (es @ fs) = puts es ++ puts fs"
proof -
  have "dom (batch es) \<inter> dom (batch fs) = {}"
    using assms by (force simp: batch_def dom_map_of_conv_image_fst)
  then have "batch (es @ fs) = batch es ++ batch fs"
    using map_add_comm [of "batch es" "batch fs"] by (simp add: batch_def)
  then show ?thesis by (auto simp: puts_def map_add_def fun_eq_iff split: option.splits)
qed

lemma puts_Some_iff: "puts es j = None \<longleftrightarrow> j \<notin> set (map (\<lambda>x. entity_id (fst x)) es)"
  by (auto simp: puts_def batch_def map_of_eq_None_iff image_iff case_prod_unfold)

lemma insert_query_new_ok:
  assumes "table_wf t" and "batch_ok layout t es"
  shows "insert_query_new t es = Inr (map (\<lambda>(key, e). (key, fold prep_column (columns t) e)) es)"
  unfolding insert_query_new_def
proof (rule try_map_Inr)
  fix x assume "x \<in> set es"
  then obtain key e where x: "x = (key, e)" "entity_fits (layout_hex layout) t (entity_id key) e"
    using assms(2) by (cases x) (auto simp: batch_ok_def)
  have "try_fold (prepare_column key) (columns t) e = Inr (fold prep_column (columns t) e)"
    using assms(1) x(2)
    by (intro prepare_columns_ok) (force simp: table_wf_def entity_fits_def column_not_null_def)+
  with x(1) show "(case x of (key, e) \<Rightarrow> and_then (try_fold (prepare_column key) (columns t) e) (\<lambda>e. Inr (key, e))) =
      Inr (case x of (key, e) \<Rightarrow> (key, fold prep_column (columns t) e))"
    by simp
qed

lemma stored_insert:
  assumes rows: "\<And>j. version rows' j c = (if b \<le> c then (case List.find (\<lambda>r. row_id r = j) new of
        Some r \<Rightarrow> Some (row_data r) | None \<Rightarrow> version rows j c) else version rows j c)"
    and new: "new = map f es"
    and f: "\<And>key e. (key, e) \<in> set es \<Longrightarrow> row_id (f (key, e)) = entity_id key \<and>
        visible (deserialize_with_layout t (row_data (f (key, e)))) = visible e"
  shows "stored t rows' j c = change b (puts es) (stored t rows) j c"
proof -
  have "map_option (\<lambda>r. visible (deserialize_with_layout t (row_data r))) (List.find (\<lambda>r. row_id r = j) (map f es)) =
      map_option visible (batch es j)"
    using f by (induction es) (auto simp: batch_def)
  then show ?thesis
    unfolding stored_def rows new change_def puts_def by (auto split: option.splits)
qed

lemma insert_query_spec:
  assumes wf: "table_wf t" and ok: "batch_ok layout t es" and inv: "table_inv t head rows"
    and b: "head \<le> b" "b < 2147483647"
    and none: "\<forall>x \<in> set es. version rows (entity_id (fst x)) b = None"
  shows "\<exists>rows'. insert_query layout t es b rows = Inr (length es, rows') \<and>
    table_inv t b rows' \<and> stored t rows' = change b (puts es) (stored t rows) \<and>
    row_id ` set rows' = row_id ` set rows \<union> (\<lambda>x. entity_id (fst x)) ` set es"
proof -
  let ?es = "map (\<lambda>(key, e). (key, fold prep_column (columns t) e)) es"
  let ?Q = "\<lambda>c. list_ex (\<lambda>(key, entity). hm_get entity (field c) \<noteq> None) ?es"
  let ?bv = "literal_range_current (br_new t b)"
  define f where "f = (\<lambda>(key :: EntityKey, e). insert_row (layout_hex layout) (filter ?Q (columns t)) (fold prep_column (columns t) e) ?bv)"
  have f: "row_id (f (key, e)) = entity_id key" "visible (deserialize_with_layout t (row_data (f (key, e)))) = visible e"
      "not_null_ok t (f (key, e))" "row_block (f (key, e)) = ?bv" if "(key, e) \<in> set es" for key e
  proof -
    have fits: "entity_fits (layout_hex layout) t (entity_id key) e" using ok that by (auto simp: batch_ok_def)
    have "?Q c" if "hm_get (fold prep_column (columns t) e) (field c) \<noteq> None" for c
      using that \<open>(key, e) \<in> set es\<close> by (force simp: list_ex_iff)
    from insert_row_stores [OF wf fits refl refl this, where bv = ?bv]
    show "row_id (f (key, e)) = entity_id key" "visible (deserialize_with_layout t (row_data (f (key, e)))) = visible e"
      "not_null_ok t (f (key, e))" by (simp_all add: f_def)
    show "row_block (f (key, e)) = ?bv" by (simp add: f_def insert_row_def)
  qed
  have "map row_id (map f es) = map (\<lambda>x. entity_id (fst x)) es" using f(1) by auto
  then have dist: "distinct (map row_id (map f es))" using ok unfolding batch_ok_def by presburger
  have each: "version rows (row_id r) b = None \<and> row_block r = ?bv \<and> not_null_ok t r" if "r \<in> set (map f es)" for r
    using that f none by force
  have run: "try_fold (sql_insert_row t) (map f es) rows = Inr (rows @ map f es)" "table_inv t b (rows @ map f es)"
    and ver: "\<And>j c. version (rows @ map f es) j c = (if b \<le> c then (case List.find (\<lambda>r. row_id r = j) (map f es) of
        Some r \<Rightarrow> Some (row_data r) | None \<Rightarrow> version rows j c) else version rows j c)"
    using insert_rows_spec [OF inv b dist each] by auto
  have "try_fold (\<lambda>(key, e). sql_insert_row t (insert_row (layout_hex layout) (filter ?Q (columns t)) e ?bv)) ?es rows =
      try_fold (sql_insert_row t) (map f es) rows"
    unfolding f_def try_fold_map by (simp add: case_prod_unfold)
  then have "insert_query layout t es b rows = Inr (length es, rows @ map f es)"
    using run(1) by (simp add: insert_query_def insert_query_new_ok [OF wf ok] unique_columns_def db_error_def Let_def)
  moreover have "stored t (rows @ map f es) = change b (puts es) (stored t rows)"
    using stored_insert [OF ver refl, where t = t] f(1,2) by (simp add: fun_eq_iff)
  moreover have "row_id ` set (rows @ map f es) = row_id ` set rows \<union> (\<lambda>x. entity_id (fst x)) ` set es"
  proof -
    have "row_id ` f ` set es = (\<lambda>x. entity_id (fst x)) ` set es"
      unfolding image_image using f(1) by (intro image_cong) auto
    then show ?thesis by (simp add: image_Un)
  qed
  ultimately show ?thesis using run(2) by blast
qed

end
