(* ===== verification/Layout_History.thy ===== *)
theory Layout_History
  imports Relational
begin

text \<open>
  What the operations of \<^verbatim>\<open>store/postgres/src/relational.rs\<close> do to the history of a deployment: inserting,
  updating and deleting entities at a block changes their state from that block on, and reverting
  a block restores the state before it.
\<close>

section \<open>Versions that exist at a block\<close>

definition live :: "row list \<Rightarrow> int \<Rightarrow> string set" where
  "live rows c = {i. version rows i c \<noteq> None}"

lemma live_alt: "live rows c = row_id ` {r \<in> set rows. row_contains r c}"
  by (auto simp: live_def version_None_iff)

lemma live_code: "live rows c = set (map row_id (filter (\<lambda>r. row_contains r c) rows))"
  by (simp add: live_alt)

lemma same_version_conflict:
  assumes "block_ok immut head (row_block r)" and "block_ok immut head (row_block s)"
    and "row_id r = row_id s" and "row_contains r c" and "row_contains s c"
  shows "rows_conflict r s"
proof (cases "row_block r")
  case (BV_Range p)
  with assms(1,2) obtain q where q: "row_block s = BV_Range q" "range_ok head p" "range_ok head q"
    by (cases "row_block s") (auto simp: block_ok_def)
  have "range_contains p c" "range_contains q c" using assms(4,5) BV_Range q(1) by (simp_all add: row_contains_def)
  then have "range_overlaps p q" using range_overlaps_iff [OF q(2,3)] by blast
  then show ?thesis using assms(3) BV_Range q(1) by (simp add: rows_conflict_def)
qed (use assms(3) in \<open>simp add: rows_conflict_def\<close>)

lemma one_version:
  assumes inv: "table_inv t head rows" and "r \<in> set rows" and "s \<in> set rows"
    and "row_id r = row_id s" and "row_contains r c" and "row_contains s c"
  shows "r = s"
proof -
  have ok: "block_ok (immutable t) head (row_block r)" "block_ok (immutable t) head (row_block s)"
    using inv assms(2,3) by (simp_all add: table_inv_def)
  have "rows_conflict r s \<and> rows_conflict s r"
    using same_version_conflict [OF ok assms(4-6)] same_version_conflict [OF ok(2,1) assms(4) [symmetric] assms(6,5)] by simp
  moreover obtain i j where ij: "r = rows ! i" "s = rows ! j" "i < length rows" "j < length rows"
    using assms(2,3) by (auto simp: in_set_conv_nth)
  ultimately have "\<not> i < j" "\<not> j < i"
    using inv sorted_wrt_nth_less [of "\<lambda>r s. \<not> rows_conflict r s" rows] by (auto simp: table_inv_def constraint_ok_def)
  with ij show ?thesis by simp
qed

lemma sorted_wrt_neq_distinct: "sorted_wrt (\<lambda>x y. f x \<noteq> f y) xs \<Longrightarrow> distinct (map f xs)"
  by (induction xs) auto

lemma distinct_live:
  assumes "table_inv t head rows"
  shows "distinct (map row_id (filter (\<lambda>r. row_contains r c) rows))"
proof (rule sorted_wrt_neq_distinct, rule sorted_wrt_mono_rel)
  show "sorted_wrt (\<lambda>r s. \<not> rows_conflict r s) (filter (\<lambda>r. row_contains r c) rows)"
    using assms by (simp add: table_inv_def constraint_ok_def sorted_wrt_filter)
next
  fix r s
  assume rs: "r \<in> set (filter (\<lambda>r. row_contains r c) rows)" "s \<in> set (filter (\<lambda>r. row_contains r c) rows)"
    and "\<not> rows_conflict r s"
  then show "row_id r \<noteq> row_id s"
    using same_version_conflict [of "immutable t" head r s c] assms by (auto simp: table_inv_def)
qed

lemma card_live:
  "table_inv t head rows \<Longrightarrow> card (live rows c) = length (filter (\<lambda>r. row_contains r c) rows)"
  unfolding live_code using distinct_card [OF distinct_live] by simp

lemma finite_live [simp]: "finite (live rows c)"
  by (simp add: live_alt)

lemma current_row:
  assumes "table_inv t head rows" and "r \<in> set rows" and "head \<le> b" and "\<not> immutable t"
  shows "holds BLOCK_RANGE_CURRENT r \<longleftrightarrow> row_contains r b"
proof -
  have "block_ok False head (row_block r)" using assms(1,2,4) by (simp add: table_inv_def)
  then obtain g where g: "row_block r = BV_Range g" "range_ok head g"
    by (auto simp: block_ok_def split: block_value.splits)
  then show ?thesis
    using assms(3) by (auto simp: BLOCK_RANGE_CURRENT_def row_contains_def elim!: range_ok_cases)
qed

lemma clamp_count:
  assumes inv: "table_inv t head rows" and "head \<le> b" and "\<not> immutable t"
    and run: "clamp_range_query t ids b rows = Inr (n, rows')"
  shows "n = card (set ids \<inter> live rows b)"
proof -
  let ?P = "\<lambda>r. row_id r \<in> set ids \<and> row_contains r b"
  have "filter (holds (C_And (C_Id_In ids) BLOCK_RANGE_CURRENT)) rows = filter ?P rows"
    using current_row [OF inv _ assms(2,3)] by (intro filter_cong) auto
  then have n: "n = length (filter ?P rows)"
    using run assms(3)
    by (auto simp: clamp_range_query_def br_new_def sql_update_def db_error_def check_columns_def and_then_def Let_def
        split: sum.splits if_splits)
  have "filter ?P rows = filter (\<lambda>r. row_id r \<in> set ids) (filter (\<lambda>r. row_contains r b) rows)"
    by (simp add: conj_commute)
  then have "map row_id (filter ?P rows) = filter (\<lambda>i. i \<in> set ids) (map row_id (filter (\<lambda>r. row_contains r b) rows))"
    by (simp add: filter_map comp_def)
  then have "length (filter ?P rows) = length (filter (\<lambda>i. i \<in> set ids) (map row_id (filter (\<lambda>r. row_contains r b) rows)))"
    by (metis length_map)
  also have "\<dots> = card (set (filter (\<lambda>i. i \<in> set ids) (map row_id (filter (\<lambda>r. row_contains r b) rows))))"
    using distinct_live [OF inv] by (intro distinct_card [symmetric] distinct_filter)
  also have "set (filter (\<lambda>i. i \<in> set ids) (map row_id (filter (\<lambda>r. row_contains r b) rows))) = set ids \<inter> live rows b"
    unfolding live_code by auto
  finally show ?thesis using n by simp
qed

section \<open>Writing in chunks\<close>

lemma concat_chunks: "concat (chunks n xs) = xs"
  by (induction n xs rule: chunks.induct) auto

lemma stored_None_iff: "stored t rows i c = None \<longleftrightarrow> version rows i c = None"
  by (simp add: stored_def)

lemma insert_fold_spec:
  assumes "table_wf t" and "batch_ok layout t (concat css)" and "table_inv t head rows"
    and "head \<le> b" and "b < 2147483647"
    and "\<forall>x \<in> set (concat css). version rows (entity_id (fst x)) b = None"
  shows "\<exists>rows'. try_fold (\<lambda>chunk (count, rs). and_then (insert_query layout t chunk b rs)
        (\<lambda>(k, rs1). Inr (count + k, rs1))) css (n, rows) = Inr (n + length (concat css), rows') \<and>
      table_inv t b rows' \<and> stored t rows' = change b (puts (concat css)) (stored t rows) \<and>
      row_id ` set rows' = row_id ` set rows \<union> (\<lambda>x. entity_id (fst x)) ` set (concat css)"
  using assms
proof (induction css arbitrary: n rows head)
  case Nil
  then show ?case by (auto simp: change_def puts_def batch_def intro: table_inv_mono)
next
  case (Cons es css)
  have ok: "batch_ok layout t es" "batch_ok layout t (concat css)"
    and dist: "distinct (map (\<lambda>x. entity_id (fst x)) (es @ concat css))"
    using Cons.prems(2) by (auto simp: batch_ok_def)
  have none0: "\<forall>x \<in> set es. version rows (entity_id (fst x)) b = None"
    using Cons.prems(6) by simp
  obtain rows1 where r1: "insert_query layout t es b rows = Inr (length es, rows1)"
      "table_inv t b rows1" "stored t rows1 = change b (puts es) (stored t rows)"
      "row_id ` set rows1 = row_id ` set rows \<union> (\<lambda>x. entity_id (fst x)) ` set es"
    using insert_query_spec [OF Cons.prems(1) ok(1) Cons.prems(3-5) none0] by blast
  have none: "\<forall>x \<in> set (concat css). version rows1 (entity_id (fst x)) b = None"
  proof
    fix x assume x: "x \<in> set (concat css)"
    then have "entity_id (fst x) \<in> set (map (\<lambda>x. entity_id (fst x)) (concat css))" unfolding set_map by (rule imageI)
    with dist have "puts es (entity_id (fst x)) = None"
      unfolding puts_Some_iff map_append distinct_append by blast
    then have "stored t rows1 (entity_id (fst x)) b = stored t rows (entity_id (fst x)) b"
      using r1(3) by (simp add: change_def)
    moreover have "version rows (entity_id (fst x)) b = None" using Cons.prems(6) x by simp
    ultimately show "version rows1 (entity_id (fst x)) b = None" unfolding stored_def by simp
  qed
  obtain rows' where r': "try_fold (\<lambda>chunk (count, rs). and_then (insert_query layout t chunk b rs)
        (\<lambda>(k, rs1). Inr (count + k, rs1))) css (n + length es, rows1) = Inr (n + length es + length (concat css), rows')"
      "table_inv t b rows'" "stored t rows' = change b (puts (concat css)) (stored t rows1)"
      "row_id ` set rows' = row_id ` set rows1 \<union> (\<lambda>x. entity_id (fst x)) ` set (concat css)"
    using Cons.IH [OF Cons.prems(1) ok(2) r1(2) order_refl Cons.prems(5) none, of "n + length es"] by blast
  then have "stored t rows' = change b (puts (concat (es # css))) (stored t rows)"
    using r1(3) puts_append [OF dist] by (simp add: change_change)
  moreover have "row_id ` set rows' = row_id ` set rows \<union> (\<lambda>x. entity_id (fst x)) ` set (concat (es # css))"
    unfolding r'(4) r1(4) concat.simps set_append image_Un Un_assoc ..
  moreover have "try_fold (\<lambda>chunk (count, rs). and_then (insert_query layout t chunk b rs)
        (\<lambda>(k, rs1). Inr (count + k, rs1))) (es # css) (n, rows) = Inr (n + length (concat (es # css)), rows')"
    using r1(1) r'(1) by (simp add: add.assoc)
  ultimately show ?case using r'(2) by blast
qed

lemma insert_chunks_spec:
  assumes "table_wf t" and "batch_ok layout t es" and "table_inv t head rows"
    and "head \<le> b" and "b < 2147483647"
    and "\<forall>x \<in> set es. version rows (entity_id (fst x)) b = None"
  shows "\<exists>rows'. insert_chunks layout t es b rows = Inr (length es, rows') \<and>
      table_inv t b rows' \<and> stored t rows' = change b (puts es) (stored t rows) \<and>
      row_id ` set rows' = row_id ` set rows \<union> (\<lambda>x. entity_id (fst x)) ` set es"
proof -
  have "65535 div (length (columns t) + 1) \<noteq> 0"
    using assms(1) by (simp add: table_wf_def div_eq_0_iff)
  then show ?thesis
    using insert_fold_spec [of t layout "chunks (65535 div (length (columns t) + 1)) es" head rows b 0] assms
    by (simp add: insert_chunks_def POSTGRES_MAX_PARAMETERS_def concat_chunks Let_def)
qed

lemma live_stored: "live rows c = {i. stored t rows i c \<noteq> None}"
  by (simp add: live_def stored_None_iff)

lemma clamp_stored:
  assumes "table_inv t head rows" and "head \<le> b" and "b < 2147483647" and "\<not> immutable t"
  shows "\<exists>rows'. clamp_range_query t ids b rows = Inr (card (set ids \<inter> live rows b), rows') \<and> table_inv t b rows' \<and>
    stored t rows' = change b (removes ids) (stored t rows) \<and> row_id ` set rows' = row_id ` set rows \<and>
    (\<forall>i c. version rows' i c = (if i \<in> set ids \<and> b \<le> c then None else version rows i c))"
proof -
  obtain n where n: "clamp_range_query t ids b rows = Inr (n, map (clamp_row ids b) rows)"
    using clamp_range_query_spec(1) [OF assms] by blast
  have "stored t (map (clamp_row ids b) rows) = change b (removes ids) (stored t rows)"
    unfolding stored_def clamp_range_query_spec(3) [OF assms] by (auto simp: change_def removes_def fun_eq_iff)
  moreover have "row_id ` set (map (clamp_row ids b) rows) = row_id ` set rows"
    by (simp add: image_image)
  ultimately show ?thesis
    using n clamp_count [OF assms(1,2,4) n] clamp_range_query_spec(2,3) [OF assms]
    by (intro exI [of _ "map (clamp_row ids b) rows"]) simp
qed

lemma delete_fold_spec:
  assumes "table_inv t head rows" and "head \<le> b" and "b < 2147483647" and "\<not> immutable t" and "distinct (concat css)"
  shows "\<exists>rows'. try_fold (\<lambda>chunk (count, rs). and_then (clamp_range_query t chunk b rs)
        (\<lambda>(k, rs1). Inr (count + k, rs1))) css (n, rows) = Inr (n + card (set (concat css) \<inter> live rows b), rows') \<and>
      table_inv t b rows' \<and> stored t rows' = change b (removes (concat css)) (stored t rows) \<and>
      row_id ` set rows' = row_id ` set rows"
  using assms(1,2,5)
proof (induction css arbitrary: n rows head)
  case Nil
  then show ?case by (auto simp: change_def removes_def intro: table_inv_mono)
next
  case (Cons ids css)
  let ?k = "card (set ids \<inter> live rows b)"
  obtain rows1 where r1: "clamp_range_query t ids b rows = Inr (?k, rows1)"
      "table_inv t b rows1" "stored t rows1 = change b (removes ids) (stored t rows)" "row_id ` set rows1 = row_id ` set rows"
    using clamp_stored [OF Cons.prems(1,2) assms(3,4), of ids] by blast
  obtain rows' where r': "try_fold (\<lambda>chunk (count, rs). and_then (clamp_range_query t chunk b rs)
        (\<lambda>(k, rs1). Inr (count + k, rs1))) css (n + ?k, rows1) = Inr (n + ?k + card (set (concat css) \<inter> live rows1 b), rows')"
      "table_inv t b rows'" "stored t rows' = change b (removes (concat css)) (stored t rows1)"
      "row_id ` set rows' = row_id ` set rows1"
    using Cons.IH [OF r1(2) order_refl, of "n + ?k"] Cons.prems(3) by auto
  have "live rows1 b = live rows b - set ids"
    unfolding live_stored [of _ _ t] r1(3) by (auto simp: change_def removes_def)
  moreover have "set ids \<inter> set (concat css) = {}" using Cons.prems(3) by simp
  ultimately have "card (set (concat (ids # css)) \<inter> live rows b) = ?k + card (set (concat css) \<inter> live rows1 b)"
    by (subst card_Un_disjoint [symmetric]) (auto intro!: arg_cong [where f = card])
  moreover have "removes ids ++ removes (concat css) = removes (concat (ids # css))"
    by (auto simp: removes_def map_add_def fun_eq_iff)
  ultimately show ?case using r' r1 by (simp add: change_change add.assoc)
qed

section \<open>Operations on a layout\<close>

definition layout_inv :: "Layout \<Rightarrow> int \<Rightarrow> db \<Rightarrow> bool" where
  "layout_inv layout head d \<longleftrightarrow>
     hm_wf (tables layout) \<and>
     (\<forall>(ty, t) \<in> set (tables layout). object t = ty \<and> table_wf t \<and> table_inv t head (d ty))"

definition table_history :: "Layout \<Rightarrow> db \<Rightarrow> string \<Rightarrow> history" where
  "table_history layout d ty =
     (case hm_get (tables layout) ty of None \<Rightarrow> (\<lambda>i c. None) | Some t \<Rightarrow> stored t (d ty))"

definition row_ids :: "db \<Rightarrow> string \<Rightarrow> string set" where
  "row_ids d ty = row_id ` set (d ty)"

text \<open>
  What an operation on the table of one type that changes the entities \<open>m\<close> at block \<open>b\<close> does to
  the data: the history of that table changes, and new ids come only from \<open>new\<close>.
\<close>

definition changed_by ::
  "Layout \<Rightarrow> int \<Rightarrow> string \<Rightarrow> (string \<rightharpoonup> (Attribute \<rightharpoonup> Value) option) \<Rightarrow> string set \<Rightarrow> db \<Rightarrow> db \<Rightarrow> bool" where
  "changed_by layout b ty m new d d' \<longleftrightarrow>
     layout_inv layout b d' \<and>
     table_history layout d' = (table_history layout d)(ty := change b m (table_history layout d ty)) \<and>
     (\<forall>ty'. row_ids d' ty' \<subseteq> row_ids d ty' \<union> (if ty' = ty then new else {}))"

lemma layout_inv_table:
  assumes "layout_inv layout head d" and "hm_get (tables layout) ty = Some t"
  shows "object t = ty" and "table_wf t" and "table_inv t head (d ty)"
  using assms by (auto simp: layout_inv_def dest!: map_of_SomeD)

lemma layout_inv_upd:
  assumes "layout_inv layout head d" and "hm_get (tables layout) ty = Some t"
    and "table_inv t b rows" and "head \<le> b"
  shows "layout_inv layout b (d(ty := rows))"
  unfolding layout_inv_def
proof (intro conjI ballI, use assms(1) in \<open>simp add: layout_inv_def\<close>)
  fix x assume x: "x \<in> set (tables layout)"
  obtain ty' s where [simp]: "x = (ty', s)" by (cases x)
  have get: "hm_get (tables layout) ty' = Some s" using assms(1) x by (simp add: layout_inv_def)
  note old = layout_inv_table [OF assms(1) get]
  show "case x of (ty', s) \<Rightarrow> object s = ty' \<and> table_wf s \<and> table_inv s b ((d(ty := rows)) ty')"
    using old table_inv_mono [OF old(3) assms(4)] get assms(2,3) by (cases "ty' = ty") simp_all
qed

lemma table_history_upd:
  "hm_get (tables layout) ty = Some t \<Longrightarrow>
   table_history layout (d(ty := rows)) = (table_history layout d)(ty := stored t rows)"
  by (auto simp: table_history_def fun_eq_iff split: option.splits)

lemma changed_by_rows:
  assumes "layout_inv layout head d" and "hm_get (tables layout) ty = Some t" and "head \<le> b"
    and "table_inv t b rows'" and "stored t rows' = change b m (stored t (d ty))"
    and "row_id ` set rows' \<subseteq> row_ids d ty \<union> new"
  shows "changed_by layout b ty m new d (d(ty := rows'))"
  unfolding changed_by_def
proof (intro conjI allI)
  show "layout_inv layout b (d(ty := rows'))" by (rule layout_inv_upd [OF assms(1,2,4,3)])
  show "table_history layout (d(ty := rows')) = (table_history layout d)(ty := change b m (table_history layout d ty))"
    using assms(2,5) by (simp add: table_history_upd) (simp add: table_history_def)
  show "row_ids (d(ty := rows')) ty' \<subseteq> row_ids d ty' \<union> (if ty' = ty then new else {})" for ty'
    using assms(6) by (auto simp: row_ids_def)
qed

lemma layout_insert_spec:
  assumes inv: "layout_inv layout head d" and t: "hm_get (tables layout) ty = Some t"
    and b: "head \<le> b" "b < 2147483647" and ok: "batch_ok layout t es"
    and new: "\<forall>x \<in> set es. table_history layout d ty (entity_id (fst x)) b = None"
  shows "\<exists>d'. layout_insert layout ty es b d = Inr (length es, d') \<and>
    changed_by layout b ty (puts es) ((\<lambda>x. entity_id (fst x)) ` set es) d d'"
proof -
  note tab = layout_inv_table [OF inv t]
  have "\<forall>x \<in> set es. version (d ty) (entity_id (fst x)) b = None"
    using new t by (simp add: table_history_def stored_None_iff)
  from insert_chunks_spec [OF tab(2) ok tab(3) b this] obtain rows' where r:
      "insert_chunks layout t es b (d ty) = Inr (length es, rows')" "table_inv t b rows'"
      "stored t rows' = change b (puts es) (stored t (d ty))"
      "row_id ` set rows' = row_id ` set (d ty) \<union> (\<lambda>x. entity_id (fst x)) ` set es"
    by blast
  have "layout_insert layout ty es b d = Inr (length es, d(ty := rows'))"
    using t tab(1) r(1) by (simp add: layout_insert_def table_for_entity_def)
  with changed_by_rows [OF inv t b(1) r(2,3)] r(4) show ?thesis by (auto simp: row_ids_def)
qed

lemma layout_update_spec:
  assumes inv: "layout_inv layout head d" and t: "hm_get (tables layout) ty = Some t" "\<not> immutable t"
    and b: "head \<le> b" "b < 2147483647" and ok: "batch_ok layout t es"
  shows "\<exists>d'. layout_update layout ty es b d = Inr (length es, d') \<and>
    changed_by layout b ty (puts es) ((\<lambda>x. entity_id (fst x)) ` set es) d d'"
proof -
  note tab = layout_inv_table [OF inv t(1)]
  let ?ids = "map (\<lambda>(key, _). entity_id key) es"
  obtain n rows where c: "clamp_range_query t ?ids b (d ty) = Inr (n, rows)" "table_inv t b rows"
      "stored t rows = change b (removes ?ids) (stored t (d ty))" "row_id ` set rows = row_id ` set (d ty)"
      "\<forall>i c. version rows i c = (if i \<in> set ?ids \<and> b \<le> c then None else version (d ty) i c)"
    using clamp_stored [OF tab(3) b t(2), of ?ids] by blast
  have "\<forall>x \<in> set es. version rows (entity_id (fst x)) b = None"
    unfolding c(5) [rule_format] by (auto simp: case_prod_unfold)
  from insert_chunks_spec [OF tab(2) ok c(2) order_refl b(2) this] obtain rows' where r:
      "insert_chunks layout t es b rows = Inr (length es, rows')" "table_inv t b rows'"
      "stored t rows' = change b (puts es) (stored t rows)"
      "row_id ` set rows' = row_id ` set rows \<union> (\<lambda>x. entity_id (fst x)) ` set es"
    by blast
  have "removes ?ids ++ puts es = puts es"
  proof
    fix j
    have "set ?ids = set (map (\<lambda>x. entity_id (fst x)) es)" by (simp add: case_prod_unfold)
    then show "(removes ?ids ++ puts es) j = puts es j"
      using puts_Some_iff [of es j] by (cases "puts es j") (simp_all add: removes_def map_add_def)
  qed
  with r(3) c(3) have st: "stored t rows' = change b (puts es) (stored t (d ty))"
    by (simp add: change_change)
  have "layout_update layout ty es b d = Inr (length es, d(ty := rows'))"
    using t tab(1) c(1) r(1) by (simp add: layout_update_def table_for_entity_def)
  with changed_by_rows [OF inv t(1) b(1) r(2) st] r(4) c(4) show ?thesis by (auto simp: row_ids_def)
qed

lemma layout_delete_spec:
  assumes inv: "layout_inv layout head d" and t: "hm_get (tables layout) ty = Some t" "\<not> immutable t"
    and b: "head \<le> b" "b < 2147483647" and "distinct ids"
  shows "\<exists>d'. layout_delete layout ty ids b d =
      Inr (card {i \<in> set ids. table_history layout d ty i b \<noteq> None}, d') \<and>
    changed_by layout b ty (removes ids) {} d d'"
proof -
  note tab = layout_inv_table [OF inv t(1)]
  have "distinct (concat (chunks DELETE_OPERATION_CHUNK_SIZE ids))" unfolding concat_chunks by fact
  from delete_fold_spec [OF tab(3) b t(2) this, of 0]
  obtain rows' where r: "try_fold (\<lambda>chunk (count, rs). and_then (clamp_range_query t chunk b rs)
        (\<lambda>(k, rs1). Inr (count + k, rs1))) (chunks DELETE_OPERATION_CHUNK_SIZE ids) (0, d ty) =
          Inr (0 + card (set ids \<inter> live (d ty) b), rows')"
      "table_inv t b rows'" "stored t rows' = change b (removes ids) (stored t (d ty))" "row_id ` set rows' = row_id ` set (d ty)"
    unfolding concat_chunks by blast
  have "set ids \<inter> live (d ty) b = {i \<in> set ids. table_history layout d ty i b \<noteq> None}"
    using t(1) by (auto simp: live_stored [of _ _ t] table_history_def)
  then have "layout_delete layout ty ids b d = Inr (card {i \<in> set ids. table_history layout d ty i b \<noteq> None}, d(ty := rows'))"
    using t tab(1) r(1) by (simp add: layout_delete_def table_for_entity_def)
  with changed_by_rows [OF inv t(1) b(1) r(2,3)] r(4) show ?thesis by (auto simp: row_ids_def)
qed

section \<open>Reverting a block\<close>

definition unclamp_row :: "int \<Rightarrow> row \<Rightarrow> row" where
  "unclamp_row b r =
     (case row_block r of
        BV_Range (Range (Some l) (Some u)) \<Rightarrow> if l < b \<and> b \<le> u then r\<lparr>row_block := BV_Range (Range (Some l) None)\<rparr> else r
      | _ \<Rightarrow> r)"

lemma unclamp_row_simps [simp]: "row_id (unclamp_row b r) = row_id r" "row_data (unclamp_row b r) = row_data r"
  by (auto simp: unclamp_row_def split: block_value.splits int4range.splits option.splits)

text \<open>A version started before \<open>b\<close>.\<close>

definition keep_row :: "int \<Rightarrow> row \<Rightarrow> bool" where
  "keep_row b r = (case row_block r of BV_Block x \<Rightarrow> x < b
     | BV_Range g \<Rightarrow> (case range_lower g of Some l \<Rightarrow> l < b | None \<Rightarrow> True))"

lemma holds_revert_remove:
  assumes "block_ok (immutable t) head (row_block r)"
  shows "holds (revert_remove_query t b) r \<longleftrightarrow> \<not> keep_row b r"
  using assms
  by (cases "row_block r") (auto simp: revert_remove_query_def br_new_def block_ok_def keep_row_def holds_def split: option.splits)

lemma holds_revert_clamp:
  assumes "row_block r = BV_Range g" and "range_ok head g"
  shows "holds (revert_clamp_cond (b - 1)) r \<longleftrightarrow> (\<exists>l u. g = Range (Some l) (Some u) \<and> l < b \<and> b \<le> u)"
  using assms(2,1) by (auto elim!: range_ok_cases simp: revert_clamp_cond_def holds_def BLOCK_RANGE_CURRENT_def)

lemma revert_clamp_step:
  assumes "block_ok False head (row_block r)"
  shows "(if holds (revert_clamp_cond (b - 1)) r then eval_update (Set_Range E_Lower None) r else Inr r) = Inr (unclamp_row b r)"
proof -
  obtain g where g: "row_block r = BV_Range g" "range_ok head g"
    using assms by (auto simp: block_ok_def split: block_value.splits)
  show ?thesis
    unfolding holds_revert_clamp [OF g]
    using g(2,1) by (auto elim!: range_ok_cases simp: unclamp_row_def int4range_def)
qed

lemma unclamp_row_block:
  assumes "block_ok immut head (row_block r)" and "keep_row b r"
  shows "block_ok immut (b - 1) (row_block (unclamp_row b r))"
    and "row_contains (unclamp_row b r) c \<longleftrightarrow> row_contains r (min c (b - 1))"
  using assms
  by (auto simp: block_ok_def unclamp_row_def keep_row_def row_contains_def elim!: range_ok_cases
      split: block_value.splits if_splits)

lemma not_kept: "block_ok immut head (row_block r) \<Longrightarrow> \<not> keep_row b r \<Longrightarrow> c < b \<Longrightarrow> \<not> row_contains r c"
  by (auto simp: keep_row_def block_ok_def row_contains_def elim!: range_ok_cases split: block_value.splits)

lemma find_map_filter_same:
  assumes "\<And>r. r \<in> set rows \<Longrightarrow> K r \<Longrightarrow> P (f r) \<longleftrightarrow> Q r" and "\<And>r. r \<in> set rows \<Longrightarrow> \<not> K r \<Longrightarrow> \<not> Q r"
    and "\<And>r. row_data (f r) = row_data r"
  shows "map_option row_data (List.find P (map f (filter K rows))) = map_option row_data (List.find Q rows)"
  using assms(1,2) by (induction rows) (auto simp: assms(3))

definition reverted :: "int \<Rightarrow> row list \<Rightarrow> row list" where
  "reverted b rows = map (unclamp_row b) (filter (keep_row b) rows)"

lemma unclamp_row_immutable: "block_ok True head (row_block r) \<Longrightarrow> unclamp_row b r = r"
  by (auto simp: block_ok_def unclamp_row_def split: block_value.splits)

lemma reverted_immutable: "table_inv t head rows \<Longrightarrow> immutable t \<Longrightarrow> reverted b rows = filter (keep_row b) rows"
  unfolding reverted_def by (rule map_idI) (auto simp: table_inv_def intro: unclamp_row_immutable)

lemma reverted_inv:
  assumes inv: "table_inv t head rows"
  shows "table_inv t (b - 1) (reverted b rows)"
    and "version (reverted b rows) i c = version rows i (min c (b - 1))"
proof -
  have ok: "block_ok (immutable t) head (row_block r)" if "r \<in> set rows" for r
    using inv that by (simp add: table_inv_def)
  have con: "constraint_ok (filter (keep_row b) rows)"
    using inv by (simp add: table_inv_def constraint_ok_def sorted_wrt_filter)
  have "constraint_ok (reverted b rows)"
  proof (cases "immutable t")
    case True
    with con show ?thesis by (simp add: reverted_immutable [OF inv])
  next
    case False
    then show ?thesis
      unfolding reverted_def using con ok unclamp_row_block [OF ok]
      by (intro constraint_ok_map [of _ head "b - 1" _ "\<lambda>x. min x (b - 1)"]) auto
  qed
  then show "table_inv t (b - 1) (reverted b rows)"
    using unclamp_row_block(1) [OF ok] by (auto simp: table_inv_def reverted_def)
  have "\<not> row_contains r (min c (b - 1))" if "r \<in> set rows" "\<not> keep_row b r" for r
    using not_kept [OF ok [OF that(1)] that(2)] by simp
  then show "version (reverted b rows) i c = version rows i (min c (b - 1))"
    unfolding version_def reverted_def using unclamp_row_block(2) [OF ok]
    by (intro find_map_filter_same) auto
qed

definition removed_ids :: "int \<Rightarrow> row list \<Rightarrow> string set" where
  "removed_ids b rows = row_id ` {r \<in> set rows. \<not> keep_row b r}"

definition unclamped_ids :: "int \<Rightarrow> row list \<Rightarrow> string set" where
  "unclamped_ids b rows = row_id ` {r \<in> set rows. \<exists>l u. row_block r = BV_Range (Range (Some l) (Some u)) \<and> l < b \<and> b \<le> u}"

lemma length_remdups_filter: "length (filter (\<lambda>x. x \<notin> A) (remdups xs)) = card (set xs - A)"
proof -
  have "set (filter (\<lambda>x. x \<notin> A) (remdups xs)) = set xs - A" by auto
  then show ?thesis by (metis distinct_card distinct_filter distinct_remdups)
qed

lemma revert_table_spec:
  assumes inv: "table_inv t head rows" and b: "is_i32 (b - 1)"
  shows "\<exists>cs. revert_table layout b t rows = Inr (cs,
      i32 (int (card (unclamped_ids b rows - removed_ids b rows)) - int (card (removed_ids b rows - unclamped_ids b rows))),
      reverted b rows) \<and> set cs \<subseteq> {Data_Change (site_deployment layout) (object t)}"
proof -
  have ok: "block_ok (immutable t) head (row_block r)" if "r \<in> set rows" for r
    using inv that by (simp add: table_inv_def)
  have rem: "filter (holds (revert_remove_query t b)) rows = filter (\<lambda>r. \<not> keep_row b r) rows"
    "filter (\<lambda>r. \<not> holds (revert_remove_query t b) r) rows = filter (keep_row b) rows"
    using holds_revert_remove [OF ok] by (auto cong: filter_cong)
  have del: "sql_delete t (revert_remove_query t b) rows =
      Inr (map row_id (filter (\<lambda>r. \<not> keep_row b r) rows), filter (keep_row b) rows)"
    unfolding sql_delete_def rem by (auto simp: check_columns_def revert_remove_query_def br_new_def)
  have removed: "set (map row_id (filter (\<lambda>r. \<not> keep_row b r) rows)) = removed_ids b rows"
    by (simp add: removed_ids_def)
  have "\<exists>us. (if immutable t then Inr ([], filter (keep_row b) rows)
      else revert_clamp_query t (i32 (b - 1)) (filter (keep_row b) rows)) = Inr (us, reverted b rows) \<and>
      set us = unclamped_ids b rows"
  proof (cases "immutable t")
    case True
    have "unclamped_ids b rows = {}"
      using ok True by (force simp: unclamped_ids_def block_ok_def)
    then show ?thesis using True by (simp add: reverted_immutable [OF inv])
  next
    case False
    let ?K = "filter (keep_row b) rows"
    have okF: "block_ok False head (row_block r)" if "r \<in> set rows" for r using ok [OF that] False by simp
    have "try_map (\<lambda>r. if holds (revert_clamp_cond (b - 1)) r then eval_update (Set_Range E_Lower None) r else Inr r) ?K
        = Inr (reverted b rows)"
      unfolding reverted_def using revert_clamp_step [OF okF] by (intro try_map_Inr) auto
    moreover have "constraint_ok (reverted b rows)" using reverted_inv(1) [OF inv] by (simp add: table_inv_def)
    moreover have "set (map row_id (filter (holds (revert_clamp_cond (b - 1))) ?K)) = unclamped_ids b rows"
    proof -
      have "holds (revert_clamp_cond (b - 1)) r \<and> keep_row b r \<longleftrightarrow>
          (\<exists>l u. row_block r = BV_Range (Range (Some l) (Some u)) \<and> l < b \<and> b \<le> u)" if r: "r \<in> set rows" for r
      proof -
        obtain g where g: "row_block r = BV_Range g" "range_ok head g"
          using okF [OF r] by (auto simp: block_ok_def split: block_value.splits)
        show ?thesis unfolding holds_revert_clamp [OF g] using g by (auto simp: keep_row_def)
      qed
      then have "{r \<in> set rows. keep_row b r \<and> holds (revert_clamp_cond (b - 1)) r} =
          {r \<in> set rows. \<exists>l u. row_block r = BV_Range (Range (Some l) (Some u)) \<and> l < b \<and> b \<le> u}"
        by blast
      then show ?thesis by (simp add: unclamped_ids_def conj_commute)
    qed
    ultimately show ?thesis
      using False b
      by (simp add: revert_clamp_query_def sql_update_def check_columns_def db_error_def i32_id)
        (simp add: revert_clamp_cond_def BLOCK_RANGE_CURRENT_def)
  qed
  then obtain us where us: "(if immutable t then Inr ([], filter (keep_row b) rows)
      else revert_clamp_query t (i32 (b - 1)) (filter (keep_row b) rows)) = Inr (us, reverted b rows)"
      "set us = unclamped_ids b rows" by blast
  let ?R = "map row_id (filter (\<lambda>r. \<not> keep_row b r) rows)"
  let ?c = "Data_Change (site_deployment layout) (object t)"
  have "revert_table layout b t rows =
      Inr (map (\<lambda>_. ?c) (filter (\<lambda>i. i \<notin> set us) (remdups ?R)) @ map (\<lambda>_. ?c) (remdups us),
        i32 (int (length (filter (\<lambda>i. i \<notin> set ?R) (remdups us))) - int (length (filter (\<lambda>i. i \<notin> set us) (remdups ?R)))),
        reverted b rows)"
    unfolding revert_table_def del db_error_def using us(1) by (simp add: Let_def)
  moreover have "set (map (\<lambda>_. ?c) (filter (\<lambda>i. i \<notin> set us) (remdups ?R)) @ map (\<lambda>_. ?c) (remdups us)) \<subseteq> {?c}" by auto
  ultimately show ?thesis unfolding length_remdups_filter us(2) removed by blast
qed

definition count_change :: "int \<Rightarrow> row list \<Rightarrow> int" where
  "count_change b rows =
     int (card (unclamped_ids b rows - removed_ids b rows)) - int (card (removed_ids b rows - unclamped_ids b rows))"

lemma i32_add [simp]: "i32 (i32 x + y) = i32 (x + y)" "i32 (x + i32 y) = i32 (x + y)"
  unfolding i32_def by (simp_all add: mod_simps add_ac diff_add_eq)

lemma revert_fold_spec:
  assumes "\<forall>t \<in> set ts. table_inv t head (d (object t))" and "distinct (map object ts)" and "is_i32 (b - 1)"
  shows "\<exists>cs. try_fold (\<lambda>table (changes, count, d1).
            and_then (revert_table layout b table (d1 (object table))) (\<lambda>(cs, n, rows).
              Inr (changes @ cs, i32 (count + n), d1(object table := rows)))) ts (cs0, i32 k, d) =
      Inr (cs, i32 (k + (\<Sum>t \<leftarrow> ts. count_change b (d (object t)))),
        \<lambda>ty. if ty \<in> object ` set ts then reverted b (d ty) else d ty)"
  using assms(1,2)
proof (induction ts arbitrary: cs0 k d)
  case (Cons t ts)
  obtain cs where cs: "revert_table layout b t (d (object t)) =
      Inr (cs, i32 (count_change b (d (object t))), reverted b (d (object t)))"
    using revert_table_spec [OF _ assms(3), of t head "d (object t)" layout] Cons.prems(1)
    unfolding count_change_def by auto
  let ?d = "d(object t := reverted b (d (object t)))"
  have other: "object s \<noteq> object t" if "s \<in> set ts" for s using Cons.prems(2) that by (auto simp: image_iff)
  have sum: "(\<Sum>s \<leftarrow> ts. count_change b (?d (object s))) = (\<Sum>s \<leftarrow> ts. count_change b (d (object s)))"
    by (intro arg_cong [where f = sum_list] map_cong) (auto dest: other)
  have inv: "\<forall>s \<in> set ts. table_inv s head (?d (object s))" using Cons.prems(1) other by auto
  obtain cs' where cs': "try_fold (\<lambda>table (changes, count, d1).
            and_then (revert_table layout b table (d1 (object table))) (\<lambda>(cs, n, rows).
              Inr (changes @ cs, i32 (count + n), d1(object table := rows)))) ts
          (cs0 @ cs, i32 (k + count_change b (d (object t))), ?d) =
      Inr (cs', i32 (k + count_change b (d (object t)) + (\<Sum>s \<leftarrow> ts. count_change b (?d (object s)))),
        \<lambda>ty. if ty \<in> object ` set ts then reverted b (?d ty) else ?d ty)"
    using Cons.IH [OF inv, of "cs0 @ cs" "k + count_change b (d (object t))"] Cons.prems(2)
    by (simp del: fun_upd_apply) blast
  have "(\<lambda>ty. if ty \<in> object ` set ts then reverted b (?d ty) else ?d ty) =
      (\<lambda>ty. if ty \<in> object ` set (t # ts) then reverted b (d ty) else d ty)"
  proof -
    have "object t \<notin> object ` set ts" using Cons.prems(2) by simp
    then show ?thesis by (auto simp: fun_eq_iff)
  qed
  with cs' show ?case
    unfolding sum by (intro exI [of _ cs']) (simp add: cs add.assoc del: fun_upd_apply)
qed (simp add: fun_eq_iff)

lemma layout_revert_block_spec:
  assumes inv: "layout_inv layout head d" and b: "is_i32 (b - 1)"
  shows "\<exists>ev d'. layout_revert_block nt layout b d =
        Inr ((ev, i32 (\<Sum>(ty, t) \<leftarrow> tables layout. count_change b (d ty))), d') \<and>
      layout_inv layout (b - 1) d' \<and>
      (\<forall>ty i c. table_history layout d' ty i c = table_history layout d ty i (min c (b - 1)))"
proof -
  let ?ts = "map snd (tables layout)"
  let ?d = "\<lambda>ty. if ty \<in> object ` set ?ts then reverted b (d ty) else d ty"
  have obj: "object t = ty" if "(ty, t) \<in> set (tables layout)" for ty t
    using inv that by (auto simp: layout_inv_def)
  have keys: "map object ?ts = map fst (tables layout)" using obj by auto
  have 1: "\<forall>t \<in> set ?ts. table_inv t head (d (object t))" using inv by (force simp: layout_inv_def)
  have 2: "distinct (map object ?ts)" using inv unfolding keys layout_inv_def by simp
  have "(\<Sum>t \<leftarrow> ?ts. count_change b (d (object t))) = (\<Sum>(ty, t) \<leftarrow> tables layout. count_change b (d ty))"
    using obj by (auto intro!: arg_cong [where f = sum_list] simp: comp_def)
  with revert_fold_spec [OF 1 2 b, of layout "[]" 0]
  obtain cs where "layout_revert_block nt layout b d =
      Inr ((event_new nt cs, i32 (\<Sum>(ty, t) \<leftarrow> tables layout. count_change b (d ty))), ?d)"
    by (auto simp: layout_revert_block_def i32_def)
  moreover have "layout_inv layout (b - 1) ?d"
    unfolding layout_inv_def
  proof (intro conjI ballI, use inv in \<open>simp add: layout_inv_def\<close>)
    fix x assume x: "x \<in> set (tables layout)"
    obtain ty t where [simp]: "x = (ty, t)" by (cases x)
    have get: "hm_get (tables layout) ty = Some t" using inv x by (simp add: layout_inv_def)
    note tab = layout_inv_table [OF inv get]
    have "ty \<in> object ` set ?ts" using x tab(1) by force
    then show "case x of (ty, t) \<Rightarrow> object t = ty \<and> table_wf t \<and> table_inv t (b - 1) (?d ty)"
      using tab reverted_inv(1) [OF tab(3)] by simp
  qed
  moreover have "table_history layout ?d ty i c = table_history layout d ty i (min c (b - 1))" for ty i c
  proof (cases "hm_get (tables layout) ty")
    case (Some t)
    note tab = layout_inv_table [OF inv Some]
    have "ty \<in> object ` set ?ts" using map_of_SomeD [OF Some] tab(1) by force
    then show ?thesis using Some reverted_inv(2) [OF tab(3)] by (simp add: table_history_def stored_def)
  qed (simp add: table_history_def)
  ultimately show ?thesis by blast
qed

section \<open>Counting entities\<close>

lemma row_at_head:
  assumes "block_ok immut b (row_block r)"
  shows "row_contains r (b - 1) \<longleftrightarrow>
      (\<exists>l u. row_block r = BV_Range (Range (Some l) (Some u)) \<and> l < b \<and> b \<le> u) \<or> keep_row b r \<and> row_contains r b"
    and "\<not> keep_row b r \<Longrightarrow> row_contains r b"
    and "row_block r = BV_Range (Range l (Some u)) \<Longrightarrow> b \<le> u \<Longrightarrow> \<not> row_contains r b"
  using assms
  by (auto simp: block_ok_def keep_row_def row_contains_def elim!: range_ok_cases split: block_value.splits)

lemma count_change_head:
  assumes inv: "table_inv t b rows"
  shows "count_change b rows = int (card (live rows (b - 1))) - int (card (live rows b))"
proof -
  let ?U = "unclamped_ids b rows" and ?R = "removed_ids b rows"
  let ?P = "row_id ` {r \<in> set rows. keep_row b r \<and> row_contains r b}"
  have ok: "block_ok (immutable t) b (row_block r)" if "r \<in> set rows" for r
    using inv that by (simp add: table_inv_def)
  have L0: "live rows (b - 1) = ?U \<union> ?P"
    unfolding live_alt unclamped_ids_def image_Un [symmetric] using row_at_head(1) [OF ok]
    by (intro arg_cong [where f = "(`) row_id"]) blast
  have L1: "live rows b = ?R \<union> ?P"
    unfolding live_alt removed_ids_def image_Un [symmetric] using row_at_head(2) [OF ok]
    by (intro arg_cong [where f = "(`) row_id"]) blast
  have same: "r = s" if "r \<in> set rows" "s \<in> set rows" "row_id r = row_id s" "row_contains r c" "row_contains s c" for r s c
    using one_version [OF inv that] .
  have "?P \<inter> ?U = {}"
  proof (rule equals0I)
    fix i assume "i \<in> ?P \<inter> ?U"
    then obtain r s l u where rs: "r \<in> set rows" "keep_row b r" "row_contains r b" "s \<in> set rows" "row_id r = row_id s"
        "row_block s = BV_Range (Range (Some l) (Some u))" "l < b" "b \<le> u"
      by (auto simp: unclamped_ids_def)
    then have "row_contains r (b - 1)" "row_contains s (b - 1)" using row_at_head(1) [OF ok] by blast+
    then have "r = s" by (rule same [OF rs(1,4,5)])
    with rs row_at_head(3) [OF ok] show False by blast
  qed
  moreover have "?P \<inter> ?R = {}"
    unfolding removed_ids_def using same [where c = b] row_at_head(2) [OF ok] by (auto 4 4)
  ultimately have diff: "live rows (b - 1) - live rows b = ?U - ?R" "live rows b - live rows (b - 1) = ?R - ?U"
    unfolding L0 L1 by blast+
  have fin: "finite (live rows c)" for c by (simp add: live_alt)
  have "int (card A) - int (card B) = int (card (A - B)) - int (card (B - A))" if "finite A" "finite B" for A B :: "string set"
    using card_Diff_subset_Int [of A B] card_Diff_subset_Int [of B A] card_mono [OF that(1), of "A \<inter> B"]
      card_mono [OF that(2), of "B \<inter> A"] that by (simp add: Int_commute)
  then show ?thesis using fin diff by (simp add: count_change_def)
qed

section \<open>Reads after writes\<close>

lemma layout_find_history:
  assumes "layout_inv layout head d" and "hm_get (tables layout) ty = Some t" and "c \<le> 2147483647"
  shows "\<exists>r. layout_find layout d ty i c = Inr r \<and> map_option visible r = table_history layout d ty i c"
proof -
  note tab = layout_inv_table [OF assms(1,2)]
  have "layout_find layout d ty i c = Inr (map_option (deserialize_with_layout t) (version (d ty) i c))"
    using layout_find_version [of layout ty t head d c i] assms(2,3) tab by (simp add: table_for_entity_def)
  then show ?thesis using assms(2) by (simp add: table_history_def stored_def option.map_comp comp_def)
qed

text \<open>What a caller sees of an entity at a block.\<close>

definition reads :: "Layout \<Rightarrow> db \<Rightarrow> string \<Rightarrow> string \<Rightarrow> int \<Rightarrow> (StoreError, (Attribute \<rightharpoonup> Value) option) result" where
  "reads layout d ty i c = and_then (layout_find layout d ty i c) (\<lambda>r. Inr (map_option visible r))"

lemma reads_history:
  assumes "layout_inv layout head d" and "c \<le> 2147483647"
  shows "reads layout d ty i c =
    (if hm_get (tables layout) ty = None then Inl (UnknownTable ty) else Inr (table_history layout d ty i c))"
proof (cases "hm_get (tables layout) ty")
  case (Some t)
  with layout_find_history [OF assms(1) Some assms(2), of i] show ?thesis by (auto simp: reads_def)
qed (simp add: reads_def layout_find_def table_for_entity_def)

definition ex_table :: Table where
  "ex_table =
     \<lparr>object = ''Foo'',
      columns = [\<lparr>field = ''id'', nullable = False, fulltext_fields = None\<rparr>,
                 \<lparr>field = ''name'', nullable = True, fulltext_fields = None\<rparr>],
      is_account_like = False, immutable = False\<rparr>"

definition ex_layout :: Layout where
  "ex_layout = \<lparr>site_deployment = ''Qm'', tables = [(''Foo'', ex_table)], layout_hex = (\<lambda>_. [])\<rparr>"

definition ex_entity :: "string \<Rightarrow> string \<Rightarrow> Entity" where
  "ex_entity i n = [(''id'', V_String i), (''name'', V_String n)]"

definition ex_key :: "string \<Rightarrow> EntityKey" where
  "ex_key i = \<lparr>subgraph_id = ''Qm'', entity_type = ''Foo'', entity_id = i\<rparr>"

definition ex_row :: "string \<Rightarrow> string \<Rightarrow> int4range \<Rightarrow> row" where
  "ex_row i n g = \<lparr>row_id = i, row_data = ex_entity i n, row_block = BV_Range g\<rparr>"

text \<open>Entity \<open>a\<close> was created in block 1, entity \<open>b\<close> was created in block 2 and deleted in block 3.\<close>

definition ex_db :: db where
  "ex_db = (\<lambda>_. [ex_row ''a'' ''x'' (Range (Some 1) None), ex_row ''b'' ''y'' (Range (Some 2) (Some 3))])"

lemma ex_inv: "layout_inv ex_layout 3 ex_db"
  by (simp add: layout_inv_def ex_layout_def ex_table_def table_wf_def ex_db_def ex_row_def table_inv_def
      constraint_ok_def rows_conflict_def block_ok_def)

lemma ex_get: "hm_get (tables ex_layout) ''Foo'' = Some ex_table"
  by (simp add: ex_layout_def)

lemma ex_fits: "entity_fits (layout_hex ex_layout) ex_table i (ex_entity i n)"
  by (simp add: entity_fits_def ex_table_def ex_entity_def entity_get_id_def column_not_null_def table_column_def)

text \<open>
  C25: Updating entities at the current block or a later one always succeeds for well-formed
  entities, whether or not they existed before. From that block on a reader finds exactly the new
  attributes; earlier blocks and all other entities read as before.
\<close>

theorem update_read_back:
  assumes "layout_inv layout head d" and "hm_get (tables layout) ty = Some t" and "\<not> immutable t"
    and "head \<le> b" and "b < 2147483647" and "batch_ok layout t es"
  shows "\<exists>d'. layout_update layout ty es b d = Inr (length es, d') \<and> layout_inv layout b d' \<and>
    (\<forall>ty' i c. c \<le> 2147483647 \<longrightarrow> reads layout d' ty' i c =
       (case batch es i of
          Some e \<Rightarrow> if ty' = ty \<and> b \<le> c then Inr (Some (visible e)) else reads layout d ty' i c
        | None \<Rightarrow> reads layout d ty' i c))"
proof -
  obtain d' where d': "layout_update layout ty es b d = Inr (length es, d')" "layout_inv layout b d'"
      "table_history layout d' = (table_history layout d)(ty := change b (puts es) (table_history layout d ty))"
    using layout_update_spec [OF assms] unfolding changed_by_def by blast
  have "reads layout d' ty' i c = (case batch es i of
      Some e \<Rightarrow> if ty' = ty \<and> b \<le> c then Inr (Some (visible e)) else reads layout d ty' i c
    | None \<Rightarrow> reads layout d ty' i c)" if "c \<le> 2147483647" for ty' i c
    using assms(2)
    by (cases "batch es i") (simp_all add: reads_history [OF d'(2) that] reads_history [OF assms(1) that] d'(3)
        change_def puts_def)
  with d'(1,2) show ?thesis by blast
qed

theorem update_read_back_witness:
  "\<exists>d'. layout_update ex_layout ''Foo'' [(ex_key ''b'', ex_entity ''b'' ''z'')] 4 ex_db = Inr (1, d') \<and>
     reads ex_layout d' ''Foo'' ''b'' 5 = Inr (Some (visible (ex_entity ''b'' ''z''))) \<and>
     reads ex_layout d' ''Foo'' ''a'' 5 = reads ex_layout ex_db ''Foo'' ''a'' 5"
proof -
  have "batch_ok ex_layout ex_table [(ex_key ''b'', ex_entity ''b'' ''z'')]"
    using ex_fits by (simp add: batch_ok_def ex_key_def)
  moreover have "\<not> immutable ex_table" by (simp add: ex_table_def)
  ultimately obtain d' where d': "layout_update ex_layout ''Foo'' [(ex_key ''b'', ex_entity ''b'' ''z'')] 4 ex_db =
        Inr (length [(ex_key ''b'', ex_entity ''b'' ''z'')], d')"
      "\<forall>ty' i c. c \<le> 2147483647 \<longrightarrow> reads ex_layout d' ty' i c =
       (case batch [(ex_key ''b'', ex_entity ''b'' ''z'')] i of
          Some e \<Rightarrow> if ty' = ''Foo'' \<and> 4 \<le> c then Inr (Some (visible e)) else reads ex_layout ex_db ty' i c
        | None \<Rightarrow> reads ex_layout ex_db ty' i c)"
    using update_read_back [OF ex_inv ex_get, of 4 "[(ex_key ''b'', ex_entity ''b'' ''z'')]"] by auto
  then show ?thesis by (intro exI [of _ d']) (simp add: batch_def ex_key_def)
qed

text \<open>
  C11: Reverting block \<open>b\<close> succeeds and restores the past: every entity at every block reads as it
  did at that block or at block \<open>b - 1\<close>, whichever is earlier, for mutable and immutable types.
\<close>

theorem revert_restores_reads:
  assumes "layout_inv layout head d" and "is_i32 (b - 1)"
  shows "\<exists>ev n d'. layout_revert_block nt layout b d = Inr ((ev, n), d') \<and> layout_inv layout (b - 1) d' \<and>
    (\<forall>ty i c. c \<le> 2147483647 \<longrightarrow> reads layout d' ty i c = reads layout d ty i (min c (b - 1)))"
proof -
  obtain ev n d' where d': "layout_revert_block nt layout b d = Inr ((ev, n), d')" "layout_inv layout (b - 1) d'"
      "\<forall>ty i c. table_history layout d' ty i c = table_history layout d ty i (min c (b - 1))"
    using layout_revert_block_spec [OF assms, of nt] by blast
  have "reads layout d' ty i c = reads layout d ty i (min c (b - 1))" if "c \<le> 2147483647" for ty i c
  proof -
    have m: "min c (b - 1) \<le> 2147483647" using that by simp
    show ?thesis unfolding reads_history [OF d'(2) that] reads_history [OF assms(1) m] using d'(3) by simp
  qed
  with d' show ?thesis by blast
qed

theorem revert_restores_reads_witness:
  "\<exists>ev n d'. layout_revert_block 0 ex_layout 3 ex_db = Inr ((ev, n), d') \<and>
    reads ex_layout d' ''Foo'' ''b'' 7 = reads ex_layout ex_db ''Foo'' ''b'' 2"
proof -
  obtain ev n d' where d': "layout_revert_block 0 ex_layout 3 ex_db = Inr ((ev, n), d')"
      "\<forall>ty i c. c \<le> 2147483647 \<longrightarrow> reads ex_layout d' ty i c = reads ex_layout ex_db ty i (min c 2)"
    using revert_restores_reads [OF ex_inv, of 3 0] by (auto simp: is_i32_def)
  then have "reads ex_layout d' ''Foo'' ''b'' 7 = reads ex_layout ex_db ''Foo'' ''b'' 2" by simp
  with d'(1) show ?thesis by blast
qed

text \<open>
  Reverting the latest block returns the change of the number of entities that exist, summed
  over all tables.
\<close>

theorem revert_counts_latest_block:
  assumes "layout_inv layout b d" and "is_i32 (b - 1)"
    and "is_i32 (\<Sum>(ty, t) \<leftarrow> tables layout. int (card (live (d ty) (b - 1))) - int (card (live (d ty) b)))"
  shows "\<exists>ev d'. layout_revert_block nt layout b d =
    Inr ((ev, \<Sum>(ty, t) \<leftarrow> tables layout. int (card (live (d ty) (b - 1))) - int (card (live (d ty) b))), d')"
proof -
  have "count_change b (d ty) = int (card (live (d ty) (b - 1))) - int (card (live (d ty) b))"
    if "(ty, t) \<in> set (tables layout)" for ty t
    using assms(1) that by (intro count_change_head) (auto simp: layout_inv_def)
  then have "(\<Sum>(ty, t) \<leftarrow> tables layout. count_change b (d ty)) =
      (\<Sum>(ty, t) \<leftarrow> tables layout. int (card (live (d ty) (b - 1))) - int (card (live (d ty) b)))"
    by (intro arg_cong [where f = sum_list] map_cong) auto
  then show ?thesis using layout_revert_block_spec [OF assms(1,2), of nt] i32_id [OF assms(3)] by auto
qed

lemma ex_live: "live (ex_db ty) 2 = {''a'', ''b''}" "live (ex_db ty) 3 = {''a''}" "live (ex_db ty) 1 = {''a''}"
  by (simp_all add: live_code ex_db_def ex_row_def row_contains_def)

theorem revert_counts_latest_block_witness:
  "\<exists>ev d'. layout_revert_block 0 ex_layout 3 ex_db = Inr ((ev, 1), d')"
proof -
  have sum: "(\<Sum>(ty, t) \<leftarrow> tables ex_layout. int (card (live (ex_db ty) (3 - 1))) - int (card (live (ex_db ty) 3))) = 1"
    by (simp add: ex_layout_def ex_live)
  show ?thesis using revert_counts_latest_block [OF ex_inv, of 0] unfolding sum by (simp add: is_i32_def)
qed


text \<open>
  C26: Finding the changes of a block fails with a database error for every deployment that has an
  immutable entity type: the query names the column \<open>block_range\<close>, which the tables of immutable
  types do not have.
\<close>

theorem find_changes_fails_for_immutable:
  assumes "\<exists>t \<in> set (change_tables layout). immutable t"
  shows "layout_find_changes layout d block = Inl (Unknown (Diesel (UndefinedColumn ''block_range'')))"
proof -
  have "try_map (\<lambda>t. and_then (db_error (sql_select t (find_changes_query block) (d (object t))))
      (\<lambda>rows. Inr (map (Pair t) rows))) ts = Inl (Unknown (Diesel (UndefinedColumn ''block_range'')))"
    if "\<exists>t \<in> set ts. immutable t" for ts
    using that
  proof (induction ts)
    case (Cons t ts)
    then show ?case
      by (cases "immutable t") (simp_all add: sql_select_def check_columns_def find_changes_query_def
          block_range_lower_bound_clause_def db_error_def)
  qed simp
  from this [OF assms] show ?thesis by (simp add: layout_find_changes_def)
qed

theorem find_changes_fails_for_immutable_witness:
  "layout_find_changes (ex_layout\<lparr>tables := [(''Foo'', ex_table), (''Bar'', ex_table\<lparr>object := ''Bar'', immutable := True\<rparr>)]\<rparr>)
     ex_db 7 = Inl (Unknown (Diesel (UndefinedColumn ''block_range'')))"
  by (rule find_changes_fails_for_immutable) (simp add: change_tables_def ex_layout_def)

end
