(* ===== verification/Deployment.thy ===== *)
theory Deployment
  imports Relational
begin

text \<open>
  The metadata of the deployments in a shard (\<^verbatim>\<open>store/postgres/src/deployment.rs\<close>, the dynamic data sources
  of \<^verbatim>\<open>dynds.rs\<close> and the block pointers and fatal errors of \<^verbatim>\<open>detail.rs\<close>). The tables are lists of
  rows; a statement that fails aborts the transaction, so that each operation returns an error or
  the new metadata. Numeric columns hold the integers the code writes into them.
\<close>

section \<open>Block pointers and identifiers\<close>

record BlockPtr =
  ptr_hash :: "u8 list"
  ptr_number :: int

text \<open>\<open>BlockPtr::from\<close> for a hash and an unsigned number: the conversion to \<open>i32\<close> is unwrapped.\<close>

definition block_ptr_from_u64 :: "u8 list \<Rightarrow> int \<Rightarrow> (StoreError, BlockPtr) result" where
  "block_ptr_from_u64 h n =
     (if 2 ^ 31 \<le> n then Inl (Panic ''called `Result::unwrap()` on an `Err` value'')
      else Inr \<lparr>ptr_hash = h, ptr_number = n\<rparr>)"

text \<open>\<open>H256::from_slice\<close> panics unless it is given 32 bytes.\<close>

definition detail_block :: "string \<Rightarrow> u8 list option \<Rightarrow> int option \<Rightarrow> (StoreError, BlockPtr option) result" where
  "detail_block i hash number =
     (case (hash, number) of
        (Some h, Some n) \<Rightarrow>
          (if length h \<noteq> 32 then Inl (Panic ''H256::from_slice'')
           else if n < 0 \<or> 2 ^ 64 \<le> n then Inl (ConstraintViolation i)
           else and_then (block_ptr_from_u64 h n) (\<lambda>p. Inr (Some p)))
      | (None, None) \<Rightarrow> Inr None
      | _ \<Rightarrow> Inl (ConstraintViolation i))"

definition is_ascii_alphanumeric :: "char \<Rightarrow> bool" where
  "is_ascii_alphanumeric c \<longleftrightarrow>
     (let n = (of_char c :: nat) in 48 \<le> n \<and> n \<le> 57 \<or> 65 \<le> n \<and> n \<le> 90 \<or> 97 \<le> n \<and> n \<le> 122)"

definition deployment_hash_new :: "string \<Rightarrow> (string, string) result" where
  "deployment_hash_new s =
     (if 46 < length s then Inl s
      else if \<not> list_all (\<lambda>c. is_ascii_alphanumeric c \<or> c = CHR ''_'') s then Inl s
      else if s = ''subgraphs'' then Inl s
      else Inr s)"

section \<open>The tables\<close>

datatype SubgraphHealth = Failed | Healthy | Unhealthy

fun is_failed :: "SubgraphHealth \<Rightarrow> bool" where
  "is_failed Failed = True"
| "is_failed Healthy = False"
| "is_failed Unhealthy = False"

record subgraph_deployment =
  d_id :: int
  d_deployment :: string
  d_failed :: bool
  d_health :: SubgraphHealth
  d_synced :: bool
  d_fatal_error :: "string option"
  d_earliest_hash :: "u8 list option"
  d_earliest_number :: "int option"
  d_latest_hash :: "u8 list option"
  d_latest_number :: "int option"
  d_entity_count :: int
  d_graft_base :: "string option"
  d_graft_block_hash :: "u8 list option"
  d_graft_block_number :: "int option"
  d_debug_fork :: "string option"
  d_reorg_count :: int
  d_current_reorg_depth :: int
  d_max_reorg_depth :: int
  d_firehose_cursor :: "string option"

record subgraph_error =
  e_id :: string
  e_subgraph_id :: string
  e_message :: string
  e_block_hash :: "u8 list option"
  e_handler :: "string option"
  e_deterministic :: bool
  e_block_range :: int4range

record contract_data_source =
  c_vid :: int
  c_name :: string
  c_address :: "u8 list"
  c_abi :: string
  c_start_block :: int
  c_block_hash :: "u8 list"
  c_block_number :: int
  c_deployment :: string
  c_context :: "string option"

record metadata =
  deployments :: "subgraph_deployment list"
  errors :: "subgraph_error list"
  data_sources :: "contract_data_source list"
  vid_seq :: int

record Site =
  s_id :: int
  s_deployment :: string

text \<open>\<open>update .. set .. where ..\<close> with the number of rows it changed.\<close>

definition sql_set :: "('r \<Rightarrow> bool) \<Rightarrow> ('r \<Rightarrow> 'r) \<Rightarrow> 'r list \<Rightarrow> nat \<times> 'r list" where
  "sql_set p f rows = (length (filter p rows), map (\<lambda>r. if p r then f r else r) rows)"

definition update_deployments ::
  "(subgraph_deployment \<Rightarrow> bool) \<Rightarrow> (subgraph_deployment \<Rightarrow> subgraph_deployment) \<Rightarrow> metadata \<Rightarrow> metadata" where
  "update_deployments p f m = m\<lparr>deployments := snd (sql_set p f (deployments m))\<rparr>"

definition find_deployment :: "metadata \<Rightarrow> string \<Rightarrow> subgraph_deployment option" where
  "find_deployment m i = List.find (\<lambda>d. d_deployment d = i) (deployments m)"

section \<open>Grafts and forks\<close>

definition graft :: "metadata \<Rightarrow> string \<Rightarrow> bool \<Rightarrow> (StoreError, (string \<times> BlockPtr) option) result" where
  "graft m i pending_only =
     (case List.find (\<lambda>d. d_deployment d = i \<and> (pending_only \<longrightarrow> d_latest_number d = None)) (deployments m) of
        None \<Rightarrow> Inr None
      | Some d \<Rightarrow>
          (case (d_graft_base d, d_graft_block_hash d, d_graft_block_number d) of
             (None, None, None) \<Rightarrow> Inr None
           | (Some subgraph, Some h, Some block) \<Rightarrow>
               (if length h \<noteq> 32 then Inl (Panic ''H256::from_slice'')
                else if block < 0 \<or> 2 ^ 64 \<le> block then Inl (Panic ''block numbers fit into a u64'')
                else
                  (case deployment_hash_new subgraph of
                     Inl s \<Rightarrow> Inl (Unknown (Anyhow s))
                   | Inr base \<Rightarrow> and_then (block_ptr_from_u64 h block) (\<lambda>p. Inr (Some (base, p)))))
           | _ \<Rightarrow> Inl (Panic ''graftBlockHash and graftBlockNumber are either both set or neither is set'')))"

definition graft_pending :: "metadata \<Rightarrow> string \<Rightarrow> (StoreError, (string \<times> BlockPtr) option) result" where
  "graft_pending m i = graft m i True"

definition graft_point :: "metadata \<Rightarrow> string \<Rightarrow> (StoreError, (string \<times> BlockPtr) option) result" where
  "graft_point m i = graft m i False"

definition debug_fork :: "metadata \<Rightarrow> string \<Rightarrow> (StoreError, string option) result" where
  "debug_fork m i =
     (case find_deployment m i of
        None \<Rightarrow> Inl (Unknown (Diesel NotFound))
      | Some d \<Rightarrow>
          (case d_debug_fork d of
             None \<Rightarrow> Inr None
           | Some f \<Rightarrow> (case deployment_hash_new f of Inl s \<Rightarrow> Inl (Unknown (Anyhow s)) | Inr h \<Rightarrow> Inr (Some h))))"

section \<open>Block pointers\<close>

definition block_ptr :: "metadata \<Rightarrow> string \<Rightarrow> (StoreError, BlockPtr option) result" where
  "block_ptr m i =
     (case find_deployment m i of
        None \<Rightarrow> Inl (DeploymentNotFound i)
      | Some d \<Rightarrow> detail_block i (d_latest_hash d) (d_latest_number d))"

definition entity_count_sql :: "int \<Rightarrow> int \<Rightarrow> int \<Rightarrow> int" where
  "entity_count_sql full_count count entity_count =
     (if entity_count = - 1 then full_count else entity_count + count)"

text \<open>What an update of the block pointer reports for the number of rows it changed.\<close>

definition forwarded ::
  "metadata \<Rightarrow> string \<Rightarrow> BlockPtr \<Rightarrow> nat \<Rightarrow> 'a \<Rightarrow> (StoreError, 'a) result" where
  "forwarded m i ptr row_count x =
     (if row_count = 1 then Inr x
      else if row_count = 0 then
        and_then (block_ptr m i) (\<lambda>from.
          (case from of
             Some p \<Rightarrow> if ptr_number p \<ge> ptr_number ptr then Inl (DuplicateBlockProcessing i (ptr_number ptr))
                       else Inl (Unknown (Anyhow ''unknown error forwarding block ptr''))
           | None \<Rightarrow> Inl (Unknown (Anyhow ''unknown error forwarding block ptr''))))
      else Inl (ConstraintViolation ''duplicate deployments in shard''))"

definition is_behind :: "subgraph_deployment \<Rightarrow> int \<Rightarrow> bool" where
  "is_behind d n = (case d_latest_number d of Some k \<Rightarrow> k < n | None \<Rightarrow> True)"

definition transact_block ::
  "Site \<Rightarrow> BlockPtr \<Rightarrow> string option \<Rightarrow> int \<Rightarrow> int \<Rightarrow> metadata \<Rightarrow> (StoreError, metadata) result" where
  "transact_block site ptr firehose_cursor full_count count m =
     (let cursor = (if firehose_cursor = Some '''' then None else firehose_cursor);
          (row_count, ds) = sql_set (\<lambda>d. d_id d = s_id site \<and> is_behind d (ptr_number ptr))
            (\<lambda>d. d\<lparr>d_latest_number := Some (ptr_number ptr), d_latest_hash := Some (ptr_hash ptr),
                   d_firehose_cursor := cursor,
                   d_entity_count := (if count = 0 then d_entity_count d
                                      else entity_count_sql full_count count (d_entity_count d)),
                   d_current_reorg_depth := 0\<rparr>) (deployments m)
      in forwarded m (s_deployment site) ptr row_count (m\<lparr>deployments := ds\<rparr>))"

definition forward_block_ptr :: "string \<Rightarrow> BlockPtr \<Rightarrow> metadata \<Rightarrow> (StoreError, metadata) result" where
  "forward_block_ptr i ptr m =
     (let (row_count, ds) = sql_set (\<lambda>d. d_deployment d = i \<and> is_behind d (ptr_number ptr))
            (\<lambda>d. d\<lparr>d_latest_number := Some (ptr_number ptr), d_latest_hash := Some (ptr_hash ptr),
                   d_current_reorg_depth := 0\<rparr>) (deployments m)
      in forwarded m i ptr row_count (m\<lparr>deployments := ds\<rparr>))"

definition delete_subgraph_firehose_cursor :: "Site \<Rightarrow> metadata \<Rightarrow> metadata" where
  "delete_subgraph_firehose_cursor site =
     update_deployments (\<lambda>d. d_deployment d = s_deployment site) (\<lambda>d. d\<lparr>d_firehose_cursor := None\<rparr>)"

definition get_subgraph_firehose_cursor :: "Site \<Rightarrow> metadata \<Rightarrow> (StoreError, string option) result" where
  "get_subgraph_firehose_cursor site m =
     (case find_deployment m (s_deployment site) of
        None \<Rightarrow> Inl (Unknown (Diesel NotFound)) | Some d \<Rightarrow> Inr (d_firehose_cursor d))"

definition update_firehose_cursor :: "string \<Rightarrow> string \<Rightarrow> metadata \<Rightarrow> metadata" where
  "update_firehose_cursor i cursor =
     update_deployments (\<lambda>d. d_deployment d = i) (\<lambda>d. d\<lparr>d_firehose_cursor := Some cursor\<rparr>)"

text \<open>The counters are \<open>integer\<close> columns, whose addition fails outside of the range.\<close>

definition revert_block_ptr :: "string \<Rightarrow> BlockPtr \<Rightarrow> metadata \<Rightarrow> (StoreError, metadata) result" where
  "revert_block_ptr i ptr m =
     (if \<exists>d \<in> set (deployments m). d_deployment d = i \<and>
          (\<not> is_i32 (d_reorg_count d + 1) \<or> \<not> is_i32 (d_current_reorg_depth d + 1))
      then Inl (Unknown (Diesel NumericValueOutOfRange))
      else Inr (update_deployments (\<lambda>d. d_deployment d = i)
        (\<lambda>d. d\<lparr>d_latest_number := Some (ptr_number ptr), d_latest_hash := Some (ptr_hash ptr),
               d_reorg_count := d_reorg_count d + 1,
               d_current_reorg_depth := d_current_reorg_depth d + 1,
               d_max_reorg_depth := max (d_current_reorg_depth d + 1) (d_max_reorg_depth d)\<rparr>) m))"

definition initialize_block_ptr :: "Site \<Rightarrow> metadata \<Rightarrow> metadata" where
  "initialize_block_ptr site =
     update_deployments (\<lambda>d. d_id d = s_id site \<and> d_latest_hash d = None)
       (\<lambda>d. d\<lparr>d_latest_hash := (case d_latest_hash d of None \<Rightarrow> d_earliest_hash d | h \<Rightarrow> h),
              d_latest_number := (case d_latest_number d of None \<Rightarrow> d_earliest_number d | n \<Rightarrow> n)\<rparr>)"

section \<open>State and status\<close>

definition convert_to_u32 :: "int option \<Rightarrow> string \<Rightarrow> (StoreError, int) result" where
  "convert_to_u32 number fld =
     (case number of
        None \<Rightarrow> Inl (ConstraintViolation fld)
      | Some n \<Rightarrow> if n < 0 then Inl (ConstraintViolation fld) else Inr n)"

definition latest_as_block_number :: "int option \<Rightarrow> string \<Rightarrow> (StoreError, int) result" where
  "latest_as_block_number latest subgraph =
     (case latest of
        None \<Rightarrow> Inl (QueryExecutionError subgraph)
      | Some n \<Rightarrow> if is_i32 n then Inr n else Inl (ConstraintViolation subgraph))"

record DeploymentState =
  ds_id :: string
  ds_reorg_count :: int
  ds_max_reorg_depth :: int
  ds_latest_block_number :: int

definition deployment_state :: "metadata \<Rightarrow> string \<Rightarrow> (StoreError, DeploymentState) result" where
  "deployment_state m i =
     (case find_deployment m i of
        None \<Rightarrow> Inl (QueryExecutionError i)
      | Some d \<Rightarrow>
          and_then (convert_to_u32 (Some (d_reorg_count d)) ''reorg_count'') (\<lambda>rc.
          and_then (convert_to_u32 (Some (d_max_reorg_depth d)) ''max_reorg_depth'') (\<lambda>depth.
          and_then (latest_as_block_number (d_latest_number d) i) (\<lambda>latest.
            Inr \<lparr>ds_id = i, ds_reorg_count = rc, ds_max_reorg_depth = depth, ds_latest_block_number = latest\<rparr>))))"

definition set_synced :: "string \<Rightarrow> metadata \<Rightarrow> metadata" where
  "set_synced i = update_deployments (\<lambda>d. d_deployment d = i \<and> \<not> d_synced d) (\<lambda>d. d\<lparr>d_synced := True\<rparr>)"

definition deployment_exists :: "metadata \<Rightarrow> Site \<Rightarrow> bool" where
  "deployment_exists m site \<longleftrightarrow> 0 < length (filter (\<lambda>d. d_id d = s_id site) (deployments m))"

definition exists_and_synced :: "metadata \<Rightarrow> string \<Rightarrow> bool" where
  "exists_and_synced m i = (case find_deployment m i of None \<Rightarrow> False | Some d \<Rightarrow> d_synced d)"

section \<open>Errors and health\<close>

record SubgraphError =
  err_subgraph_id :: string
  err_message :: string
  err_block_ptr :: "BlockPtr option"
  err_handler :: "string option"
  err_deterministic :: bool

text \<open>
  The id of an error is a stable hash of it, which a library computes; \<open>h\<close> stands for it. The
  table excludes rows with the same id and overlapping ranges.
\<close>

definition insert_subgraph_error ::
  "(SubgraphError \<Rightarrow> string) \<Rightarrow> SubgraphError \<Rightarrow> metadata \<Rightarrow> (StoreError, string \<times> metadata) result" where
  "insert_subgraph_error h err m =
     (let error_id = h err in
      and_then (case err_block_ptr err of
                  None \<Rightarrow> if err_deterministic err then Inl (Panic ''assertion failed'') else Inr BLOCK_UNVERSIONED
                | Some block \<Rightarrow> Inr (ptr_number block)) (\<lambda>block_num.
        (let range = Range (Some block_num) None in
         Inr (error_id,
           if list_ex (\<lambda>e. e_id e = error_id \<and> range_overlaps (e_block_range e) range) (errors m) then m
           else m\<lparr>errors := errors m @
             [\<lparr>e_id = error_id, e_subgraph_id = err_subgraph_id err, e_message = err_message err,
               e_block_hash = map_option ptr_hash (err_block_ptr err), e_handler = err_handler err,
               e_deterministic = err_deterministic err, e_block_range = range\<rparr>]\<rparr>))))"

definition update_deployment_status ::
  "string \<Rightarrow> SubgraphHealth \<Rightarrow> string option \<Rightarrow> metadata \<Rightarrow> metadata" where
  "update_deployment_status i hl fatal_error =
     update_deployments (\<lambda>d. d_deployment d = i)
       (\<lambda>d. d\<lparr>d_failed := is_failed hl, d_health := hl, d_fatal_error := fatal_error\<rparr>)"

definition deployment_fail ::
  "(SubgraphError \<Rightarrow> string) \<Rightarrow> string \<Rightarrow> SubgraphError \<Rightarrow> metadata \<Rightarrow> (StoreError, metadata) result" where
  "deployment_fail h i err m =
     and_then (insert_subgraph_error h err m) (\<lambda>(error_id, m1).
       Inr (update_deployment_status i Failed (Some error_id) m1))"

definition has_non_fatal_errors :: "metadata \<Rightarrow> string \<Rightarrow> int option \<Rightarrow> bool" where
  "has_non_fatal_errors m i block =
     (case (case block of Some b \<Rightarrow> Some b
                        | None \<Rightarrow> (case find_deployment m i of None \<Rightarrow> None | Some d \<Rightarrow> d_latest_number d)) of
        None \<Rightarrow> False
      | Some b \<Rightarrow>
          list_ex (\<lambda>e. e_subgraph_id e = i \<and> e_deterministic e \<and> range_contains (e_block_range e) b) (errors m))"

definition check_health :: "string \<Rightarrow> int \<Rightarrow> metadata \<Rightarrow> metadata" where
  "check_health i block m =
     (let (new, old) = (if has_non_fatal_errors m i (Some block) then (Unhealthy, Healthy) else (Healthy, Unhealthy))
      in update_deployments (\<lambda>d. d_deployment d = i \<and> d_health d = old) (\<lambda>d. d\<lparr>d_health := new\<rparr>) m)"

definition insert_subgraph_errors ::
  "(SubgraphError \<Rightarrow> string) \<Rightarrow> string \<Rightarrow> SubgraphError list \<Rightarrow> int \<Rightarrow> metadata \<Rightarrow> (StoreError, metadata) result" where
  "insert_subgraph_errors h i deterministic_errors block m =
     and_then (try_fold (\<lambda>err m1. and_then (insert_subgraph_error h err m1) (\<lambda>(_, m2). Inr m2)) deterministic_errors m)
       (\<lambda>m1. Inr (check_health i block m1))"

definition deployment_health :: "metadata \<Rightarrow> string \<Rightarrow> (StoreError, SubgraphHealth) result" where
  "deployment_health m i =
     (case find_deployment m i of None \<Rightarrow> Inl (Unknown (Diesel NotFound)) | Some d \<Rightarrow> Inr (d_health d))"

definition revert_subgraph_errors :: "string \<Rightarrow> int \<Rightarrow> metadata \<Rightarrow> metadata" where
  "revert_subgraph_errors i reverted_block m =
     (let m1 = m\<lparr>errors := filter (\<lambda>e. \<not> (e_subgraph_id e = i \<and>
                  (case range_lower (e_block_range e) of Some l \<Rightarrow> reverted_block \<le> l | None \<Rightarrow> False))) (errors m)\<rparr>
      in check_health i (i32 (reverted_block - 1)) m1)"

definition delete_error :: "string \<Rightarrow> metadata \<Rightarrow> metadata" where
  "delete_error error_id m = m\<lparr>errors := filter (\<lambda>e. e_id e \<noteq> error_id) (errors m)\<rparr>"

definition copy_errors ::
  "(string \<Rightarrow> subgraph_error \<Rightarrow> string) \<Rightarrow> Site \<Rightarrow> Site \<Rightarrow> BlockPtr \<Rightarrow> metadata \<Rightarrow> (StoreError, nat \<times> metadata) result" where
  "copy_errors md5 src dst target_block m =
     (let count = length (filter (\<lambda>e. e_subgraph_id e = s_deployment dst) (errors m)) in
      if 0 < count then Inr (count, m)
      else
        (let es = map (\<lambda>e. e\<lparr>e_id := md5 (s_deployment dst) e, e_subgraph_id := s_deployment dst\<rparr>)
                    (filter (\<lambda>e. e_subgraph_id e = s_deployment src \<and>
                       (case range_lower (e_block_range e) of Some l \<Rightarrow> l \<le> ptr_number target_block | None \<Rightarrow> False)) (errors m));
             es1 = errors m @ es
         in if sorted_wrt (\<lambda>a b. \<not> (e_id a = e_id b \<and> range_overlaps (e_block_range a) (e_block_range b))) es1
            then Inr (length es, m\<lparr>errors := es1\<rparr>)
            else Inl (Unknown (Diesel (ExclusionViolation ''subgraph_error'')))))"

definition fatal_error :: "metadata \<Rightarrow> string \<Rightarrow> subgraph_error option" where
  "fatal_error m i =
     (case concat (map (\<lambda>d. filter (\<lambda>e. Some (e_id e) = d_fatal_error d) (errors m))
             (filter (\<lambda>d. d_deployment d = i) (deployments m))) of
        [] \<Rightarrow> None | e # _ \<Rightarrow> Some e)"

definition drop_metadata :: "Site \<Rightarrow> metadata \<Rightarrow> metadata" where
  "drop_metadata site m =
     (let dropped = map d_deployment (filter (\<lambda>d. d_id d = s_id site) (deployments m))
      in m\<lparr>deployments := filter (\<lambda>d. d_id d \<noteq> s_id site) (deployments m),
           errors := filter (\<lambda>e. e_subgraph_id e \<notin> set dropped) (errors m)\<rparr>)"

section \<open>Entity counts\<close>

definition update_entity_count :: "Site \<Rightarrow> int \<Rightarrow> int \<Rightarrow> metadata \<Rightarrow> metadata" where
  "update_entity_count site full_count count m =
     (if count = 0 then m
      else update_deployments (\<lambda>d. d_id d = s_id site)
             (\<lambda>d. d\<lparr>d_entity_count := entity_count_sql full_count count (d_entity_count d)\<rparr>) m)"

definition set_entity_count :: "Site \<Rightarrow> int \<Rightarrow> metadata \<Rightarrow> metadata" where
  "set_entity_count site full_count =
     update_deployments (\<lambda>d. d_id d = s_id site) (\<lambda>d. d\<lparr>d_entity_count := full_count\<rparr>)"

section \<open>Dynamic data sources\<close>

record Source =
  src_address :: "u8 list option"
  src_abi :: string
  src_start_block :: int

record StoredDynamicDataSource =
  sds_name :: string
  sds_source :: Source
  sds_context :: "string option"
  sds_creation_block :: "int option"

definition to_source :: "string \<Rightarrow> u8 list \<Rightarrow> string \<Rightarrow> int \<Rightarrow> (StoreError, Source) result" where
  "to_source i address abi start_block =
     (if length address \<noteq> 20 then Inl (ConstraintViolation i)
      else Inr \<lparr>src_address = Some address, src_abi = abi, src_start_block = start_block\<rparr>)"

text \<open>Rust orders \<open>None\<close> before every \<open>Some\<close>.\<close>

fun opt_greater :: "int option \<Rightarrow> int option \<Rightarrow> bool" where
  "opt_greater (Some a) (Some b) = (a > b)"
| "opt_greater (Some a) None = True"
| "opt_greater None b = False"

definition dds_load_step ::
  "string \<Rightarrow> contract_data_source \<Rightarrow> StoredDynamicDataSource list \<Rightarrow> (StoreError, StoredDynamicDataSource list) result" where
  "dds_load_step i c acc =
     and_then (to_source i (c_address c) (c_abi c) (c_start_block c)) (\<lambda>source.
       (let creation_block = (if is_i32 (c_block_number c) then Some (c_block_number c) else None);
            prev = (if acc = [] then None else sds_creation_block (last acc))
        in if opt_greater prev creation_block
           then Inl (ConstraintViolation ''data sources not ordered by creation block'')
           else Inr (acc @ [\<lparr>sds_name = c_name c, sds_source = source, sds_context = c_context c,
                            sds_creation_block = creation_block\<rparr>])))"

definition dds_load :: "metadata \<Rightarrow> string \<Rightarrow> int \<Rightarrow> (StoreError, StoredDynamicDataSource list) result" where
  "dds_load m i block =
     try_fold (dds_load_step i)
       (sort_key c_block_number (sort_key c_vid
         (filter (\<lambda>c. c_deployment c = i \<and> c_block_number c \<le> block) (data_sources m)))) []"

definition dds_row ::
  "string \<Rightarrow> BlockPtr \<Rightarrow> int \<Rightarrow> StoredDynamicDataSource \<Rightarrow> (StoreError, contract_data_source) result" where
  "dds_row i ptr v ds =
     (case src_address (sds_source ds) of
        None \<Rightarrow> Inl (ConstraintViolation (sds_name ds))
      | Some address \<Rightarrow>
          Inr \<lparr>c_vid = v, c_name = sds_name ds, c_address = address, c_abi = src_abi (sds_source ds),
               c_start_block = src_start_block (sds_source ds), c_block_hash = ptr_hash ptr,
               c_block_number = ptr_number ptr, c_deployment = i, c_context = sds_context ds\<rparr>)"

definition dds_insert ::
  "string \<Rightarrow> StoredDynamicDataSource list \<Rightarrow> BlockPtr \<Rightarrow> metadata \<Rightarrow> (StoreError, nat \<times> metadata) result" where
  "dds_insert i dss ptr m =
     (if dss = [] then Inr (0, m)
      else
        and_then (try_map (\<lambda>(k, ds). dds_row i ptr (vid_seq m + int k) ds) (enumerate 0 dss)) (\<lambda>rows.
          Inr (length rows, m\<lparr>data_sources := data_sources m @ rows, vid_seq := vid_seq m + int (length rows)\<rparr>)))"

definition dds_copy :: "Site \<Rightarrow> Site \<Rightarrow> BlockPtr \<Rightarrow> metadata \<Rightarrow> nat \<times> metadata" where
  "dds_copy src dst target_block m =
     (let count = length (filter (\<lambda>c. c_deployment c = s_deployment dst) (data_sources m)) in
      if 0 < count then (count, m)
      else
        (let cs = filter (\<lambda>c. c_deployment c = s_deployment src \<and> c_block_number c \<le> ptr_number target_block) (data_sources m);
             rows = map (\<lambda>(k, c). c\<lparr>c_vid := vid_seq m + int k, c_deployment := s_deployment dst\<rparr>) (enumerate 0 cs)
         in (length rows, m\<lparr>data_sources := data_sources m @ rows, vid_seq := vid_seq m + int (length rows)\<rparr>)))"

definition dds_revert :: "string \<Rightarrow> int \<Rightarrow> metadata \<Rightarrow> metadata" where
  "dds_revert i block m =
     m\<lparr>data_sources := filter (\<lambda>c. \<not> (c_deployment c = i \<and> block \<le> c_block_number c)) (data_sources m)\<rparr>"

definition dds_drop :: "string \<Rightarrow> metadata \<Rightarrow> nat \<times> metadata" where
  "dds_drop i m =
     (length (filter (\<lambda>c. c_deployment c = i) (data_sources m)),
      m\<lparr>data_sources := filter (\<lambda>c. c_deployment c \<noteq> i) (data_sources m)\<rparr>)"

definition revert_metadata :: "string \<Rightarrow> int \<Rightarrow> metadata \<Rightarrow> metadata" where
  "revert_metadata i block m = revert_subgraph_errors i block (dds_revert i block m)"

section \<open>The row of a deployment\<close>

definition site_row :: "metadata \<Rightarrow> Site \<Rightarrow> subgraph_deployment \<Rightarrow> bool" where
  "site_row m site d \<longleftrightarrow>
     d \<in> set (deployments m) \<and> d_id d = s_id site \<and> d_deployment d = s_deployment site \<and>
     distinct (map d_id (deployments m)) \<and> distinct (map d_deployment (deployments m))"

definition put_row :: "Site \<Rightarrow> subgraph_deployment \<Rightarrow> metadata \<Rightarrow> metadata" where
  "put_row site d m = m\<lparr>deployments := map (\<lambda>x. if d_id x = s_id site then d else x) (deployments m)\<rparr>"

lemma site_row_eq:
  assumes "site_row m site d" and "x \<in> set (deployments m)"
  shows "d_id x = s_id site \<longleftrightarrow> x = d" and "d_deployment x = s_deployment site \<longleftrightarrow> x = d"
  using assms unfolding site_row_def distinct_map by (metis inj_onD)+

lemma find_unique:
  assumes "x \<in> set xs" and "P x" and "\<forall>y \<in> set xs. P y \<longrightarrow> y = x"
  shows "List.find P xs = Some x"
proof (cases "List.find P xs")
  case None
  then show ?thesis using assms(1,2) unfolding find_None_iff by blast
next
  case (Some y)
  then show ?thesis using find_SomeD [OF Some] assms(3) by blast
qed

lemma find_site_row:
  assumes "site_row m site d"
  shows "find_deployment m (s_deployment site) = Some d"
proof -
  have "d \<in> set (deployments m)" "d_deployment d = s_deployment site"
    using assms by (simp_all add: site_row_def)
  moreover have "\<forall>y \<in> set (deployments m). d_deployment y = s_deployment site \<longrightarrow> y = d"
    using site_row_eq(2) [OF assms] by blast
  ultimately show ?thesis unfolding find_deployment_def by (rule find_unique)
qed

lemma put_row_simps [simp]:
  "errors (put_row site d m) = errors m" "data_sources (put_row site d m) = data_sources m"
  "vid_seq (put_row site d m) = vid_seq m"
  by (simp_all add: put_row_def)

lemma site_row_put:
  assumes "site_row m site d" and "d_id d' = s_id site" and "d_deployment d' = s_deployment site"
  shows "site_row (put_row site d' m) site d'"
proof -
  have "map d_id (deployments (put_row site d' m)) = map d_id (deployments m)"
    "map d_deployment (deployments (put_row site d' m)) = map d_deployment (deployments m)"
    using assms site_row_eq(1) [OF assms(1)] by (auto simp: put_row_def site_row_def)
  moreover have "d' \<in> set (deployments (put_row site d' m))"
    using assms by (force simp: put_row_def site_row_def)
  ultimately show ?thesis using assms unfolding site_row_def by presburger
qed

lemma site_row_other: "site_row m site d \<Longrightarrow> deployments m' = deployments m \<Longrightarrow> site_row m' site d"
  by (simp add: site_row_def)

lemma put_row_put: "d_id d1 = s_id site \<Longrightarrow> put_row site d2 (put_row site d1 m) = put_row site d2 m"
  by (simp add: put_row_def)

lemma sql_set_row:
  assumes "site_row m site d" and "\<forall>x \<in> set (deployments m). p x \<longrightarrow> x = d" and "p d"
  shows "sql_set p f (deployments m) = (1, deployments (put_row site (f d) m))"
proof -
  have iff: "p x \<longleftrightarrow> d_id x = s_id site" if "x \<in> set (deployments m)" for x
    using assms that site_row_eq(1) [OF assms(1) that] by blast
  have "filter p (deployments m) = filter (\<lambda>x. x = d) (deployments m)"
    using assms(2,3) by (intro filter_cong) auto
  moreover have "length (filter (\<lambda>x. x = d) xs) = 1" if "d \<in> set xs" "distinct xs" for xs
    using that by (induction xs) (auto simp: filter_empty_conv)
  moreover have "d \<in> set (deployments m)" "distinct (deployments m)"
    using assms(1) by (auto simp: site_row_def distinct_map)
  moreover have "map (\<lambda>r. if p r then f r else r) (deployments m) = deployments (put_row site (f d) m)"
    using iff assms(2) by (auto simp: put_row_def)
  ultimately show ?thesis by (simp add: sql_set_def)
qed

lemma update_site_row:
  assumes "site_row m site d" and "\<forall>x \<in> set (deployments m). p x \<longrightarrow> x = d"
  shows "update_deployments p f m = (if p d then put_row site (f d) m else m)"
proof (cases "p d")
  case True
  then show ?thesis using sql_set_row [where p = p and f = f, OF assms True] by (simp add: update_deployments_def put_row_def)
next
  case False
  then have "map (\<lambda>r. if p r then f r else r) (deployments m) = deployments m"
    using assms(2) by (intro map_idI) auto
  with False show ?thesis by (simp add: update_deployments_def sql_set_def)
qed

section \<open>Operations on the row of a deployment\<close>

lemma transact_block_row:
  assumes "site_row m site d" and "is_behind d (ptr_number ptr)"
  shows "transact_block site ptr cursor full count m = Inr (put_row site
    (d\<lparr>d_latest_number := Some (ptr_number ptr), d_latest_hash := Some (ptr_hash ptr),
       d_firehose_cursor := (if cursor = Some '''' then None else cursor),
       d_entity_count := (if count = 0 then d_entity_count d else entity_count_sql full count (d_entity_count d)),
       d_current_reorg_depth := 0\<rparr>) m)"
proof -
  have "d_id d = s_id site \<and> is_behind d (ptr_number ptr)" using assms by (simp add: site_row_def)
  with site_row_eq(1) [OF assms(1)]
  show ?thesis
    unfolding transact_block_def
    by (subst sql_set_row [OF assms(1)]) (auto simp: forwarded_def put_row_def)
qed

lemma transact_block_duplicate:
  assumes "site_row m site d" and "\<not> is_behind d (ptr_number ptr)" and "block_ptr m (s_deployment site) = Inr (Some p)"
    and "ptr_number p = the (d_latest_number d)"
  shows "transact_block site ptr cursor full count m = Inl (DuplicateBlockProcessing (s_deployment site) (ptr_number ptr))"
proof -
  have "filter (\<lambda>x. d_id x = s_id site \<and> is_behind x (ptr_number ptr)) (deployments m) = []"
    using assms(2) site_row_eq(1) [OF assms(1)] by (auto simp: filter_empty_conv)
  moreover have "ptr_number ptr \<le> ptr_number p" using assms(2,4) by (auto simp: is_behind_def split: option.splits)
  ultimately show ?thesis using assms(3) by (simp add: transact_block_def sql_set_def forwarded_def)
qed

lemma revert_block_ptr_row:
  assumes "site_row m site d" and "is_i32 (d_reorg_count d + 1)" and "is_i32 (d_current_reorg_depth d + 1)"
  shows "revert_block_ptr (s_deployment site) ptr m = Inr (put_row site
    (d\<lparr>d_latest_number := Some (ptr_number ptr), d_latest_hash := Some (ptr_hash ptr),
       d_reorg_count := d_reorg_count d + 1, d_current_reorg_depth := d_current_reorg_depth d + 1,
       d_max_reorg_depth := max (d_current_reorg_depth d + 1) (d_max_reorg_depth d)\<rparr>) m)"
proof -
  have "d_deployment d = s_deployment site" using assms(1) by (simp add: site_row_def)
  with site_row_eq(2) [OF assms(1)] assms(2,3)
  show ?thesis unfolding revert_block_ptr_def by (subst update_site_row [OF assms(1)]) auto
qed

lemma update_deployment_status_row:
  assumes "site_row m site d"
  shows "update_deployment_status (s_deployment site) hl fe m =
    put_row site (d\<lparr>d_failed := is_failed hl, d_health := hl, d_fatal_error := fe\<rparr>) m"
  using site_row_eq [OF assms] assms unfolding update_deployment_status_def
  by (subst update_site_row [OF assms]) (auto simp: site_row_def)

lemma update_firehose_cursor_row:
  assumes "site_row m site d"
  shows "update_firehose_cursor (s_deployment site) c m = put_row site (d\<lparr>d_firehose_cursor := Some c\<rparr>) m"
  using site_row_eq [OF assms] assms unfolding update_firehose_cursor_def
  by (subst update_site_row [OF assms]) (auto simp: site_row_def)

lemma update_entity_count_row:
  assumes "site_row m site d"
  shows "update_entity_count site full count m =
    (if count = 0 then m else put_row site (d\<lparr>d_entity_count := entity_count_sql full count (d_entity_count d)\<rparr>) m)"
  using site_row_eq [OF assms] assms unfolding update_entity_count_def
  by (subst update_site_row [OF assms]) (auto simp: site_row_def)

definition health_after :: "bool \<Rightarrow> SubgraphHealth \<Rightarrow> SubgraphHealth" where
  "health_after has_errors hl = (if hl = Failed then Failed else if has_errors then Unhealthy else Healthy)"

lemma row_health_same: "d_health d = hl \<Longrightarrow> d\<lparr>d_health := hl\<rparr> = d"
  by (cases d) simp

lemma put_row_same:
  assumes "site_row m site d"
  shows "put_row site d m = m"
proof -
  have "map (\<lambda>x. if d_id x = s_id site then d else x) (deployments m) = deployments m"
    using site_row_eq(1) [OF assms] by (intro map_idI) auto
  then show ?thesis by (simp add: put_row_def)
qed

lemma check_health_row:
  assumes "site_row m site d"
  shows "check_health (s_deployment site) b m =
    put_row site (d\<lparr>d_health := health_after (has_non_fatal_errors m (s_deployment site) (Some b)) (d_health d)\<rparr>) m"
proof -
  let ?has = "has_non_fatal_errors m (s_deployment site) (Some b)"
  have upd: "update_deployments (\<lambda>x. d_deployment x = s_deployment site \<and> d_health x = old) (\<lambda>x. x\<lparr>d_health := new\<rparr>) m =
      (if d_health d = old then put_row site (d\<lparr>d_health := new\<rparr>) m else m)" for old new
    using site_row_eq(2) [OF assms] assms by (subst update_site_row [OF assms]) (auto simp: site_row_def)
  have "check_health (s_deployment site) b m =
      (if d_health d = (if ?has then Healthy else Unhealthy)
       then put_row site (d\<lparr>d_health := (if ?has then Unhealthy else Healthy)\<rparr>) m else m)"
    by (simp add: check_health_def upd)
  also have "\<dots> = put_row site (d\<lparr>d_health := health_after ?has (d_health d)\<rparr>) m"
    using put_row_same [OF assms] by (cases "d_health d") (auto simp: health_after_def row_health_same)
  finally show ?thesis .
qed

section \<open>Errors of a block\<close>

lemma insert_errors_spec:
  assumes "\<forall>err \<in> set errs. err_block_ptr err = Some p \<and> err_subgraph_id err = i"
  shows "\<exists>new. try_fold (\<lambda>err m1. and_then (insert_subgraph_error h err m1) (\<lambda>(_, m2). Inr m2)) errs m =
      Inr (m\<lparr>errors := errors m @ new\<rparr>) \<and>
    (\<forall>e \<in> set new. e_subgraph_id e = i \<and> e_block_range e = Range (Some (ptr_number p)) None)"
  using assms
proof (induction errs arbitrary: m)
  case (Cons err errs)
  let ?r = "Range (Some (ptr_number p)) None"
  let ?e = "\<lparr>e_id = h err, e_subgraph_id = i, e_message = err_message err, e_block_hash = Some (ptr_hash p),
    e_handler = err_handler err, e_deterministic = err_deterministic err, e_block_range = ?r\<rparr>"
  let ?new = "if list_ex (\<lambda>e. e_id e = h err \<and> range_overlaps (e_block_range e) ?r) (errors m) then [] else [?e]"
  have step: "insert_subgraph_error h err m = Inr (h err, m\<lparr>errors := errors m @ ?new\<rparr>)"
    using Cons.prems by (simp add: insert_subgraph_error_def Let_def)
  obtain new where new: "try_fold (\<lambda>err m1. and_then (insert_subgraph_error h err m1) (\<lambda>(_, m2). Inr m2)) errs
        (m\<lparr>errors := errors m @ ?new\<rparr>) = Inr (m\<lparr>errors := (errors m @ ?new) @ new\<rparr>)"
      "\<forall>e \<in> set new. e_subgraph_id e = i \<and> e_block_range e = ?r"
    using Cons.IH [of "m\<lparr>errors := errors m @ ?new\<rparr>"] Cons.prems by auto
  have "\<forall>e \<in> set (?new @ new). e_subgraph_id e = i \<and> e_block_range e = ?r" using new(2) by simp
  moreover have "try_fold (\<lambda>err m1. and_then (insert_subgraph_error h err m1) (\<lambda>(_, m2). Inr m2)) (err # errs) m =
      Inr (m\<lparr>errors := errors m @ (?new @ new)\<rparr>)"
    unfolding try_fold.simps step and_then_simps prod.case new(1) append_assoc ..
  ultimately show ?case by blast
qed (intro exI [of _ "[]"], simp)

lemma has_non_fatal_errors_Some:
  "has_non_fatal_errors m i (Some b) \<longleftrightarrow>
     (\<exists>e \<in> set (errors m). e_subgraph_id e = i \<and> e_deterministic e \<and> range_contains (e_block_range e) b)"
  by (simp add: has_non_fatal_errors_def list_ex_iff)

text \<open>Errors never end, and the deterministic errors of a deployment start at or before its head.\<close>

definition errors_ok :: "metadata \<Rightarrow> string \<Rightarrow> int \<Rightarrow> bool" where
  "errors_ok m i head \<longleftrightarrow>
     (\<forall>e \<in> set (errors m). e_subgraph_id e = i \<longrightarrow>
        (\<exists>l. e_block_range e = Range (Some l) None \<and> (e_deterministic e \<longrightarrow> l \<le> head)))"

lemma has_non_fatal_errors_stable:
  assumes "errors_ok m i head" and "head \<le> b"
  shows "has_non_fatal_errors m i (Some b) \<longleftrightarrow> has_non_fatal_errors m i (Some head)"
proof -
  have "range_contains (e_block_range e) b \<longleftrightarrow> range_contains (e_block_range e) head"
    if "e \<in> set (errors m)" "e_subgraph_id e = i" "e_deterministic e" for e
    using assms that by (force simp: errors_ok_def)
  then show ?thesis unfolding has_non_fatal_errors_Some by blast
qed

lemma has_non_fatal_errors_cong:
  "errors m' = errors m \<Longrightarrow> has_non_fatal_errors m' i (Some b) = has_non_fatal_errors m i (Some b)"
  by (simp add: has_non_fatal_errors_Some)

section \<open>Data sources of a block\<close>

definition data_sources_ok :: "metadata \<Rightarrow> string \<Rightarrow> int \<Rightarrow> bool" where
  "data_sources_ok m i head \<longleftrightarrow>
     sorted (map c_vid (data_sources m)) \<and> (\<forall>c \<in> set (data_sources m). c_vid c < vid_seq m) \<and>
     sorted (map c_block_number (filter (\<lambda>c. c_deployment c = i) (data_sources m))) \<and>
     (\<forall>c \<in> set (data_sources m). c_deployment c = i \<longrightarrow>
        c_block_number c \<le> head \<and> is_i32 (c_block_number c) \<and> length (c_address c) = 20)"

definition stored_data_source :: "contract_data_source \<Rightarrow> StoredDynamicDataSource" where
  "stored_data_source c =
     \<lparr>sds_name = c_name c,
      sds_source = \<lparr>src_address = Some (c_address c), src_abi = c_abi c, src_start_block = c_start_block c\<rparr>,
      sds_context = c_context c, sds_creation_block = Some (c_block_number c)\<rparr>"

lemma load_fold:
  assumes "\<forall>c \<in> set cs. length (c_address c) = 20 \<and> is_i32 (c_block_number c)" and "sorted (map c_block_number cs)"
    and "acc \<noteq> [] \<longrightarrow> (\<exists>n. sds_creation_block (last acc) = Some n \<and> (\<forall>c \<in> set cs. n \<le> c_block_number c))"
  shows "try_fold (dds_load_step i) cs acc = Inr (acc @ map stored_data_source cs)"
  using assms
proof (induction cs arbitrary: acc)
  case (Cons c cs)
  have "\<not> opt_greater (if acc = [] then None else sds_creation_block (last acc)) (Some (c_block_number c))"
    using Cons.prems(3) by auto
  then have step: "dds_load_step i c acc = Inr (acc @ [stored_data_source c])"
    using Cons.prems(1) by (simp add: dds_load_step_def to_source_def stored_data_source_def)
  have "try_fold (dds_load_step i) cs (acc @ [stored_data_source c]) =
      Inr ((acc @ [stored_data_source c]) @ map stored_data_source cs)"
    using Cons.prems by (intro Cons.IH) (auto simp: stored_data_source_def)
  then show ?case by (simp add: step)
qed simp

lemma sort_key_sorted: "sorted (map f xs) \<Longrightarrow> sort_key f xs = xs"
  by (induction xs) (auto simp: insort_is_Cons)

lemma sorted_map_filter_key: "sorted (map f xs) \<Longrightarrow> sorted (map f (filter P xs))"
  by (induction xs) auto

lemma dds_load_ok:
  assumes "data_sources_ok m i head" and "head \<le> b"
  shows "dds_load m i b = Inr (map stored_data_source (filter (\<lambda>c. c_deployment c = i) (data_sources m)))"
proof -
  let ?cs = "filter (\<lambda>c. c_deployment c = i) (data_sources m)"
  have all: "\<forall>c \<in> set ?cs. c_block_number c \<le> head \<and> is_i32 (c_block_number c) \<and> length (c_address c) = 20"
    and nums: "sorted (map c_block_number ?cs)" and vids: "sorted (map c_vid ?cs)"
    using assms(1) by (auto simp: data_sources_ok_def intro: sorted_map_filter_key)
  have "filter (\<lambda>c. c_deployment c = i \<and> c_block_number c \<le> b) (data_sources m) = ?cs"
    using all assms(2) by (intro filter_cong) auto
  then have "dds_load m i b = try_fold (dds_load_step i) ?cs []"
    by (simp add: dds_load_def sort_key_sorted [OF vids] sort_key_sorted [OF nums])
  also have "\<dots> = Inr ([] @ map stored_data_source ?cs)"
    using all nums by (intro load_fold) auto
  finally show ?thesis by simp
qed

text \<open>The rows that inserting data sources adds.\<close>

definition new_data_sources :: "string \<Rightarrow> BlockPtr \<Rightarrow> int \<Rightarrow> StoredDynamicDataSource list \<Rightarrow> contract_data_source list" where
  "new_data_sources i ptr v dss =
     map (\<lambda>(k, ds). \<lparr>c_vid = v + int k, c_name = sds_name ds, c_address = the (src_address (sds_source ds)),
            c_abi = src_abi (sds_source ds), c_start_block = src_start_block (sds_source ds),
            c_block_hash = ptr_hash ptr, c_block_number = ptr_number ptr, c_deployment = i,
            c_context = sds_context ds\<rparr>) (enumerate 0 dss)"

lemma dds_insert_spec:
  assumes "\<forall>ds \<in> set dss. src_address (sds_source ds) \<noteq> None"
  shows "dds_insert i dss ptr m = Inr (length dss,
    m\<lparr>data_sources := data_sources m @ new_data_sources i ptr (vid_seq m) dss, vid_seq := vid_seq m + int (length dss)\<rparr>)"
proof (cases "dss = []")
  case False
  have "try_map (\<lambda>(k, ds). dds_row i ptr (vid_seq m + int k) ds) (enumerate 0 dss) =
      Inr (new_data_sources i ptr (vid_seq m) dss)"
    unfolding new_data_sources_def
  proof (rule try_map_Inr)
    fix x assume "x \<in> set (enumerate 0 dss)"
    then have "snd x \<in> set (map snd (enumerate 0 dss))" unfolding set_map by (rule imageI)
    then have "snd x \<in> set dss" by simp
    with assms obtain address where "src_address (sds_source (snd x)) = Some address" by auto
    then show "(case x of (k, ds) \<Rightarrow> dds_row i ptr (vid_seq m + int k) ds) =
        Inr (case x of (k, ds) \<Rightarrow> \<lparr>c_vid = vid_seq m + int k, c_name = sds_name ds,
            c_address = the (src_address (sds_source ds)), c_abi = src_abi (sds_source ds),
            c_start_block = src_start_block (sds_source ds), c_block_hash = ptr_hash ptr,
            c_block_number = ptr_number ptr, c_deployment = i, c_context = sds_context ds\<rparr>)"
      by (cases x) (simp add: dds_row_def)
  qed
  moreover have "length (new_data_sources i ptr (vid_seq m) dss) = length dss" by (simp add: new_data_sources_def)
  ultimately show ?thesis using False by (simp add: dds_insert_def)
qed (simp add: dds_insert_def new_data_sources_def)

lemma new_data_sources_all:
  "c \<in> set (new_data_sources i ptr v dss) \<Longrightarrow>
     c_deployment c = i \<and> c_block_number c = ptr_number ptr \<and> v \<le> c_vid c \<and> c_vid c < v + int (length dss)"
  by (auto simp: new_data_sources_def in_set_enumerate_eq)

end
