(* ===== verification/Deployment_Store.thy ===== *)
theory Deployment_Store
  imports Layout_History Deployment
begin

text \<open>
  The store for the deployments of a shard (\<^verbatim>\<open>store/postgres/src/deployment_store.rs\<close>): entity data and
  metadata change together in transactions. The layout and the information about the subgraph are
  read through caches whose contents never change for a deployment; they are arguments here, and
  so is the connection to the database, which is taken to be available.
\<close>

section \<open>State\<close>

record SubgraphInfo =
  info_interfaces_for_type :: "(string, string list) btree_map"
  info_types_for_interface :: "(string, string list) btree_map"
  info_graft_block :: "int option"

record store =
  entities :: db
  meta :: metadata

datatype UnfailOutcome = Noop | Unfailed

section \<open>Writing entities\<close>

definition conflicting_entity ::
  "Layout \<Rightarrow> db \<Rightarrow> string \<Rightarrow> string list \<Rightarrow> (StoreError, string option) result" where
  "conflicting_entity layout d i types =
     and_then (try_map (table_for_entity layout) types) (\<lambda>ts.
       (let found = concat (map (\<lambda>t. map (\<lambda>_. object t) (filter (\<lambda>r. row_id r = i) (d (object t)))) ts)
        in Inr (if found = [] then None else Some (last found))))"

text \<open>Indexing a map with a key that is not there panics.\<close>

definition shared_interface_types :: "SubgraphInfo \<Rightarrow> string \<Rightarrow> (StoreError, string list) result" where
  "shared_interface_types info ty =
     and_then (try_map (\<lambda>interface. case map_of (info_types_for_interface info) interface of
                          None \<Rightarrow> Inl (Panic interface) | Some types \<Rightarrow> Inr types)
                (case map_of (info_interfaces_for_type info) ty of None \<Rightarrow> [] | Some is \<Rightarrow> is)) (\<lambda>types.
       Inr (filter (\<lambda>t. t \<noteq> ty) (concat types)))"

definition check_interface_entity_uniqueness ::
  "SubgraphInfo \<Rightarrow> Layout \<Rightarrow> db \<Rightarrow> EntityKey \<Rightarrow> (StoreError, unit) result" where
  "check_interface_entity_uniqueness info layout d key =
     (if subgraph_id key \<noteq> site_deployment layout then Inl (Panic ''assertion failed'')
      else
        and_then (shared_interface_types info (entity_type key)) (\<lambda>types.
          if types = [] then Inr ()
          else
            and_then (conflicting_entity layout d (entity_id key) types) (\<lambda>found.
              (case found of
                 None \<Rightarrow> Inr ()
               | Some other \<Rightarrow> Inl (ConflictingId (entity_type key) (entity_id key) other)))))"

definition insert_entities ::
  "SubgraphInfo \<Rightarrow> Layout \<Rightarrow> BlockPtr \<Rightarrow> string \<Rightarrow> (EntityKey \<times> Entity) list \<Rightarrow> db \<Rightarrow> (StoreError, nat \<times> db) result" where
  "insert_entities info layout ptr ty data d =
     and_then (try_map (\<lambda>(key, _). check_interface_entity_uniqueness info layout d key) data) (\<lambda>_.
       layout_insert layout ty data (ptr_number ptr) d)"

definition overwrite_entities ::
  "SubgraphInfo \<Rightarrow> Layout \<Rightarrow> BlockPtr \<Rightarrow> string \<Rightarrow> (EntityKey \<times> Entity) list \<Rightarrow> db \<Rightarrow> (StoreError, nat \<times> db) result" where
  "overwrite_entities info layout ptr ty data d =
     and_then (try_map (\<lambda>(key, _). check_interface_entity_uniqueness info layout d key) data) (\<lambda>_.
       layout_update layout ty data (ptr_number ptr) d)"

definition remove_entities ::
  "Layout \<Rightarrow> BlockPtr \<Rightarrow> string \<Rightarrow> string list \<Rightarrow> db \<Rightarrow> (StoreError, nat \<times> db) result" where
  "remove_entities layout ptr ty entity_keys d =
     (case layout_delete layout ty entity_keys (ptr_number ptr) d of
        Inl _ \<Rightarrow> Inl (Unknown (Anyhow ''Failed to remove entities''))
      | Inr r \<Rightarrow> Inr r)"

text \<open>The modifications grouped by their kind and entity type.\<close>

record groups =
  inserts :: "(string, (EntityKey \<times> Entity) list) hash_map"
  overwrites :: "(string, (EntityKey \<times> Entity) list) hash_map"
  removals :: "(string, string list) hash_map"

definition push :: "string \<Rightarrow> 'a \<Rightarrow> (string, 'a list) hash_map \<Rightarrow> (string, 'a list) hash_map" where
  "push ty x m = hm_insert ty ((case hm_get m ty of None \<Rightarrow> [] | Some xs \<Rightarrow> xs) @ [x]) m"

fun group_modification :: "EntityModification \<Rightarrow> groups \<Rightarrow> groups" where
  "group_modification (Insert key data) g = g\<lparr>inserts := push (entity_type key) (key, data) (inserts g)\<rparr>"
| "group_modification (Overwrite key data) g = g\<lparr>overwrites := push (entity_type key) (key, data) (overwrites g)\<rparr>"
| "group_modification (Remove key) g = g\<lparr>removals := push (entity_type key) (entity_id key) (removals g)\<rparr>"

definition group_modifications :: "EntityModification list \<Rightarrow> groups" where
  "group_modifications mods = fold group_modification mods \<lparr>inserts = [], overwrites = [], removals = []\<rparr>"

definition apply_entity_modifications ::
  "SubgraphInfo \<Rightarrow> Layout \<Rightarrow> EntityModification list \<Rightarrow> BlockPtr \<Rightarrow> db \<Rightarrow> (StoreError, int \<times> db) result" where
  "apply_entity_modifications info layout mods ptr d =
     (let g = group_modifications mods in
      and_then (try_fold (\<lambda>(ty, data) (count, d1). and_then (insert_entities info layout ptr ty data d1)
                  (\<lambda>(n, d2). Inr (i32 (count + i32 (int n)), d2))) (inserts g) (0, d)) (\<lambda>(count1, d1).
      and_then (try_fold (\<lambda>(ty, data) d1. and_then (overwrite_entities info layout ptr ty data d1)
                  (\<lambda>(_, d2). Inr d2)) (overwrites g) d1) (\<lambda>d2.
        try_fold (\<lambda>(ty, ids) (count, d1). and_then (remove_entities layout ptr ty ids d1)
                  (\<lambda>(n, d2). Inr (i32 (count - i32 (int n)), d2))) (removals g) (count1, d2))))"

section \<open>Reading\<close>

definition store_get :: "Layout \<Rightarrow> store \<Rightarrow> EntityKey \<Rightarrow> int \<Rightarrow> (StoreError, Entity option) result" where
  "store_get layout s key block = layout_find layout (entities s) (entity_type key) (entity_id key) block"

definition store_get_many ::
  "Layout \<Rightarrow> store \<Rightarrow> (string, string list) btree_map \<Rightarrow> int \<Rightarrow> (StoreError, (string, Entity list) btree_map) result" where
  "store_get_many layout s ids_for_type block =
     (if ids_for_type = [] then Inr [] else layout_find_many layout (entities s) ids_for_type block)"

definition get_changes :: "Layout \<Rightarrow> store \<Rightarrow> int \<Rightarrow> (StoreError, EntityOperation list) result" where
  "get_changes layout s block = layout_find_changes layout (entities s) block"

section \<open>Transactions\<close>

text \<open>The query that counts the current versions of all entities.\<close>

definition count_query :: "Layout \<Rightarrow> db \<Rightarrow> int" where
  "count_query layout d =
     (\<Sum>(ty, t) \<leftarrow> tables layout.
        int (length (if immutable t then d ty else filter (holds BLOCK_RANGE_CURRENT) (d ty))))"

definition transact_block_operations ::
  "(SubgraphError \<Rightarrow> string) \<Rightarrow> nat \<Rightarrow> SubgraphInfo \<Rightarrow> Layout \<Rightarrow> Site \<Rightarrow> BlockPtr \<Rightarrow> string option \<Rightarrow>
   EntityModification list \<Rightarrow> StoredDynamicDataSource list \<Rightarrow> SubgraphError list \<Rightarrow> store \<Rightarrow>
   (StoreError, StoreEvent \<times> store) result" where
  "transact_block_operations h next_tag info layout site block_ptr_to firehose_cursor mods dss deterministic_errors s =
     (if list_ex (\<lambda>md. subgraph_id (entity_key md) \<noteq> s_deployment site) mods
      then Inl (Panic ''transact_block_operations must affect only entities in the subgraph'')
      else
        (let event = event_from_modifications next_tag mods in
         and_then (apply_entity_modifications info layout mods block_ptr_to (entities s)) (\<lambda>(count, d).
         and_then (dds_insert (s_deployment site) dss block_ptr_to (meta s)) (\<lambda>(_, m1).
         and_then (if deterministic_errors = [] then Inr m1
                   else insert_subgraph_errors h (s_deployment site) deterministic_errors (ptr_number block_ptr_to) m1) (\<lambda>m2.
         and_then (transact_block site block_ptr_to firehose_cursor (count_query layout d) count m2) (\<lambda>m3.
           Inr (event, s\<lparr>entities := d, meta := m3\<rparr>)))))))"

definition rewind_with_conn ::
  "nat \<Rightarrow> SubgraphInfo \<Rightarrow> Layout \<Rightarrow> Site \<Rightarrow> BlockPtr \<Rightarrow> string option \<Rightarrow> store \<Rightarrow> (StoreError, StoreEvent \<times> store) result" where
  "rewind_with_conn next_tag info layout site block_ptr_to firehose_cursor s =
     (if (case info_graft_block info of Some g \<Rightarrow> g > ptr_number block_ptr_to | None \<Rightarrow> False)
      then Inl (Unknown (Anyhow ''reverting past a graft point is not possible''))
      else
        and_then (revert_block_ptr (s_deployment site) block_ptr_to (meta s)) (\<lambda>m1.
          (let m2 = (case firehose_cursor of
                       Some cursor \<Rightarrow> update_firehose_cursor (s_deployment site) cursor m1 | None \<Rightarrow> m1);
               block = i32 (ptr_number block_ptr_to + 1)
           in and_then (layout_revert_block next_tag layout block (entities s)) (\<lambda>((event, count), d).
                (let m3 = revert_metadata (s_deployment site) block m2;
                     m4 = update_entity_count site (count_query layout d) count m3
                 in Inr (event, s\<lparr>entities := d, meta := m4\<rparr>))))))"

text \<open>The check of the direction in \<open>rewind\<close> builds an error and drops it.\<close>

definition rewind ::
  "nat \<Rightarrow> SubgraphInfo \<Rightarrow> Layout \<Rightarrow> Site \<Rightarrow> BlockPtr \<Rightarrow> store \<Rightarrow> (StoreError, StoreEvent \<times> store) result" where
  "rewind next_tag info layout site block_ptr_to s =
     and_then (block_ptr (meta s) (s_deployment site)) (\<lambda>from.
       (case from of
          None \<Rightarrow> Inl (Panic ''called `Option::unwrap()` on a `None` value'')
        | Some block_ptr_from \<Rightarrow>
            (let _ = (if ptr_number block_ptr_from \<le> ptr_number block_ptr_to
                      then Some (ConstraintViolation ''rewind must go backwards'') else None)
             in rewind_with_conn next_tag info layout site block_ptr_to (Some '''') s)))"

definition revert_block_operations ::
  "nat \<Rightarrow> SubgraphInfo \<Rightarrow> Layout \<Rightarrow> Site \<Rightarrow> BlockPtr \<Rightarrow> string option \<Rightarrow> store \<Rightarrow> (StoreError, StoreEvent \<times> store) result" where
  "revert_block_operations next_tag info layout site block_ptr_to firehose_cursor s =
     and_then (block_ptr (meta s) (s_deployment site)) (\<lambda>from.
       (case from of
          None \<Rightarrow> Inl (Panic ''called `Option::unwrap()` on a `None` value'')
        | Some deployment_head \<Rightarrow>
            (if ptr_number block_ptr_to \<ge> ptr_number deployment_head
             then Inl (Panic ''revert_block_operations must revert only backward'')
             else rewind_with_conn next_tag info layout site block_ptr_to firehose_cursor s)))"

section \<open>Failing and unfailing\<close>

definition fail_subgraph ::
  "(SubgraphError \<Rightarrow> string) \<Rightarrow> string \<Rightarrow> SubgraphError \<Rightarrow> store \<Rightarrow> (StoreError, store) result" where
  "fail_subgraph h i err s = and_then (deployment_fail h i err (meta s)) (\<lambda>m. Inr (s\<lparr>meta := m\<rparr>))"

text \<open>
  The revert runs on a connection of its own and commits before the status is updated; the update
  of the status does not fail.
\<close>

definition unfail_deterministic_error ::
  "nat \<Rightarrow> SubgraphInfo \<Rightarrow> Layout \<Rightarrow> Site \<Rightarrow> BlockPtr \<Rightarrow> BlockPtr \<Rightarrow> store \<Rightarrow> (StoreError, UnfailOutcome \<times> store) result" where
  "unfail_deterministic_error next_tag info layout site current_ptr parent_ptr s =
     (let i = s_deployment site in
      case fatal_error (meta s) i of
        None \<Rightarrow> Inr (Noop, s)
      | Some err \<Rightarrow>
          (if \<not> e_deterministic err then Inr (Noop, s)
           else
             (let prev_health = (if has_non_fatal_errors (meta s) i (Some (ptr_number parent_ptr)) then Unhealthy else Healthy)
              in if e_block_hash err = Some (ptr_hash current_ptr)
                 then
                   and_then (revert_block_operations next_tag info layout site parent_ptr (Some '''') s) (\<lambda>(_, s1).
                     Inr (Unfailed, s1\<lparr>meta := update_deployment_status i prev_health None (meta s1)\<rparr>))
                 else Inr (Noop, s))))"

definition unfail_non_deterministic_error ::
  "Site \<Rightarrow> BlockPtr \<Rightarrow> store \<Rightarrow> UnfailOutcome \<times> store" where
  "unfail_non_deterministic_error site current_ptr s =
     (let i = s_deployment site in
      case fatal_error (meta s) i of
        None \<Rightarrow> (Noop, s)
      | Some err \<Rightarrow>
          (if e_deterministic err then (Noop, s)
           else
             (case e_block_range err of
                Range (Some error_block_number) _ \<Rightarrow>
                  (if ptr_number current_ptr \<ge> error_block_number
                   then (Unfailed, s\<lparr>meta := delete_error (e_id err) (update_deployment_status i Healthy None (meta s))\<rparr>)
                   else (Noop, s))
              | _ \<Rightarrow> (Noop, s))))"

section \<open>Replicas\<close>

datatype ReplicaId = Main | ReadOnly nat

text \<open>The replicas with repetitions according to their weights, before they are shuffled.\<close>

definition weighted_replicas :: "nat \<Rightarrow> nat list \<Rightarrow> ReplicaId list" where
  "weighted_replicas read_only_pools pool_weights =
     (let n = read_only_pools + 1;
          weights = take n pool_weights @ replicate (n - length pool_weights) 1
      in concat (map (\<lambda>(i, weight). replicate weight (if i = 0 then Main else ReadOnly (i - 1))) (enumerate 0 weights)))"

text \<open>The counter wraps around; the remainder of a division by zero panics.\<close>

definition replica_for_query ::
  "ReplicaId list \<Rightarrow> bool \<Rightarrow> nat \<Rightarrow> (StoreError, ReplicaId) result \<times> nat" where
  "replica_for_query replica_order for_subscription counter =
     (if for_subscription then (Inr Main, counter)
      else
        (let counter1 = (counter + 1) mod 2 ^ 64 in
         if replica_order = [] then (Inl (Panic ''attempt to calculate the remainder with a divisor of zero''), counter1)
         else (Inr (replica_order ! (counter mod length replica_order)), counter1)))"

end
