(* ===== verification/Store_Writes.thy ===== *)
theory Store_Writes
  imports Deployment_Store
begin

text \<open>
  What \<open>apply_entity_modifications\<close> of \<^verbatim>\<open>store/postgres/src/deployment_store.rs\<close> does: the grouped
  operations commute, so that every modification takes effect at its block and the returned count
  is the change of the number of entities.
\<close>

section \<open>Operations on groups of entities\<close>

datatype group_op =
    Op_Insert string "(EntityKey \<times> Entity) list"
  | Op_Overwrite string "(EntityKey \<times> Entity) list"
  | Op_Remove string "string list"

fun op_type :: "group_op \<Rightarrow> string" where
  "op_type (Op_Insert ty _) = ty"
| "op_type (Op_Overwrite ty _) = ty"
| "op_type (Op_Remove ty _) = ty"

fun op_writes :: "group_op \<Rightarrow> (EntityKey \<times> Entity) list" where
  "op_writes (Op_Insert _ es) = es"
| "op_writes (Op_Overwrite _ es) = es"
| "op_writes (Op_Remove _ _) = []"

fun op_effect :: "group_op \<Rightarrow> string \<rightharpoonup> (Attribute \<rightharpoonup> Value) option" where
  "op_effect (Op_Insert _ es) = puts es"
| "op_effect (Op_Overwrite _ es) = puts es"
| "op_effect (Op_Remove _ ids) = removes ids"

fun run_op :: "SubgraphInfo \<Rightarrow> Layout \<Rightarrow> BlockPtr \<Rightarrow> group_op \<Rightarrow> int \<times> db \<Rightarrow> (StoreError, int \<times> db) result" where
  "run_op info layout ptr (Op_Insert ty data) (count, d) =
     and_then (insert_entities info layout ptr ty data d) (\<lambda>(n, d1). Inr (i32 (count + i32 (int n)), d1))"
| "run_op info layout ptr (Op_Overwrite ty data) (count, d) =
     and_then (overwrite_entities info layout ptr ty data d) (\<lambda>(_, d1). Inr (count, d1))"
| "run_op info layout ptr (Op_Remove ty ids) (count, d) =
     and_then (remove_entities layout ptr ty ids d) (\<lambda>(n, d1). Inr (i32 (count - i32 (int n)), d1))"

definition group_ops :: "groups \<Rightarrow> group_op list" where
  "group_ops g =
     map (\<lambda>(ty, es). Op_Insert ty es) (inserts g) @
     map (\<lambda>(ty, es). Op_Overwrite ty es) (overwrites g) @
     map (\<lambda>(ty, ids). Op_Remove ty ids) (removals g)"

lemma overwrite_fold:
  "try_fold (\<lambda>(ty, es). run_op info layout ptr (Op_Overwrite ty es)) xs (count, d) =
   and_then (try_fold (\<lambda>(ty, data) d1. and_then (overwrite_entities info layout ptr ty data d1) (\<lambda>(_, d2). Inr d2)) xs d)
     (\<lambda>d1. Inr (count, d1))"
proof (induction xs arbitrary: d)
  case (Cons x xs)
  obtain ty es where [simp]: "x = (ty, es)" by (cases x)
  show ?case
    by (cases "overwrite_entities info layout ptr ty es d") (auto simp: Cons.IH)
qed simp

lemma apply_entity_modifications_ops:
  "apply_entity_modifications info layout mods ptr d =
   try_fold (run_op info layout ptr) (group_ops (group_modifications mods)) (0, d)"
proof -
  let ?g = "group_modifications mods"
  have ins: "try_fold (run_op info layout ptr) (map (\<lambda>(ty, es). Op_Insert ty es) (inserts ?g)) (0, d) =
      try_fold (\<lambda>(ty, data) (count, d1). and_then (insert_entities info layout ptr ty data d1)
        (\<lambda>(n, d2). Inr (i32 (count + i32 (int n)), d2))) (inserts ?g) (0, d)"
    unfolding try_fold_map by (intro arg_cong [where f = "\<lambda>f. try_fold f _ _"]) (auto simp: fun_eq_iff)
  have ov: "try_fold (run_op info layout ptr) (map (\<lambda>(ty, es). Op_Overwrite ty es) (overwrites ?g)) (count, d1) =
      and_then (try_fold (\<lambda>(ty, data) d1. and_then (overwrite_entities info layout ptr ty data d1) (\<lambda>(_, d2). Inr d2))
        (overwrites ?g) d1) (\<lambda>d2. Inr (count, d2))" for count d1
    unfolding try_fold_map overwrite_fold [symmetric]
    by (intro arg_cong [where f = "\<lambda>f. try_fold f _ _"]) (auto simp: fun_eq_iff)
  have rem: "try_fold (run_op info layout ptr) (map (\<lambda>(ty, ids). Op_Remove ty ids) (removals ?g)) s =
      try_fold (\<lambda>(ty, ids) (count, d1). and_then (remove_entities layout ptr ty ids d1)
                  (\<lambda>(n, d2). Inr (i32 (count - i32 (int n)), d2))) (removals ?g) s" for s
    unfolding try_fold_map by (intro arg_cong [where f = "\<lambda>f. try_fold f _ _"]) (auto simp: fun_eq_iff)
  show ?thesis
    unfolding apply_entity_modifications_def Let_def group_ops_def try_fold_append ins
    by (auto simp: and_then_def ov rem split: sum.splits)
qed

text \<open>The number of entities that exist at a block.\<close>

definition entity_total :: "Layout \<Rightarrow> db \<Rightarrow> int \<Rightarrow> int" where
  "entity_total layout d b = (\<Sum>(ty, t) \<leftarrow> tables layout. int (card {i. table_history layout d ty i b \<noteq> None}))"

definition conflict_free :: "SubgraphInfo \<Rightarrow> Layout \<Rightarrow> db \<Rightarrow> EntityKey \<Rightarrow> bool" where
  "conflict_free info layout d key \<longleftrightarrow>
     subgraph_id key = site_deployment layout \<and>
     (\<exists>types. shared_interface_types info (entity_type key) = Inr types \<and>
        (\<forall>ty \<in> set types. hm_get (tables layout) ty \<noteq> None \<and> entity_id key \<notin> row_ids d ty))"

text \<open>An operation that can run: its table exists, its entities fit, and its kind matches what is stored.\<close>

fun op_ready :: "SubgraphInfo \<Rightarrow> Layout \<Rightarrow> int \<Rightarrow> db \<Rightarrow> group_op \<Rightarrow> bool" where
  "op_ready info layout b d (Op_Insert ty es) =
     (\<exists>t. hm_get (tables layout) ty = Some t \<and> batch_ok layout t es \<and>
        (\<forall>x \<in> set es. conflict_free info layout d (fst x) \<and> table_history layout d ty (entity_id (fst x)) b = None))"
| "op_ready info layout b d (Op_Overwrite ty es) =
     (\<exists>t. hm_get (tables layout) ty = Some t \<and> \<not> immutable t \<and> batch_ok layout t es \<and>
        (\<forall>x \<in> set es. conflict_free info layout d (fst x) \<and> table_history layout d ty (entity_id (fst x)) b \<noteq> None))"
| "op_ready info layout b d (Op_Remove ty ids) =
     (\<exists>t. hm_get (tables layout) ty = Some t \<and> \<not> immutable t \<and> distinct ids)"

lemma conflicting_entity_None:
  assumes "layout_inv layout head d"
    and "\<forall>ty \<in> set types. hm_get (tables layout) ty \<noteq> None \<and> i \<notin> row_ids d ty"
  shows "conflicting_entity layout d i types = Inr None"
proof -
  have t: "table_for_entity layout ty = Inr (the (hm_get (tables layout) ty))" if "ty \<in> set types" for ty
    using assms(2) that by (auto simp: table_for_entity_def)
  have none: "filter (\<lambda>r. row_id r = i) (d (object (the (hm_get (tables layout) ty)))) = []" if ty: "ty \<in> set types" for ty
  proof -
    obtain s where s: "hm_get (tables layout) ty = Some s" using assms(2) ty by auto
    have "i \<notin> row_ids d ty" using assms(2) ty by blast
    then show ?thesis using s layout_inv_table(1) [OF assms(1) s] by (auto simp: row_ids_def filter_empty_conv)
  qed
  have "try_map (table_for_entity layout) types = Inr (map (\<lambda>ty. the (hm_get (tables layout) ty)) types)"
    using t by (rule try_map_Inr)
  moreover have "concat (map (\<lambda>t. map (\<lambda>_. object t) (filter (\<lambda>r. row_id r = i) (d (object t))))
      (map (\<lambda>ty. the (hm_get (tables layout) ty)) types)) = []"
    using none by simp
  ultimately show ?thesis by (simp add: conflicting_entity_def)
qed

lemma conflict_free_check:
  assumes "layout_inv layout head d" and "conflict_free info layout d key"
  shows "check_interface_entity_uniqueness info layout d key = Inr ()"
  using assms conflicting_entity_None [OF assms(1)]
  by (auto simp: conflict_free_def check_interface_entity_uniqueness_def)

lemma checks_pass:
  assumes "layout_inv layout head d" and "\<forall>x \<in> set es. conflict_free info layout d (fst x)"
  shows "try_map (\<lambda>(key, _). check_interface_entity_uniqueness info layout d key) es = Inr (map (\<lambda>_. ()) es)"
  using assms conflict_free_check [OF assms(1)] by (intro try_map_Inr) (auto simp: case_prod_unfold)

lemma sum_list_change:
  assumes "distinct (map fst xs)" and "(k, v) \<in> set xs" and "\<And>k'. k' \<noteq> k \<Longrightarrow> f k' = (g k' :: int)"
  shows "(\<Sum>(k', v') \<leftarrow> xs. f k') - (\<Sum>(k', v') \<leftarrow> xs. g k') = f k - g k"
  using assms(1,2)
proof (induction xs)
  case (Cons x xs)
  show ?case
  proof (cases "fst x = k")
    case True
    have "map (\<lambda>(k', v'). f k') xs = map (\<lambda>(k', v'). g k') xs"
      using Cons.prems(1) True assms(3) by (intro map_cong) (auto simp: image_iff)
    then have "(\<Sum>(k', v') \<leftarrow> xs. f k') = (\<Sum>(k', v') \<leftarrow> xs. g k')" by (rule arg_cong)
    with True show ?thesis by (simp add: case_prod_unfold)
  next
    case False
    with Cons show ?thesis using assms(3) [of "fst x"] by (auto simp: case_prod_unfold)
  qed
qed simp

lemma finite_history:
  assumes "layout_inv layout head d"
  shows "finite {i. table_history layout d ty i c \<noteq> None}"
proof (cases "hm_get (tables layout) ty")
  case (Some t)
  then have "{i. table_history layout d ty i c \<noteq> None} = live (d ty) c"
    by (simp add: table_history_def live_stored [of _ _ t])
  then show ?thesis by simp
qed (simp add: table_history_def)

lemma entity_total_change:
  assumes "layout_inv layout head d" and "hm_get (tables layout) ty = Some t" and "changed_by layout b ty m new d d'"
  shows "entity_total layout d' b - entity_total layout d b =
    int (card {i. change b m (table_history layout d ty) i b \<noteq> None}) - int (card {i. table_history layout d ty i b \<noteq> None})"
proof -
  have hist: "table_history layout d' = (table_history layout d)(ty := change b m (table_history layout d ty))"
    using assms(3) by (simp add: changed_by_def)
  have "entity_total layout d' b - entity_total layout d b =
      int (card {i. table_history layout d' ty i b \<noteq> None}) - int (card {i. table_history layout d ty i b \<noteq> None})"
    unfolding entity_total_def
  proof (rule sum_list_change)
    show "distinct (map fst (tables layout))" using assms(1) by (simp add: layout_inv_def)
    show "(ty, t) \<in> set (tables layout)" using assms(2) by (rule map_of_SomeD)
  qed (simp add: hist)
  then show ?thesis by (simp add: hist)
qed

lemma batch_ids:
  "batch_ok layout t es \<Longrightarrow> card ((\<lambda>x. entity_id (fst x)) ` set es) = length es"
  by (metis batch_ok_def distinct_card length_map set_map)

lemma i32_diff [simp]: "i32 (i32 x - y) = i32 (x - y)" "i32 (x - i32 y) = i32 (x - y)"
proof -
  have "i32 (i32 x - y) = i32 (i32 x + - y)" for x y by simp
  then show "i32 (i32 x - y) = i32 (x - y)" for x y unfolding i32_add by simp
  show "i32 (x - i32 y) = i32 (x - y)" unfolding i32_def by (simp add: mod_simps algebra_simps)
qed

lemma run_op_spec:
  assumes inv: "layout_inv layout head d" and b: "head \<le> b" "b < 2147483647" "ptr_number ptr = b"
    and ready: "op_ready info layout b d op"
  shows "\<exists>d'. run_op info layout ptr op (i32 k, d) = Inr (i32 (k + (entity_total layout d' b - entity_total layout d b)), d') \<and>
    changed_by layout b (op_type op) (op_effect op) ((\<lambda>x. entity_id (fst x)) ` set (op_writes op)) d d'"
proof (cases op)
  case (Op_Insert ty es)
  let ?ids = "(\<lambda>x. entity_id (fst x)) ` set es" and ?L = "{i. table_history layout d ty i b \<noteq> None}"
  obtain t where t: "hm_get (tables layout) ty = Some t" "batch_ok layout t es"
      "\<forall>x \<in> set es. conflict_free info layout d (fst x)" "\<forall>x \<in> set es. table_history layout d ty (entity_id (fst x)) b = None"
    using ready Op_Insert by auto
  obtain d' where d': "layout_insert layout ty es b d = Inr (length es, d')" "changed_by layout b ty (puts es) ?ids d d'"
    using layout_insert_spec [OF inv t(1) b(1,2) t(2,4)] by blast
  have "{i. change b (puts es) (table_history layout d ty) i b \<noteq> None} = ?L \<union> ?ids"
  proof (rule set_eqI)
    fix i
    show "i \<in> {i. change b (puts es) (table_history layout d ty) i b \<noteq> None} \<longleftrightarrow> i \<in> ?L \<union> ?ids"
      using puts_Some_iff [of es i] by (cases "puts es i") (auto simp: change_def puts_def)
  qed
  moreover have "card (?L \<union> ?ids) = card ?L + length es"
    using finite_history [OF inv] t(4) batch_ids [OF t(2)] by (subst card_Un_disjoint) auto
  ultimately have "entity_total layout d' b - entity_total layout d b = int (length es)"
    using entity_total_change [OF inv t(1) d'(2)] by simp
  moreover have "run_op info layout ptr op (i32 k, d) = Inr (i32 (k + int (length es)), d')"
    using Op_Insert checks_pass [OF inv t(3)] d'(1) b(3) by (simp add: insert_entities_def)
  ultimately show ?thesis using d'(2) Op_Insert by auto
next
  case (Op_Overwrite ty es)
  let ?ids = "(\<lambda>x. entity_id (fst x)) ` set es" and ?L = "{i. table_history layout d ty i b \<noteq> None}"
  obtain t where t: "hm_get (tables layout) ty = Some t" "\<not> immutable t" "batch_ok layout t es"
      "\<forall>x \<in> set es. conflict_free info layout d (fst x)" "\<forall>x \<in> set es. table_history layout d ty (entity_id (fst x)) b \<noteq> None"
    using ready Op_Overwrite by auto
  obtain d' where d': "layout_update layout ty es b d = Inr (length es, d')" "changed_by layout b ty (puts es) ?ids d d'"
    using layout_update_spec [OF inv t(1,2) b(1,2) t(3)] by blast
  have "{i. change b (puts es) (table_history layout d ty) i b \<noteq> None} = ?L"
  proof (rule set_eqI)
    fix i
    have "puts es i \<noteq> None \<Longrightarrow> i \<in> ?L" using t(5) unfolding puts_Some_iff by auto
    then show "i \<in> {i. change b (puts es) (table_history layout d ty) i b \<noteq> None} \<longleftrightarrow> i \<in> ?L"
      by (cases "puts es i") (auto simp: change_def puts_def)
  qed
  then have "entity_total layout d' b - entity_total layout d b = 0"
    using entity_total_change [OF inv t(1) d'(2)] by simp
  moreover have "run_op info layout ptr op (i32 k, d) = Inr (i32 k, d')"
    using Op_Overwrite checks_pass [OF inv t(4)] d'(1) b(3) by (simp add: overwrite_entities_def)
  ultimately show ?thesis using d'(2) Op_Overwrite by auto
next
  case (Op_Remove ty ids)
  let ?L = "{i. table_history layout d ty i b \<noteq> None}" and ?R = "{i \<in> set ids. table_history layout d ty i b \<noteq> None}"
  obtain t where t: "hm_get (tables layout) ty = Some t" "\<not> immutable t" "distinct ids" using ready Op_Remove by auto
  obtain d' where d': "layout_delete layout ty ids b d = Inr (card ?R, d')" "changed_by layout b ty (removes ids) {} d d'"
    using layout_delete_spec [OF inv t(1,2) b(1,2) t(3)] by blast
  have "{i. change b (removes ids) (table_history layout d ty) i b \<noteq> None} = ?L - ?R"
    by (auto simp: change_def removes_def)
  moreover have "int (card (?L - ?R)) = int (card ?L) - int (card ?R)"
  proof -
    have "finite ?L" by (rule finite_history [OF inv])
    then have "card ?R \<le> card ?L" "card (?L - ?R) = card ?L - card ?R"
      by (auto intro!: card_mono card_Diff_subset)
    then show ?thesis by simp
  qed
  ultimately have "entity_total layout d' b - entity_total layout d b = - int (card ?R)"
    using entity_total_change [OF inv t(1) d'(2)] by simp
  moreover have "run_op info layout ptr op (i32 k, d) = Inr (i32 (k - int (card ?R)), d')"
    using Op_Remove d'(1) b(3) by (simp add: remove_entities_def)
  ultimately show ?thesis using d'(2) Op_Remove by auto
qed

section \<open>Sequences of operations on groups\<close>

definition compatible :: "SubgraphInfo \<Rightarrow> group_op \<Rightarrow> group_op \<Rightarrow> bool" where
  "compatible info p q \<longleftrightarrow>
     (op_type p = op_type q \<longrightarrow> dom (op_effect p) \<inter> dom (op_effect q) = {}) \<and>
     (\<forall>x \<in> set (op_writes q). \<forall>types. shared_interface_types info (entity_type (fst x)) = Inr types \<longrightarrow>
        op_type p \<in> set types \<longrightarrow> entity_id (fst x) \<notin> (\<lambda>x. entity_id (fst x)) ` set (op_writes p))"

lemma dom_puts: "dom (puts es) = (\<lambda>x. entity_id (fst x)) ` set es"
proof -
  have "j \<in> dom (puts es) \<longleftrightarrow> j \<in> (\<lambda>x. entity_id (fst x)) ` set es" for j
    using puts_Some_iff [of es j] by (simp add: domIff del: not_None_eq)
  then show ?thesis by blast
qed

lemma dom_removes: "dom (removes ids) = set ids"
  by (auto simp: removes_def split: if_splits)

lemma change_outside: "i \<notin> dom m \<Longrightarrow> change b m S i c = S i c"
  by (auto simp: change_def domIff)

lemma conflict_free_changed:
  assumes "changed_by layout b ty m new d d'" and "conflict_free info layout d key"
    and "\<And>types. shared_interface_types info (entity_type key) = Inr types \<Longrightarrow> ty \<in> set types \<Longrightarrow> entity_id key \<notin> new"
  shows "conflict_free info layout d' key"
proof -
  obtain types where types: "subgraph_id key = site_deployment layout" "shared_interface_types info (entity_type key) = Inr types"
      "\<forall>ty \<in> set types. hm_get (tables layout) ty \<noteq> None \<and> entity_id key \<notin> row_ids d ty"
    using assms(2) by (auto simp: conflict_free_def)
  have "entity_id key \<notin> row_ids d' ty'" if "ty' \<in> set types" for ty'
  proof
    assume "entity_id key \<in> row_ids d' ty'"
    then have "entity_id key \<in> row_ids d ty' \<union> (if ty' = ty then new else {})"
      using assms(1) unfolding changed_by_def by blast
    with types(3) that assms(3) [OF types(2)] show False by (auto split: if_splits)
  qed
  with types show ?thesis by (auto simp: conflict_free_def)
qed

lemma op_ready_changed:
  assumes ch: "changed_by layout b (op_type p) (op_effect p) ((\<lambda>x. entity_id (fst x)) ` set (op_writes p)) d d'"
    and comp: "compatible info p q" and ready: "op_ready info layout b d q"
  shows "op_ready info layout b d' q"
proof -
  have hist: "table_history layout d' (op_type q) i b = table_history layout d (op_type q) i b" if "i \<in> dom (op_effect q)" for i
  proof (cases "op_type p = op_type q")
    case True
    then have "i \<notin> dom (op_effect p)" using comp that unfolding compatible_def by blast
    then show ?thesis using ch True by (simp add: changed_by_def change_outside)
  next
    case False
    then show ?thesis using ch by (simp add: changed_by_def)
  qed
  have cf: "conflict_free info layout d' (fst x)" if "x \<in> set (op_writes q)" "conflict_free info layout d (fst x)" for x
    using conflict_free_changed [OF ch that(2)] comp that(1) unfolding compatible_def by blast
  show ?thesis
  proof (cases q)
    case (Op_Insert ty es)
    with ready hist cf show ?thesis by (simp add: dom_puts) (metis imageI)
  next
    case (Op_Overwrite ty es)
    with ready hist cf show ?thesis by (simp add: dom_puts) (metis imageI)
  next
    case (Op_Remove ty ids)
    with ready show ?thesis by simp
  qed
qed

fun ops_effect :: "group_op list \<Rightarrow> string \<Rightarrow> string \<rightharpoonup> (Attribute \<rightharpoonup> Value) option" where
  "ops_effect [] ty = Map.empty"
| "ops_effect (op # ops) ty = (if op_type op = ty then op_effect op else Map.empty) ++ ops_effect ops ty"

lemma ops_effect_append: "ops_effect (xs @ ys) ty = ops_effect xs ty ++ ops_effect ys ty"
  by (induction xs) simp_all

lemma change_empty [simp]: "change b Map.empty S = S"
  by (simp add: change_def)

lemma layout_inv_mono: "layout_inv layout head d \<Longrightarrow> head \<le> b \<Longrightarrow> layout_inv layout b d"
  by (auto simp: layout_inv_def intro: table_inv_mono)

lemma run_ops_spec:
  assumes "layout_inv layout head d" and "head \<le> b" and "b < 2147483647" and "ptr_number ptr = b"
    and "\<forall>op \<in> set ops. op_ready info layout b d op" and "sorted_wrt (compatible info) ops"
  shows "\<exists>d'. try_fold (run_op info layout ptr) ops (i32 k, d) =
        Inr (i32 (k + (entity_total layout d' b - entity_total layout d b)), d') \<and>
      layout_inv layout b d' \<and>
      (\<forall>ty. table_history layout d' ty = change b (ops_effect ops ty) (table_history layout d ty))"
  using assms(1,2,5,6)
proof (induction ops arbitrary: d head k)
  case Nil
  then show ?case using layout_inv_mono by auto
next
  case (Cons op ops)
  obtain d1 where d1: "run_op info layout ptr op (i32 k, d) = Inr (i32 (k + (entity_total layout d1 b - entity_total layout d b)), d1)"
      "changed_by layout b (op_type op) (op_effect op) ((\<lambda>x. entity_id (fst x)) ` set (op_writes op)) d d1"
    using run_op_spec [OF Cons.prems(1,2) assms(3,4), of info op k] Cons.prems(3) by auto
  have "layout_inv layout b d1" using d1(2) by (simp add: changed_by_def)
  moreover have "\<forall>q \<in> set ops. op_ready info layout b d1 q"
    using op_ready_changed [OF d1(2)] Cons.prems(3,4) by simp
  moreover have "sorted_wrt (compatible info) ops" using Cons.prems(4) by simp
  ultimately obtain d' where d': "try_fold (run_op info layout ptr) ops
        (i32 (k + (entity_total layout d1 b - entity_total layout d b)), d1) =
        Inr (i32 (k + (entity_total layout d1 b - entity_total layout d b) + (entity_total layout d' b - entity_total layout d1 b)), d')"
      "layout_inv layout b d'"
      "\<forall>ty. table_history layout d' ty = change b (ops_effect ops ty) (table_history layout d1 ty)"
    using Cons.IH [of b d1 "k + (entity_total layout d1 b - entity_total layout d b)"] by blast
  have "table_history layout d' ty = change b (ops_effect (op # ops) ty) (table_history layout d ty)" for ty
    using d'(3) d1(2) by (simp add: changed_by_def change_change)
  moreover have "try_fold (run_op info layout ptr) (op # ops) (i32 k, d) =
      Inr (i32 (k + (entity_total layout d' b - entity_total layout d b)), d')"
    using d1(1) d'(1) by (simp add: algebra_simps)
  ultimately show ?case using d'(2) by blast
qed

section \<open>Grouping modifications\<close>

fun as_insert :: "string \<Rightarrow> EntityModification \<Rightarrow> (EntityKey \<times> Entity) option" where
  "as_insert ty (Insert key e) = (if entity_type key = ty then Some (key, e) else None)"
| "as_insert ty _ = None"

fun as_overwrite :: "string \<Rightarrow> EntityModification \<Rightarrow> (EntityKey \<times> Entity) option" where
  "as_overwrite ty (Overwrite key e) = (if entity_type key = ty then Some (key, e) else None)"
| "as_overwrite ty _ = None"

fun as_removal :: "string \<Rightarrow> EntityModification \<Rightarrow> string option" where
  "as_removal ty (Remove key) = (if entity_type key = ty then Some (entity_id key) else None)"
| "as_removal ty _ = None"

definition grouped :: "(string \<Rightarrow> EntityModification \<Rightarrow> 'a option) \<Rightarrow> EntityModification list \<Rightarrow> (string, 'a list) hash_map \<Rightarrow> bool" where
  "grouped f mods m \<longleftrightarrow> hm_wf m \<and>
     (\<forall>ty. hm_get m ty = (if List.map_filter (f ty) mods = [] then None else Some (List.map_filter (f ty) mods)))"

lemma map_filter_snoc:
  "List.map_filter f (xs @ [x]) = List.map_filter f xs @ (case f x of None \<Rightarrow> [] | Some y \<Rightarrow> [y])"
  by (induction xs) (auto simp: List.map_filter_simps split: option.splits)

lemma grouped_push:
  assumes "grouped f mods m" and "f ty md = Some x" and "\<And>ty'. ty' \<noteq> ty \<Longrightarrow> f ty' md = None"
  shows "grouped f (mods @ [md]) (push ty x m)"
  unfolding grouped_def
proof (intro conjI allI)
  show "hm_wf (push ty x m)" using assms(1) by (simp add: grouped_def push_def)
  show "hm_get (push ty x m) ty' =
      (if List.map_filter (f ty') (mods @ [md]) = [] then None else Some (List.map_filter (f ty') (mods @ [md])))" for ty'
    using assms by (cases "ty' = ty") (auto simp: grouped_def push_def map_filter_snoc)
qed

lemma grouped_skip: "grouped f mods m \<Longrightarrow> (\<And>ty. f ty md = None) \<Longrightarrow> grouped f (mods @ [md]) m"
  by (simp add: grouped_def map_filter_snoc)

lemma group_modifications_grouped:
  "grouped as_insert mods (inserts (group_modifications mods)) \<and>
   grouped as_overwrite mods (overwrites (group_modifications mods)) \<and>
   grouped as_removal mods (removals (group_modifications mods))"
proof (induction mods rule: rev_induct)
  case Nil
  then show ?case by (simp add: group_modifications_def grouped_def List.map_filter_simps)
next
  case (snoc md mods)
  have step: "group_modifications (mods @ [md]) = group_modification md (group_modifications mods)"
    by (simp add: group_modifications_def)
  show ?case
    unfolding step using snoc
    by (cases md) (simp_all add: grouped_push grouped_skip)
qed

definition mod_id :: "EntityModification \<Rightarrow> string \<times> string" where
  "mod_id md = (entity_type (entity_key md), entity_id (entity_key md))"

definition mods_effect :: "EntityModification list \<Rightarrow> string \<Rightarrow> string \<rightharpoonup> (Attribute \<rightharpoonup> Value) option" where
  "mods_effect mods ty i = map_of (map (\<lambda>md. (mod_id md, map_option visible (modified_entity md))) mods) (ty, i)"

lemma ops_effect_map:
  assumes "hm_wf xs" and "\<And>ty x. op_type (f (ty, x)) = ty"
  shows "ops_effect (map f xs) ty = (case hm_get xs ty of None \<Rightarrow> Map.empty | Some x \<Rightarrow> op_effect (f (ty, x)))"
  using assms(1)
proof (induction xs)
  case (Cons y xs)
  obtain ty' x where [simp]: "y = (ty', x)" by (cases y)
  have "hm_get xs ty' = None" "hm_wf xs" using Cons.prems by (simp_all add: map_of_eq_None_iff)
  then show ?case
    using Cons.IH assms(2) by (cases "ty' = ty") simp_all
qed simp

lemma puts_empty [simp]: "puts [] = Map.empty"
  by (simp add: puts_def batch_def)

lemma removes_empty [simp]: "removes [] = Map.empty"
  by (simp add: removes_def)

lemma group_ops_effect:
  "ops_effect (group_ops (group_modifications mods)) ty =
     puts (List.map_filter (as_insert ty) mods) ++ puts (List.map_filter (as_overwrite ty) mods) ++
     removes (List.map_filter (as_removal ty) mods)"
  using group_modifications_grouped [of mods]
  unfolding group_ops_def ops_effect_append grouped_def
  by (simp add: ops_effect_map split: prod.splits)

lemma in_map_filter: "y \<in> set (List.map_filter f xs) \<longleftrightarrow> (\<exists>x \<in> set xs. f x = Some y)"
  by (induction xs) (auto simp: List.map_filter_simps split: option.splits)

lemma as_Some_iff:
  "as_insert ty md = Some x \<longleftrightarrow> (\<exists>key e. md = Insert key e \<and> entity_type key = ty \<and> x = (key, e))"
  "as_overwrite ty md = Some x \<longleftrightarrow> (\<exists>key e. md = Overwrite key e \<and> entity_type key = ty \<and> x = (key, e))"
  "as_removal ty md = Some i \<longleftrightarrow> (\<exists>key. md = Remove key \<and> entity_type key = ty \<and> i = entity_id key)"
  by (cases md; auto)+

lemma mods_effect_Some:
  assumes "distinct (map mod_id mods)" and "md \<in> set mods" and "mod_id md = (ty, i)"
  shows "mods_effect mods ty i = Some (map_option visible (modified_entity md))"
proof -
  have "distinct (map fst (map (\<lambda>md. (mod_id md, map_option visible (modified_entity md))) mods))"
    using assms(1) by (simp add: comp_def)
  moreover have "((ty, i), map_option visible (modified_entity md)) \<in>
      set (map (\<lambda>md. (mod_id md, map_option visible (modified_entity md))) mods)"
    using assms(2,3) by force
  ultimately show ?thesis unfolding mods_effect_def by (rule map_of_is_SomeI)
qed

lemma mods_effect_None: "mods_effect mods ty i = None \<longleftrightarrow> (ty, i) \<notin> mod_id ` set mods"
  by (simp add: mods_effect_def map_of_eq_None_iff image_image)

lemma puts_Some:
  assumes "distinct (map (\<lambda>x. entity_id (fst x)) es)" and "(key, e) \<in> set es"
  shows "puts es (entity_id key) = Some (Some (visible e))"
proof -
  have "distinct (map fst (map (\<lambda>(key, e). (entity_id key, e)) es))" using assms(1) by (simp add: case_prod_unfold comp_def)
  then have "batch es (entity_id key) = Some e"
    unfolding batch_def using assms(2) by (intro map_of_is_SomeI) force+
  then show ?thesis by (simp add: puts_def)
qed

lemma same_mod: "distinct (map mod_id mods) \<Longrightarrow> a \<in> set mods \<Longrightarrow> c \<in> set mods \<Longrightarrow> mod_id a = mod_id c \<Longrightarrow> a = c"
  by (simp add: distinct_map inj_on_def)

lemma distinct_group:
  assumes "distinct (map mod_id mods)" and "\<And>md x. f md = Some x \<Longrightarrow> mod_id md = (ty, g x)"
  shows "distinct (map g (List.map_filter f mods))"
  using assms(1)
proof (induction mods)
  case (Cons md mods)
  then have IH: "distinct (map g (List.map_filter f mods))" and new: "mod_id md \<notin> mod_id ` set mods" by simp_all
  show ?case
  proof (cases "f md")
    case (Some x)
    have "g x \<notin> g ` set (List.map_filter f mods)"
    proof
      assume "g x \<in> g ` set (List.map_filter f mods)"
      then obtain y md' where "md' \<in> set mods" "f md' = Some y" "g x = g y" by (auto simp: in_map_filter)
      then show False using new assms(2) Some by (force simp: image_iff)
    qed
    with IH Some show ?thesis by (simp add: List.map_filter_simps)
  qed (use IH in \<open>simp add: List.map_filter_simps\<close>)
qed (simp add: List.map_filter_simps)

lemma distinct_groups:
  assumes "distinct (map mod_id mods)"
  shows "distinct (map (\<lambda>x. entity_id (fst x)) (List.map_filter (as_insert ty) mods))"
    and "distinct (map (\<lambda>x. entity_id (fst x)) (List.map_filter (as_overwrite ty) mods))"
    and "distinct (List.map_filter (as_removal ty) mods)"
proof -
  have "mod_id md = (ty, entity_id (fst x))" if "as_insert ty md = Some x" for md x
    using that by (auto simp: as_Some_iff mod_id_def)
  then show "distinct (map (\<lambda>x. entity_id (fst x)) (List.map_filter (as_insert ty) mods))"
    by (rule distinct_group [OF assms])
  have "mod_id md = (ty, entity_id (fst x))" if "as_overwrite ty md = Some x" for md x
    using that by (auto simp: as_Some_iff mod_id_def)
  then show "distinct (map (\<lambda>x. entity_id (fst x)) (List.map_filter (as_overwrite ty) mods))"
    by (rule distinct_group [OF assms])
  have "mod_id md = (ty, id x)" if "as_removal ty md = Some x" for md x
    using that by (auto simp: as_Some_iff mod_id_def)
  then have "distinct (map id (List.map_filter (as_removal ty) mods))" by (rule distinct_group [OF assms])
  then show "distinct (List.map_filter (as_removal ty) mods)" by simp
qed

lemma group_ops_mods_effect:
  assumes "distinct (map mod_id mods)"
  shows "ops_effect (group_ops (group_modifications mods)) ty = mods_effect mods ty"
proof
  fix i
  let ?I = "List.map_filter (as_insert ty) mods" and ?O = "List.map_filter (as_overwrite ty) mods"
    and ?R = "List.map_filter (as_removal ty) mods"
  note dist = distinct_groups [OF assms, of ty]
  have dom: "i \<in> dom (puts ?I) \<longleftrightarrow> (\<exists>key e. Insert key e \<in> set mods \<and> mod_id (Insert key e) = (ty, i))"
    "i \<in> dom (puts ?O) \<longleftrightarrow> (\<exists>key e. Overwrite key e \<in> set mods \<and> mod_id (Overwrite key e) = (ty, i))"
    "i \<in> dom (removes ?R) \<longleftrightarrow> (\<exists>key. Remove key \<in> set mods \<and> mod_id (Remove key) = (ty, i))"
    unfolding dom_puts dom_removes by (force simp: in_map_filter as_Some_iff mod_id_def image_iff)+
  have goal: "(puts ?I ++ puts ?O ++ removes ?R) i = mods_effect mods ty i"
  proof (cases "mods_effect mods ty i")
    case None
    then have "i \<notin> dom (puts ?I)" "i \<notin> dom (puts ?O)" "i \<notin> dom (removes ?R)"
      unfolding dom mods_effect_None by (metis imageI)+
    with None show ?thesis by (simp add: domIff map_add_def)
  next
    case (Some v)
    then obtain md where md: "md \<in> set mods" "mod_id md = (ty, i)"
      using mods_effect_None [of mods ty i] by force
    note eff = mods_effect_Some [OF assms md]
    note uniq = same_mod [OF assms md(1)]
    show ?thesis
    proof (cases md)
      case (Insert key e)
      have "(key, e) \<in> set ?I" "entity_id key = i" using md Insert by (auto simp: in_map_filter as_Some_iff mod_id_def)
      then have "puts ?I i = Some (Some (visible e))" using puts_Some [OF dist(1)] by blast
      moreover have "i \<notin> dom (puts ?O)" "i \<notin> dom (removes ?R)"
        unfolding dom using uniq md(2) Insert by (metis EntityModification.distinct)+
      ultimately show ?thesis using eff Insert by (simp add: domIff map_add_def)
    next
      case (Overwrite key e)
      have "(key, e) \<in> set ?O" "entity_id key = i" using md Overwrite by (auto simp: in_map_filter as_Some_iff mod_id_def)
      then have "puts ?O i = Some (Some (visible e))" using puts_Some [OF dist(2)] by blast
      moreover have "i \<notin> dom (removes ?R)"
        unfolding dom using uniq md(2) Overwrite by (metis EntityModification.distinct)
      ultimately show ?thesis using eff Overwrite by (simp add: domIff map_add_def)
    next
      case (Remove key)
      have "i \<in> set ?R" using md Remove by (auto simp: in_map_filter as_Some_iff mod_id_def)
      then show ?thesis using eff Remove by (simp add: removes_def map_add_def)
    qed
  qed
  show "ops_effect (group_ops (group_modifications mods)) ty i = mods_effect mods ty i"
    unfolding group_ops_effect by (rule goal)
qed

section \<open>Applying modifications\<close>

fun mod_ready :: "SubgraphInfo \<Rightarrow> Layout \<Rightarrow> int \<Rightarrow> db \<Rightarrow> EntityModification \<Rightarrow> bool" where
  "mod_ready info layout b d (Insert key e) =
     (\<exists>t. hm_get (tables layout) (entity_type key) = Some t \<and> entity_fits (layout_hex layout) t (entity_id key) e \<and>
        conflict_free info layout d key \<and> table_history layout d (entity_type key) (entity_id key) b = None)"
| "mod_ready info layout b d (Overwrite key e) =
     (\<exists>t. hm_get (tables layout) (entity_type key) = Some t \<and> \<not> immutable t \<and>
        entity_fits (layout_hex layout) t (entity_id key) e \<and>
        conflict_free info layout d key \<and> table_history layout d (entity_type key) (entity_id key) b \<noteq> None)"
| "mod_ready info layout b d (Remove key) =
     (\<exists>t. hm_get (tables layout) (entity_type key) = Some t \<and> \<not> immutable t)"

text \<open>
  Modifications that can be applied: one per entity, each fits what is stored, and no two of them
  write the same id for types that share an interface.
\<close>

definition mods_ready :: "SubgraphInfo \<Rightarrow> Layout \<Rightarrow> int \<Rightarrow> db \<Rightarrow> EntityModification list \<Rightarrow> bool" where
  "mods_ready info layout b d mods \<longleftrightarrow>
     distinct (map mod_id mods) \<and> (\<forall>md \<in> set mods. mod_ready info layout b d md) \<and>
     (\<forall>a \<in> set mods. \<forall>c \<in> set mods. modified_entity a \<noteq> None \<longrightarrow> modified_entity c \<noteq> None \<longrightarrow>
        (\<forall>types. shared_interface_types info (entity_type (entity_key a)) = Inr types \<longrightarrow>
           entity_type (entity_key c) \<in> set types \<longrightarrow> entity_id (entity_key a) \<noteq> entity_id (entity_key c)))"

lemma grouped_mem:
  assumes "grouped f mods m" and "(ty, xs) \<in> set m"
  shows "xs = List.map_filter (f ty) mods" and "List.map_filter (f ty) mods \<noteq> []"
proof -
  have "hm_get m ty = Some xs" using assms by (intro map_of_is_SomeI) (simp_all add: grouped_def)
  moreover have "hm_get m ty = (if List.map_filter (f ty) mods = [] then None else Some (List.map_filter (f ty) mods))"
    using assms(1) by (simp add: grouped_def)
  ultimately show "xs = List.map_filter (f ty) mods" "List.map_filter (f ty) mods \<noteq> []" by (auto split: if_splits)
qed

lemma group_ops_cases:
  assumes "op \<in> set (group_ops (group_modifications mods))"
  obtains ty where "op = Op_Insert ty (List.map_filter (as_insert ty) mods)" "List.map_filter (as_insert ty) mods \<noteq> []"
  | ty where "op = Op_Overwrite ty (List.map_filter (as_overwrite ty) mods)" "List.map_filter (as_overwrite ty) mods \<noteq> []"
  | ty where "op = Op_Remove ty (List.map_filter (as_removal ty) mods)" "List.map_filter (as_removal ty) mods \<noteq> []"
proof -
  note gm = group_modifications_grouped [of mods]
  from assms consider ty es where "op = Op_Insert ty es" "(ty, es) \<in> set (inserts (group_modifications mods))"
    | ty es where "op = Op_Overwrite ty es" "(ty, es) \<in> set (overwrites (group_modifications mods))"
    | ty ids where "op = Op_Remove ty ids" "(ty, ids) \<in> set (removals (group_modifications mods))"
    by (auto simp: group_ops_def)
  then show ?thesis
  proof cases
    case 1
    with grouped_mem [of as_insert mods, OF _ 1(2)] gm that(1) show ?thesis by simp
  next
    case 2
    with grouped_mem [of as_overwrite mods, OF _ 2(2)] gm that(2) show ?thesis by simp
  next
    case 3
    with grouped_mem [of as_removal mods, OF _ 3(2)] gm that(3) show ?thesis by simp
  qed
qed

datatype kind = Kind_Insert | Kind_Overwrite | Kind_Remove

fun mod_kind :: "EntityModification \<Rightarrow> kind" where
  "mod_kind (Insert _ _) = Kind_Insert"
| "mod_kind (Overwrite _ _) = Kind_Overwrite"
| "mod_kind (Remove _) = Kind_Remove"

fun op_kind :: "group_op \<Rightarrow> kind" where
  "op_kind (Op_Insert _ _) = Kind_Insert"
| "op_kind (Op_Overwrite _ _) = Kind_Overwrite"
| "op_kind (Op_Remove _ _) = Kind_Remove"

lemma group_op_unique:
  assumes "p \<in> set (group_ops (group_modifications mods))" and "q \<in> set (group_ops (group_modifications mods))"
    and "op_type p = op_type q" and "op_kind p = op_kind q"
  shows "p = q"
  using assms by (auto elim!: group_ops_cases)

lemma group_op_effect:
  assumes "op \<in> set (group_ops (group_modifications mods))" and "i \<in> dom (op_effect op)"
  shows "\<exists>md \<in> set mods. mod_id md = (op_type op, i) \<and> mod_kind md = op_kind op"
  using assms(1)
proof (cases rule: group_ops_cases)
  case (1 ty)
  with assms(2) obtain key e where "Insert key e \<in> set mods" "entity_type key = ty" "entity_id key = i"
    by (auto simp: dom_puts in_map_filter as_Some_iff simp del: domIff)
  with 1 show ?thesis by (intro bexI [of _ "Insert key e"]) (simp_all add: mod_id_def)
next
  case (2 ty)
  with assms(2) obtain key e where "Overwrite key e \<in> set mods" "entity_type key = ty" "entity_id key = i"
    by (auto simp: dom_puts in_map_filter as_Some_iff simp del: domIff)
  with 2 show ?thesis by (intro bexI [of _ "Overwrite key e"]) (simp_all add: mod_id_def)
next
  case (3 ty)
  with assms(2) obtain key where "Remove key \<in> set mods" "entity_type key = ty" "entity_id key = i"
    by (auto simp: dom_removes in_map_filter as_Some_iff simp del: domIff)
  with 3 show ?thesis by (intro bexI [of _ "Remove key"]) (simp_all add: mod_id_def)
qed

lemma group_op_write:
  assumes "op \<in> set (group_ops (group_modifications mods))" and "x \<in> set (op_writes op)"
  shows "\<exists>md \<in> set mods. entity_key md = fst x \<and> modified_entity md = Some (snd x) \<and>
    entity_type (fst x) = op_type op \<and> mod_kind md = op_kind op"
  using assms(1)
proof (cases rule: group_ops_cases)
  case (1 ty)
  with assms(2) show ?thesis by (force simp: in_map_filter as_Some_iff)
next
  case (2 ty)
  with assms(2) show ?thesis by (force simp: in_map_filter as_Some_iff)
next
  case (3 ty)
  with assms(2) show ?thesis by simp
qed

lemma group_ops_compatible:
  assumes "mods_ready info layout b d mods"
    and p: "p \<in> set (group_ops (group_modifications mods))" and q: "q \<in> set (group_ops (group_modifications mods))" and "p \<noteq> q"
  shows "compatible info p q"
  unfolding compatible_def
proof (intro conjI impI ballI allI notI)
  assume ty: "op_type p = op_type q"
  then have kind: "op_kind p \<noteq> op_kind q" using group_op_unique [OF p q ty] assms(4) by blast
  show "dom (op_effect p) \<inter> dom (op_effect q) = {}"
  proof (rule equals0I)
    fix i assume "i \<in> dom (op_effect p) \<inter> dom (op_effect q)"
    with group_op_effect [OF p] group_op_effect [OF q] obtain a c where
      "a \<in> set mods" "c \<in> set mods" "mod_id a = mod_id c" "mod_kind a = op_kind p" "mod_kind c = op_kind q"
      using ty by fastforce
    then show False using kind same_mod [of mods a c] assms(1) by (auto simp: mods_ready_def)
  qed
next
  fix x types
  assume x: "x \<in> set (op_writes q)" "shared_interface_types info (entity_type (fst x)) = Inr types" "op_type p \<in> set types"
    "entity_id (fst x) \<in> (\<lambda>x. entity_id (fst x)) ` set (op_writes p)"
  then obtain y where y: "y \<in> set (op_writes p)" "entity_id (fst x) = entity_id (fst y)" by auto
  obtain a where a: "a \<in> set mods" "entity_key a = fst x" "modified_entity a \<noteq> None"
    using group_op_write [OF q x(1)] by auto
  obtain c where c: "c \<in> set mods" "entity_key c = fst y" "modified_entity c \<noteq> None" "entity_type (fst y) = op_type p"
    using group_op_write [OF p y(1)] by auto
  show False
    using assms(1) a c x(2,3) y(2) unfolding mods_ready_def by metis
qed

lemma map_filter_nonempty: "List.map_filter f xs \<noteq> [] \<Longrightarrow> \<exists>x \<in> set xs. \<exists>y. f x = Some y"
proof -
  assume "List.map_filter f xs \<noteq> []"
  then obtain y where "y \<in> set (List.map_filter f xs)" by (cases "List.map_filter f xs") auto
  then show ?thesis by (auto simp: in_map_filter)
qed

lemma group_ops_ready:
  assumes "mods_ready info layout b d mods" and "op \<in> set (group_ops (group_modifications mods))"
  shows "op_ready info layout b d op"
proof -
  have dist: "distinct (map mod_id mods)" and each: "\<And>md. md \<in> set mods \<Longrightarrow> mod_ready info layout b d md"
    using assms(1) by (simp_all add: mods_ready_def)
  from assms(2) show ?thesis
  proof (cases rule: group_ops_cases)
    case (1 ty)
    let ?es = "List.map_filter (as_insert ty) mods"
    have mem: "Insert (fst x) (snd x) \<in> set mods \<and> entity_type (fst x) = ty" if "x \<in> set ?es" for x
      using that by (auto simp: in_map_filter as_Some_iff)
    obtain t where t: "hm_get (tables layout) ty = Some t"
      using map_filter_nonempty [OF 1(2)] each by (force simp: as_Some_iff)
    have "mod_ready info layout b d (Insert (fst x) (snd x))" "entity_type (fst x) = ty" if "x \<in> set ?es" for x
      using mem [OF that] each by blast+
    then have ready: "entity_fits (layout_hex layout) t (entity_id (fst x)) (snd x) \<and> conflict_free info layout d (fst x) \<and>
        table_history layout d ty (entity_id (fst x)) b = None" if "x \<in> set ?es" for x
      using that t by fastforce
    have "batch_ok layout t ?es"
      using distinct_groups(1) [OF dist] ready by (auto simp: batch_ok_def)
    with ready t 1 show ?thesis by simp
  next
    case (2 ty)
    let ?es = "List.map_filter (as_overwrite ty) mods"
    have mem: "Overwrite (fst x) (snd x) \<in> set mods \<and> entity_type (fst x) = ty" if "x \<in> set ?es" for x
      using that by (auto simp: in_map_filter as_Some_iff)
    obtain t where t: "hm_get (tables layout) ty = Some t" "\<not> immutable t"
      using map_filter_nonempty [OF 2(2)] each by (force simp: as_Some_iff)
    have "mod_ready info layout b d (Overwrite (fst x) (snd x))" "entity_type (fst x) = ty" if "x \<in> set ?es" for x
      using mem [OF that] each by blast+
    then have ready: "entity_fits (layout_hex layout) t (entity_id (fst x)) (snd x) \<and> conflict_free info layout d (fst x) \<and>
        table_history layout d ty (entity_id (fst x)) b \<noteq> None" if "x \<in> set ?es" for x
      using that t by fastforce
    have "batch_ok layout t ?es"
      using distinct_groups(2) [OF dist] ready by (auto simp: batch_ok_def)
    with ready t 2 show ?thesis by simp
  next
    case (3 ty)
    obtain t where "hm_get (tables layout) ty = Some t" "\<not> immutable t"
      using map_filter_nonempty [OF 3(2)] each by (force simp: as_Some_iff)
    with 3 distinct_groups(3) [OF dist] show ?thesis by simp
  qed
qed

lemma distinct_ops:
  assumes "hm_wf m" and "\<And>ty x. op_type (f (ty, x)) = ty"
  shows "distinct (map f m)"
proof -
  have "map op_type (map f m) = map fst m" using assms(2) by (auto simp: comp_def)
  with assms(1) have "distinct (map op_type (map f m))" by presburger
  then show ?thesis unfolding distinct_map by blast
qed

lemma distinct_group_ops: "distinct (group_ops (group_modifications mods))"
proof -
  note gm = group_modifications_grouped [of mods, unfolded grouped_def]
  have "distinct (map (\<lambda>(ty, es). Op_Insert ty es) (inserts (group_modifications mods)))"
    "distinct (map (\<lambda>(ty, es). Op_Overwrite ty es) (overwrites (group_modifications mods)))"
    "distinct (map (\<lambda>(ty, ids). Op_Remove ty ids) (removals (group_modifications mods)))"
    using gm by (auto intro!: distinct_ops)
  then show ?thesis unfolding group_ops_def by auto
qed

lemma sorted_wrt_pairwise: "distinct xs \<Longrightarrow> (\<And>x y. x \<in> set xs \<Longrightarrow> y \<in> set xs \<Longrightarrow> x \<noteq> y \<Longrightarrow> P x y) \<Longrightarrow> sorted_wrt P xs"
  by (induction xs) auto

lemma apply_entity_modifications_spec:
  assumes "layout_inv layout head d" and "head \<le> b" and "b < 2147483647" and "ptr_number ptr = b"
    and "mods_ready info layout b d mods"
  shows "\<exists>d'. apply_entity_modifications info layout mods ptr d =
        Inr (i32 (entity_total layout d' b - entity_total layout d b), d') \<and>
      layout_inv layout b d' \<and> (\<forall>ty. table_history layout d' ty = change b (mods_effect mods ty) (table_history layout d ty))"
proof -
  have "\<forall>op \<in> set (group_ops (group_modifications mods)). op_ready info layout b d op"
    using group_ops_ready [OF assms(5)] by blast
  moreover have "sorted_wrt (compatible info) (group_ops (group_modifications mods))"
    using group_ops_compatible [OF assms(5)] by (intro sorted_wrt_pairwise distinct_group_ops) auto
  moreover have "distinct (map mod_id mods)" using assms(5) by (simp add: mods_ready_def)
  moreover have "i32 0 = 0" by (simp add: i32_def)
  ultimately show ?thesis
    using run_ops_spec [OF assms(1-4), of "group_ops (group_modifications mods)" info 0]
    by (simp add: apply_entity_modifications_ops group_ops_mods_effect)
qed

lemma count_query_total:
  assumes "layout_inv layout head d" and "head \<le> b"
  shows "count_query layout d = entity_total layout d b"
proof -
  have "int (length (if immutable t then d ty else filter (holds BLOCK_RANGE_CURRENT) (d ty))) =
      int (card {i. table_history layout d ty i b \<noteq> None})" if "(ty, t) \<in> set (tables layout)" for ty t
  proof -
    have get: "hm_get (tables layout) ty = Some t" using assms(1) that by (simp add: layout_inv_def)
    note tab = layout_inv_table [OF assms(1) get]
    have ok: "block_ok (immutable t) head (row_block r)" if "r \<in> set (d ty)" for r
      using tab(3) that by (simp add: table_inv_def)
    have "{i. table_history layout d ty i b \<noteq> None} = live (d ty) b"
      using get by (simp add: table_history_def live_stored [of _ _ t])
    moreover have "filter (\<lambda>r. row_contains r b) (d ty) = (if immutable t then d ty else filter (holds BLOCK_RANGE_CURRENT) (d ty))"
    proof (cases "immutable t")
      case True
      have "row_contains r b" if "r \<in> set (d ty)" for r
        using ok [OF that] True assms(2) by (auto simp: block_ok_def row_contains_def split: block_value.splits)
      with True show ?thesis by (simp add: filter_id_conv)
    next
      case False
      with current_row [OF tab(3) _ assms(2)] show ?thesis by (simp cong: filter_cong)
    qed
    ultimately show ?thesis using card_live [OF tab(3)] by simp
  qed
  then have "map (\<lambda>(ty, t). int (length (if immutable t then d ty else filter (holds BLOCK_RANGE_CURRENT) (d ty)))) (tables layout) =
      map (\<lambda>(ty, t). int (card {i. table_history layout d ty i b \<noteq> None})) (tables layout)"
    by (intro map_cong) auto
  then show ?thesis unfolding count_query_def entity_total_def by (rule arg_cong)
qed

end
