(* ===== verification/Store_Transactions.thy ===== *)
theory Store_Transactions
  imports Store_Writes
begin

text \<open>
  The transactions of \<^verbatim>\<open>store/postgres/src/deployment_store.rs\<close>: what transacting a block, reverting
  blocks, failing and unfailing do to the entities, the block pointer, the data sources, the
  errors, the health and the entity count of a deployment.
\<close>

section \<open>The invariant of a deployment\<close>

definition store_ok :: "Layout \<Rightarrow> Site \<Rightarrow> store \<Rightarrow> subgraph_deployment \<Rightarrow> int \<Rightarrow> bool" where
  "store_ok layout site s d head \<longleftrightarrow>
     layout_inv layout head (entities s) \<and> site_row (meta s) site d \<and>
     (case d_latest_number d of Some n \<Rightarrow> n = head | None \<Rightarrow> True) \<and>
     errors_ok (meta s) (s_deployment site) head \<and> data_sources_ok (meta s) (s_deployment site) head \<and>
     d_health d = health_after (has_non_fatal_errors (meta s) (s_deployment site) (Some head)) (d_health d)"

text \<open>The stored entity count: \<open>- 1\<close> asks for a recount.\<close>

definition count_ok :: "Layout \<Rightarrow> store \<Rightarrow> subgraph_deployment \<Rightarrow> int \<Rightarrow> bool" where
  "count_ok layout s d head \<longleftrightarrow> d_entity_count d = - 1 \<or> d_entity_count d = entity_total layout (entities s) head"

definition block_input_ok ::
  "SubgraphInfo \<Rightarrow> Layout \<Rightarrow> Site \<Rightarrow> BlockPtr \<Rightarrow> EntityModification list \<Rightarrow> StoredDynamicDataSource list \<Rightarrow>
   SubgraphError list \<Rightarrow> store \<Rightarrow> bool" where
  "block_input_ok info layout site ptr mods dss errs s \<longleftrightarrow>
     mods_ready info layout (ptr_number ptr) (entities s) mods \<and>
     (\<forall>md \<in> set mods. subgraph_id (entity_key md) = s_deployment site) \<and>
     (\<forall>ds \<in> set dss. \<exists>a. src_address (sds_source ds) = Some a \<and> length a = 20) \<and>
     (\<forall>err \<in> set errs. err_block_ptr err = Some ptr \<and> err_subgraph_id err = s_deployment site)"

lemma table_history_stable:
  assumes "layout_inv layout head d" and "head \<le> b" and "b \<le> c"
  shows "table_history layout d ty i c = table_history layout d ty i b"
proof (cases "hm_get (tables layout) ty")
  case (Some t)
  have "version (d ty) i c = version (d ty) i b"
    by (rule version_stable [OF layout_inv_table(3) [OF assms(1) Some] assms(2,3)])
  with Some show ?thesis by (simp add: table_history_def stored_def)
qed (simp add: table_history_def)

lemma entity_total_stable:
  assumes "layout_inv layout head d" and "head \<le> b"
  shows "entity_total layout d b = entity_total layout d head"
  unfolding entity_total_def table_history_stable [OF assms(1) order_refl assms(2)] ..

section \<open>Transacting a block\<close>

lemma errors_ok_mono: "errors_ok m i head \<Longrightarrow> head \<le> b \<Longrightarrow> errors_ok m i b"
  by (fastforce simp: errors_ok_def)

lemma errors_ok_append:
  assumes "errors_ok m i head" and "head \<le> b" and "\<forall>e \<in> set new. e_block_range e = Range (Some b) None"
    and "errors m' = errors m @ new"
  shows "errors_ok m' i b"
  using assms by (fastforce simp: errors_ok_def)

lemma data_sources_ok_insert:
  assumes ok: "data_sources_ok m i head" and "head \<le> ptr_number ptr" and "is_i32 (ptr_number ptr)"
    and addr: "\<forall>ds \<in> set dss. \<exists>a. src_address (sds_source ds) = Some a \<and> length a = 20"
    and m': "data_sources m' = data_sources m @ new_data_sources i ptr (vid_seq m) dss"
      "vid_seq m' = vid_seq m + int (length dss)"
  shows "data_sources_ok m' i (ptr_number ptr)"
proof -
  let ?new = "new_data_sources i ptr (vid_seq m) dss"
  note new = new_data_sources_all [of _ i ptr "vid_seq m" dss]
  have len: "length (c_address c) = 20" if "c \<in> set ?new" for c
  proof -
    from that obtain k ds where "(k, ds) \<in> set (enumerate 0 dss)" "c_address c = the (src_address (sds_source ds))"
      by (auto simp: new_data_sources_def)
    moreover from this(1) have "ds \<in> set (map snd (enumerate 0 dss))"
      unfolding set_map by (rule image_eqI [rotated]) simp
    ultimately show ?thesis using addr by auto
  qed
  have "map c_vid ?new = map (\<lambda>k. vid_seq m + int k) (map fst (enumerate 0 dss))"
    unfolding new_data_sources_def map_map by (rule map_cong) auto
  then have vids: "sorted (map c_vid ?new)" by (simp add: sorted_iff_nth_mono)
  have below: "c_vid c < vid_seq m" if "c \<in> set (data_sources m)" for c using ok that by (simp add: data_sources_ok_def)
  have nums: "map c_block_number ?new = replicate (length ?new) (ptr_number ptr)"
    using new by (intro replicate_eqI) auto
  have mine: "filter (\<lambda>c. c_deployment c = i) ?new = ?new" using new by (simp add: filter_id_conv)
  have old: "c_block_number c \<le> head" if "c \<in> set (data_sources m)" "c_deployment c = i" for c
    using ok that by (simp add: data_sources_ok_def)
  show ?thesis
    unfolding data_sources_ok_def m'
  proof (intro conjI ballI impI)
    have "c_vid c \<le> c_vid c'" if "c \<in> set (data_sources m)" "c' \<in> set ?new" for c c'
      using below [OF that(1)] new [OF that(2)] by simp
    then show "sorted (map c_vid (data_sources m @ ?new))"
      using ok vids by (simp add: data_sources_ok_def sorted_append)
    have "c_block_number c \<le> ptr_number ptr" if "c \<in> set (data_sources m)" "c_deployment c = i" for c
      using old [OF that] assms(2) by simp
    then show "sorted (map c_block_number (filter (\<lambda>c. c_deployment c = i) (data_sources m @ ?new)))"
      using ok by (simp add: data_sources_ok_def sorted_append mine nums)
  next
    fix c assume "c \<in> set (data_sources m @ ?new)"
    then consider "c \<in> set (data_sources m)" | "c \<in> set ?new" by auto
    then show "c_vid c < vid_seq m + int (length dss)"
      using below [of c] new [of c] by cases simp_all
    assume i: "c_deployment c = i"
    show "c_block_number c \<le> ptr_number ptr"
      using \<open>c \<in> set (data_sources m @ ?new)\<close> old [of c] new [of c] assms(2) i by auto
    show "is_i32 (c_block_number c)" "length (c_address c) = 20"
      using \<open>c \<in> set (data_sources m @ ?new)\<close> ok new [of c] len [of c] assms(3) i by (auto simp: data_sources_ok_def)
  qed
qed

lemma health_after_idem [simp]: "health_after x (health_after y hl) = health_after x hl"
  by (simp add: health_after_def)

text \<open>The metadata after the errors of a block: the new rows, and the health that goes with them.\<close>

lemma block_errors_spec:
  assumes row: "site_row m site d" and eok: "errors_ok m (s_deployment site) head" and "head \<le> ptr_number ptr"
    and errs: "\<forall>err \<in> set errs. err_block_ptr err = Some ptr \<and> err_subgraph_id err = s_deployment site"
    and health: "d_health d = health_after (has_non_fatal_errors m (s_deployment site) (Some head)) (d_health d)"
  shows "\<exists>new. (if errs = [] then Inr m else insert_subgraph_errors h (s_deployment site) errs (ptr_number ptr) m) =
      Inr (put_row site (d\<lparr>d_health := health_after (has_non_fatal_errors (m\<lparr>errors := errors m @ new\<rparr>)
        (s_deployment site) (Some (ptr_number ptr))) (d_health d)\<rparr>) (m\<lparr>errors := errors m @ new\<rparr>)) \<and>
    (\<forall>e \<in> set new. e_subgraph_id e = s_deployment site \<and> e_block_range e = Range (Some (ptr_number ptr)) None)"
proof (cases "errs = []")
  case True
  have "has_non_fatal_errors (m\<lparr>errors := errors m @ []\<rparr>) (s_deployment site) (Some (ptr_number ptr)) =
      has_non_fatal_errors m (s_deployment site) (Some head)"
    using has_non_fatal_errors_stable [OF eok assms(3)] by (simp add: has_non_fatal_errors_Some)
  then have "d\<lparr>d_health := health_after (has_non_fatal_errors (m\<lparr>errors := errors m @ []\<rparr>)
      (s_deployment site) (Some (ptr_number ptr))) (d_health d)\<rparr> = d"
    using health by (simp add: row_health_same)
  with True show ?thesis
    using put_row_same [OF row] by (intro exI [of _ "[]"]) simp
next
  case False
  obtain new where new: "try_fold (\<lambda>err m1. and_then (insert_subgraph_error h err m1) (\<lambda>(_, m2). Inr m2)) errs m =
        Inr (m\<lparr>errors := errors m @ new\<rparr>)"
      "\<forall>e \<in> set new. e_subgraph_id e = s_deployment site \<and> e_block_range e = Range (Some (ptr_number ptr)) None"
    using insert_errors_spec [OF errs, of h m] by blast
  have "site_row (m\<lparr>errors := errors m @ new\<rparr>) site d" using row by (simp add: site_row_def)
  from check_health_row [OF this] new False show ?thesis
    by (intro exI [of _ new]) (simp add: insert_subgraph_errors_def)
qed

lemma transact_spec:
  assumes ok: "store_ok layout site s d head" and b: "head < ptr_number ptr" "0 \<le> ptr_number ptr" "ptr_number ptr < 2147483647"
    and inp: "block_input_ok info layout site ptr mods dss errs s"
  shows "\<exists>s' d' new. transact_block_operations h nt info layout site ptr cursor mods dss errs s =
        Inr (event_from_modifications nt mods, s') \<and>
      store_ok layout site s' d' (ptr_number ptr) \<and>
      (\<forall>ty. table_history layout (entities s') ty =
         change (ptr_number ptr) (mods_effect mods ty) (table_history layout (entities s) ty)) \<and>
      d_latest_number d' = Some (ptr_number ptr) \<and> d_latest_hash d' = Some (ptr_hash ptr) \<and>
      d_reorg_count d' = d_reorg_count d \<and> d_current_reorg_depth d' = 0 \<and>
      (d_health d = Failed \<longleftrightarrow> d_health d' = Failed) \<and>
      data_sources (meta s') = data_sources (meta s) @ new_data_sources (s_deployment site) ptr (vid_seq (meta s)) dss \<and>
      errors (meta s') = errors (meta s) @ new \<and>
      (\<forall>e \<in> set new. e_subgraph_id e = s_deployment site \<and> e_block_range e = Range (Some (ptr_number ptr)) None) \<and>
      (count_ok layout s d head \<longrightarrow>
       is_i32 (entity_total layout (entities s') (ptr_number ptr) - entity_total layout (entities s) head) \<longrightarrow>
       count_ok layout s' d' (ptr_number ptr))"
proof -
  let ?b = "ptr_number ptr" and ?i = "s_deployment site" and ?m = "meta s"
  have inv: "layout_inv layout head (entities s)" and row: "site_row ?m site d"
    and latest: "case d_latest_number d of Some n \<Rightarrow> n = head | None \<Rightarrow> True"
    and eok: "errors_ok ?m ?i head" and dok: "data_sources_ok ?m ?i head"
    and health: "d_health d = health_after (has_non_fatal_errors ?m ?i (Some head)) (d_health d)"
    using ok by (simp_all add: store_ok_def)
  have hb: "head \<le> ?b" using b(1) by simp
  have mods: "mods_ready info layout ?b (entities s) mods" "\<not> list_ex (\<lambda>md. subgraph_id (entity_key md) \<noteq> ?i) mods"
    and addr: "\<forall>ds \<in> set dss. \<exists>a. src_address (sds_source ds) = Some a \<and> length a = 20"
    and errs: "\<forall>err \<in> set errs. err_block_ptr err = Some ptr \<and> err_subgraph_id err = ?i"
    using inp by (auto simp: block_input_ok_def list_ex_iff)
  obtain d1 where d1: "apply_entity_modifications info layout mods ptr (entities s) =
        Inr (i32 (entity_total layout d1 ?b - entity_total layout (entities s) ?b), d1)" "layout_inv layout ?b d1"
      "\<forall>ty. table_history layout d1 ty = change ?b (mods_effect mods ty) (table_history layout (entities s) ty)"
    using apply_entity_modifications_spec [OF inv hb b(3) refl mods(1)] by blast
  let ?count = "i32 (entity_total layout d1 ?b - entity_total layout (entities s) ?b)"
  define m1 where "m1 = ?m\<lparr>data_sources := data_sources ?m @ new_data_sources ?i ptr (vid_seq ?m) dss,
    vid_seq := vid_seq ?m + int (length dss)\<rparr>"
  have dds: "dds_insert ?i dss ptr ?m = Inr (length dss, m1)"
    unfolding m1_def using addr by (intro dds_insert_spec) auto
  have m1: "site_row m1 site d" "errors m1 = errors ?m" using row by (simp_all add: m1_def site_row_def)
  have "errors_ok m1 ?i head" using eok m1(2) by (simp add: errors_ok_def)
  moreover have "d_health d = health_after (has_non_fatal_errors m1 ?i (Some head)) (d_health d)"
    using health has_non_fatal_errors_cong [OF m1(2)] by simp
  ultimately obtain new where new: "(if errs = [] then Inr m1 else insert_subgraph_errors h ?i errs ?b m1) =
      Inr (put_row site (d\<lparr>d_health := health_after (has_non_fatal_errors (m1\<lparr>errors := errors m1 @ new\<rparr>) ?i (Some ?b)) (d_health d)\<rparr>)
        (m1\<lparr>errors := errors m1 @ new\<rparr>))"
      "\<forall>e \<in> set new. e_subgraph_id e = ?i \<and> e_block_range e = Range (Some ?b) None"
    using block_errors_spec [OF m1(1) _ hb errs, of h] by blast
  define hl where "hl = health_after (has_non_fatal_errors (m1\<lparr>errors := errors m1 @ new\<rparr>) ?i (Some ?b)) (d_health d)"
  define m2 where "m2 = put_row site (d\<lparr>d_health := hl\<rparr>) (m1\<lparr>errors := errors m1 @ new\<rparr>)"
  have dd: "d_id d = s_id site" "d_deployment d = ?i" using row by (simp_all add: site_row_def)
  have "site_row (m1\<lparr>errors := errors m1 @ new\<rparr>) site d" using m1(1) by (simp add: site_row_def)
  then have row2: "site_row m2 site (d\<lparr>d_health := hl\<rparr>)" unfolding m2_def using dd by (intro site_row_put) simp_all
  define d' where "d' = d\<lparr>d_health := hl, d_latest_number := Some ?b, d_latest_hash := Some (ptr_hash ptr),
       d_firehose_cursor := (if cursor = Some '''' then None else cursor),
       d_entity_count := (if ?count = 0 then d_entity_count d else entity_count_sql (count_query layout d1) ?count (d_entity_count d)),
       d_current_reorg_depth := 0\<rparr>"
  have "is_behind (d\<lparr>d_health := hl\<rparr>) ?b" using latest b(1) by (auto simp: is_behind_def split: option.splits)
  from transact_block_row [OF row2 this]
  have tb: "transact_block site ptr cursor (count_query layout d1) ?count m2 = Inr (put_row site d' m2)"
    by (simp add: d'_def)
  define s' where "s' = s\<lparr>entities := d1, meta := put_row site d' m2\<rparr>"
  have run: "transact_block_operations h nt info layout site ptr cursor mods dss errs s =
      Inr (event_from_modifications nt mods, s')"
    using mods(2) d1(1) dds new(1) tb
    by (simp add: transact_block_operations_def s'_def m2_def hl_def Let_def)
  have e2: "errors (put_row site d' m2) = errors ?m @ new" by (simp add: m2_def m1(2))
  have "site_row (put_row site d' m2) site d'" using row2 dd by (intro site_row_put) (simp_all add: d'_def)
  moreover have "errors_ok (put_row site d' m2) ?i ?b"
    using errors_ok_append [OF eok hb _ e2] new(2) by blast
  moreover have "data_sources_ok (put_row site d' m2) ?i ?b"
    using b by (intro data_sources_ok_insert [OF dok hb _ addr]) (simp_all add: m2_def m1_def is_i32_def)
  moreover have "d_health d' = health_after (has_non_fatal_errors (put_row site d' m2) ?i (Some ?b)) (d_health d')"
    by (simp add: d'_def hl_def has_non_fatal_errors_Some m2_def)
  ultimately have "store_ok layout site s' d' ?b"
    using d1(2) by (simp add: store_ok_def s'_def) (simp add: d'_def)
  moreover have "count_ok layout s' d' ?b" if "count_ok layout s d head"
    "is_i32 (entity_total layout (entities s') ?b - entity_total layout (entities s) head)"
  proof -
    have tot: "entity_total layout (entities s) ?b = entity_total layout (entities s) head"
      by (rule entity_total_stable [OF inv hb])
    have "?count = entity_total layout d1 ?b - entity_total layout (entities s) head"
      using that(2) by (simp add: tot i32_id s'_def)
    with that(1) count_query_total [OF d1(2) order_refl] show ?thesis
      by (auto simp: count_ok_def s'_def d'_def entity_count_sql_def)
  qed
  moreover have "d_health d = Failed \<longleftrightarrow> d_health d' = Failed" by (auto simp: d'_def hl_def health_after_def)
  ultimately show ?thesis
    using run d1(3) new(2) e2
    by (intro exI [of _ s'] exI [of _ d'] exI [of _ new]) (simp add: s'_def m2_def m1_def, simp add: d'_def)
qed

section \<open>Reverting blocks\<close>

definition kept_errors :: "string \<Rightarrow> int \<Rightarrow> subgraph_error list \<Rightarrow> subgraph_error list" where
  "kept_errors i block = filter (\<lambda>e. \<not> (e_subgraph_id e = i \<and>
     (case range_lower (e_block_range e) of Some l \<Rightarrow> block \<le> l | None \<Rightarrow> False)))"

definition kept_data_sources :: "string \<Rightarrow> int \<Rightarrow> contract_data_source list \<Rightarrow> contract_data_source list" where
  "kept_data_sources i block = filter (\<lambda>c. \<not> (c_deployment c = i \<and> block \<le> c_block_number c))"

lemma kept_errors_ok:
  assumes "errors_ok m i head" and "errors m' = kept_errors i (t + 1) (errors m)"
  shows "errors_ok m' i t"
  using assms by (fastforce simp: errors_ok_def kept_errors_def)

lemma kept_data_sources_ok:
  assumes "data_sources_ok m i head" and "data_sources m' = kept_data_sources i (t + 1) (data_sources m)" and "vid_seq m' = vid_seq m"
  shows "data_sources_ok m' i t"
proof -
  have "filter (\<lambda>c. c_deployment c = i) (data_sources m') =
      filter (\<lambda>c. \<not> t + 1 \<le> c_block_number c) (filter (\<lambda>c. c_deployment c = i) (data_sources m))"
    unfolding assms(2) kept_data_sources_def filter_filter by (intro filter_cong) auto
  then have "sorted (map c_block_number (filter (\<lambda>c. c_deployment c = i) (data_sources m')))"
    using assms(1) by (simp add: data_sources_ok_def sorted_map_filter_key del: filter_filter)
  moreover have "sorted (map c_vid (data_sources m'))"
    using assms(1,2) by (simp add: data_sources_ok_def kept_data_sources_def sorted_map_filter_key)
  ultimately show ?thesis
    using assms by (auto simp: data_sources_ok_def kept_data_sources_def)
qed

lemma revert_metadata_row:
  assumes "site_row m site d" and "is_i32 t"
  defines "m1 \<equiv> m\<lparr>data_sources := kept_data_sources (s_deployment site) (t + 1) (data_sources m),
      errors := kept_errors (s_deployment site) (t + 1) (errors m)\<rparr>"
  shows "revert_metadata (s_deployment site) (t + 1) m =
    put_row site (d\<lparr>d_health := health_after (has_non_fatal_errors m1 (s_deployment site) (Some t)) (d_health d)\<rparr>) m1"
proof -
  have row: "site_row m1 site d" using assms(1) by (simp add: m1_def site_row_def)
  have "revert_metadata (s_deployment site) (t + 1) m = check_health (s_deployment site) t m1"
    using assms(2) by (simp add: revert_metadata_def revert_subgraph_errors_def dds_revert_def Let_def m1_def
        kept_errors_def kept_data_sources_def i32_id)
  with check_health_row [OF row] show ?thesis by simp
qed

lemma entity_total_live:
  assumes "layout_inv layout head d"
  shows "entity_total layout d c = (\<Sum>(ty, t) \<leftarrow> tables layout. int (card (live (d ty) c)))"
proof -
  have "{i. table_history layout d ty i c \<noteq> None} = live (d ty) c" if "(ty, t) \<in> set (tables layout)" for ty t
  proof -
    have "hm_get (tables layout) ty = Some t" using assms that by (simp add: layout_inv_def)
    then show ?thesis by (simp add: table_history_def live_stored [of _ _ t])
  qed
  then have "map (\<lambda>(ty, t). int (card {i. table_history layout d ty i c \<noteq> None})) (tables layout) =
      map (\<lambda>(ty, t). int (card (live (d ty) c))) (tables layout)"
    by (intro map_cong) auto
  then show ?thesis unfolding entity_total_def by (rule arg_cong)
qed

lemma count_change_total:
  assumes "layout_inv layout b d"
  shows "(\<Sum>(ty, t) \<leftarrow> tables layout. count_change b (d ty)) = entity_total layout d (b - 1) - entity_total layout d b"
proof -
  have cc: "count_change b (d ty) = int (card (live (d ty) (b - 1))) - int (card (live (d ty) b))"
    if "(ty, t) \<in> set (tables layout)" for ty t
    using assms that by (intro count_change_head) (auto simp: layout_inv_def)
  have sub: "(\<Sum>(ty, t) \<leftarrow> xs. f ty - g ty) = (\<Sum>(ty, t) \<leftarrow> xs. f ty) - (\<Sum>(ty, t) \<leftarrow> xs. g ty)"
    for f g :: "string \<Rightarrow> int" and xs :: "(string \<times> Table) list"
    by (induction xs) auto
  have "map (\<lambda>(ty, t). count_change b (d ty)) (tables layout) =
      map (\<lambda>(ty, t). int (card (live (d ty) (b - 1))) - int (card (live (d ty) b))) (tables layout)"
    using cc by (intro map_cong) auto
  then have "(\<Sum>(ty, t) \<leftarrow> tables layout. count_change b (d ty)) =
      (\<Sum>(ty, t) \<leftarrow> tables layout. int (card (live (d ty) (b - 1))) - int (card (live (d ty) b)))"
    by (rule arg_cong)
  then show ?thesis unfolding entity_total_live [OF assms] sub .
qed

lemma rewind_spec:
  assumes ok: "store_ok layout site s d head" and t: "t = ptr_number to" "is_i32 t" "is_i32 (t + 1)"
    and graft: "case info_graft_block info of Some g \<Rightarrow> g \<le> t | None \<Rightarrow> True"
    and counters: "is_i32 (d_reorg_count d + 1)" "is_i32 (d_current_reorg_depth d + 1)"
  shows "\<exists>ev s' d'. rewind_with_conn nt info layout site to cursor s = Inr (ev, s') \<and>
      store_ok layout site s' d' t \<and>
      (\<forall>ty i c. table_history layout (entities s') ty i c = table_history layout (entities s) ty i (min c t)) \<and>
      d_latest_number d' = Some t \<and> d_latest_hash d' = Some (ptr_hash to) \<and>
      d_reorg_count d' = d_reorg_count d + 1 \<and> d_current_reorg_depth d' = d_current_reorg_depth d + 1 \<and>
      (d_health d = Failed \<longleftrightarrow> d_health d' = Failed) \<and>
      data_sources (meta s') = kept_data_sources (s_deployment site) (t + 1) (data_sources (meta s)) \<and>
      errors (meta s') = kept_errors (s_deployment site) (t + 1) (errors (meta s)) \<and>
      (t + 1 = head \<longrightarrow> count_ok layout s d head \<longrightarrow>
       is_i32 (entity_total layout (entities s) t - entity_total layout (entities s) head) \<longrightarrow> count_ok layout s' d' t)"
proof -
  let ?i = "s_deployment site" and ?m = "meta s"
  have inv: "layout_inv layout head (entities s)" and row: "site_row ?m site d"
    and eok: "errors_ok ?m ?i head" and dok: "data_sources_ok ?m ?i head"
    using ok by (simp_all add: store_ok_def)
  have dd: "d_id d = s_id site" "d_deployment d = ?i" using row by (simp_all add: site_row_def)
  define d1 where "d1 = d\<lparr>d_latest_number := Some t, d_latest_hash := Some (ptr_hash to),
    d_reorg_count := d_reorg_count d + 1, d_current_reorg_depth := d_current_reorg_depth d + 1,
    d_max_reorg_depth := max (d_current_reorg_depth d + 1) (d_max_reorg_depth d)\<rparr>"
  define d2 where "d2 = (case cursor of Some c \<Rightarrow> d1\<lparr>d_firehose_cursor := Some c\<rparr> | None \<Rightarrow> d1)"
  have ids: "d_id d1 = s_id site" "d_deployment d1 = ?i" "d_id d2 = s_id site" "d_deployment d2 = ?i"
    using dd by (simp_all add: d1_def d2_def split: option.splits)
  have m1: "revert_block_ptr ?i to ?m = Inr (put_row site d1 ?m)"
    using revert_block_ptr_row [OF row counters, of to] t(1) by (simp add: d1_def)
  have row1: "site_row (put_row site d1 ?m) site d1" using row ids by (intro site_row_put) simp_all
  have m2: "(case cursor of Some c \<Rightarrow> update_firehose_cursor ?i c (put_row site d1 ?m) | None \<Rightarrow> put_row site d1 ?m) =
      put_row site d2 ?m"
    using update_firehose_cursor_row [OF row1] ids by (simp add: d2_def put_row_put split: option.splits)
  have row2: "site_row (put_row site d2 ?m) site d2" using row ids by (intro site_row_put) simp_all
  define m3 where "m3 = (put_row site d2 ?m)\<lparr>data_sources := kept_data_sources ?i (t + 1) (data_sources ?m),
      errors := kept_errors ?i (t + 1) (errors ?m)\<rparr>"
  define d3 where "d3 = d2\<lparr>d_health := health_after (has_non_fatal_errors m3 ?i (Some t)) (d_health d2)\<rparr>"
  have rm: "revert_metadata ?i (t + 1) (put_row site d2 ?m) = put_row site d3 m3"
    using revert_metadata_row [OF row2 t(2)] by (simp add: m3_def d3_def)
  have "site_row m3 site d2" using row2 by (simp add: m3_def site_row_def)
  then have row3: "site_row (put_row site d3 m3) site d3" using ids by (intro site_row_put) (simp_all add: d3_def)
  have "is_i32 (t + 1 - 1)" using t(2) by simp
  from layout_revert_block_spec [OF inv this, of nt] obtain ev e' where
    rb: "layout_revert_block nt layout (t + 1) (entities s) =
        Inr ((ev, i32 (\<Sum>(ty, t') \<leftarrow> tables layout. count_change (t + 1) (entities s ty))), e')"
      "layout_inv layout t e'" "\<forall>ty i c. table_history layout e' ty i c = table_history layout (entities s) ty i (min c t)"
    by auto
  define count where "count = i32 (\<Sum>(ty, t') \<leftarrow> tables layout. count_change (t + 1) (entities s ty))"
  define d4 where "d4 = d3\<lparr>d_entity_count := (if count = 0 then d_entity_count d3
      else entity_count_sql (count_query layout e') count (d_entity_count d3))\<rparr>"
  have m4: "update_entity_count site (count_query layout e') count (put_row site d3 m3) = put_row site d4 m3"
  proof (cases "count = 0")
    case True
    then have "d4 = d3" by (cases d3) (simp add: d4_def)
    with True show ?thesis by (simp add: update_entity_count_def)
  next
    case False
    then show ?thesis
      using update_entity_count_row [OF row3] ids by (simp add: d4_def d3_def put_row_put)
  qed
  define s' where "s' = s\<lparr>entities := e', meta := put_row site d4 m3\<rparr>"
  have run: "rewind_with_conn nt info layout site to cursor s = Inr (ev, s')"
    using graft m1 rb(1) t m2 rm m4
    by (auto simp: rewind_with_conn_def Let_def i32_id s'_def count_def split: option.splits)
  have ids4: "d_id d4 = s_id site" "d_deployment d4 = ?i" using ids by (simp_all add: d4_def d3_def)
  have "site_row (put_row site d4 m3) site d4" using \<open>site_row m3 site d2\<close> ids4 by (rule site_row_put)
  moreover have "errors_ok (put_row site d4 m3) ?i t"
    by (rule kept_errors_ok [OF eok]) (simp add: m3_def)
  moreover have "data_sources_ok (put_row site d4 m3) ?i t"
    by (rule kept_data_sources_ok [OF dok]) (simp_all add: m3_def)
  moreover have "d_health d4 = health_after (has_non_fatal_errors (put_row site d4 m3) ?i (Some t)) (d_health d4)"
    by (simp add: d4_def d3_def has_non_fatal_errors_Some)
  moreover have "d_latest_number d4 = Some t" "d_latest_hash d4 = Some (ptr_hash to)" "d_reorg_count d4 = d_reorg_count d + 1"
      "d_current_reorg_depth d4 = d_current_reorg_depth d + 1" "d_health d = Failed \<longleftrightarrow> d_health d4 = Failed"
    by (simp_all add: d4_def d3_def d2_def d1_def health_after_def split: option.splits)
  moreover have "count_ok layout s' d4 t" if "t + 1 = head" "count_ok layout s d head"
    "is_i32 (entity_total layout (entities s) t - entity_total layout (entities s) head)"
  proof -
    have "entity_total layout e' t = entity_total layout (entities s) t"
      unfolding entity_total_def using rb(3) by simp
    moreover have "count = entity_total layout (entities s) t - entity_total layout (entities s) head"
    proof -
      have h: "head - 1 = t" using that(1) by simp
      show ?thesis
        unfolding count_def that(1) count_change_total [OF inv] h by (rule i32_id [OF that(3)])
    qed
    moreover have "d_entity_count d3 = d_entity_count d" by (simp add: d3_def d2_def d1_def split: option.splits)
    ultimately show ?thesis
      using that(2) count_query_total [OF rb(2) order_refl] by (auto simp: count_ok_def s'_def d4_def entity_count_sql_def)
  qed
  ultimately show ?thesis
    using run rb(2,3)
    by (intro exI [of _ ev] exI [of _ s'] exI [of _ d4]) (simp add: store_ok_def s'_def m3_def)
qed

end
