(* ===== verification/Store_Guarantees.thy ===== *)
theory Store_Guarantees
  imports Store_Transactions
begin

text \<open>
  What the deployment store (\<^verbatim>\<open>store/postgres/src/deployment_store.rs\<close>) promises to its callers: the effect of
  transacting a block, that reverting a block undoes it, that blocks are not processed twice, what
  failing and unfailing leave behind, and the invariant of a deployment under all of these.
\<close>

section \<open>Reading a deployment\<close>

lemma block_ptr_row:
  assumes "site_row m site d" and "d_latest_number d = Some n" and "d_latest_hash d = Some hs"
    and "length hs = 32" and "0 \<le> n" and "n < 2147483648"
  shows "block_ptr m (s_deployment site) = Inr (Some \<lparr>ptr_hash = hs, ptr_number = n\<rparr>)"
  using assms find_site_row [OF assms(1)] by (simp add: block_ptr_def detail_block_def block_ptr_from_u64_def)

lemma deployment_health_row: "site_row m site d \<Longrightarrow> deployment_health m (s_deployment site) = Inr (d_health d)"
  by (simp add: deployment_health_def find_site_row)

lemma store_ok_parts:
  assumes "store_ok layout site s d head"
  shows "layout_inv layout head (entities s)" and "site_row (meta s) site d"
    and "errors_ok (meta s) (s_deployment site) head" and "data_sources_ok (meta s) (s_deployment site) head"
  using assms by (simp_all add: store_ok_def)

lemma kept_data_sources_all:
  assumes "data_sources_ok m i head" and "head < b"
  shows "kept_data_sources i b (data_sources m @ new_data_sources i ptr v dss) =
    data_sources m @ (if b \<le> ptr_number ptr then [] else new_data_sources i ptr v dss)"
proof -
  have "filter (\<lambda>c. \<not> (c_deployment c = i \<and> b \<le> c_block_number c)) (data_sources m) = data_sources m"
    using assms by (intro filter_True) (auto simp: data_sources_ok_def)
  moreover have "filter (\<lambda>c. \<not> (c_deployment c = i \<and> b \<le> c_block_number c)) (new_data_sources i ptr v dss) =
      (if b \<le> ptr_number ptr then [] else new_data_sources i ptr v dss)"
    using new_data_sources_all [of _ i ptr v dss] by (auto simp: filter_empty_conv filter_id_conv)
  ultimately show ?thesis unfolding kept_data_sources_def filter_append by (rule arg_cong2)
qed

lemma kept_errors_all:
  assumes "\<forall>e \<in> set es. e_subgraph_id e = i \<longrightarrow> (\<exists>l u. e_block_range e = Range (Some l) u \<and> l < b)"
    and "\<forall>e \<in> set new. e_subgraph_id e = i \<and> e_block_range e = Range (Some b) None"
  shows "kept_errors i b (es @ new) = es"
proof -
  have "\<not> (e_subgraph_id e = i \<and> (case range_lower (e_block_range e) of Some l \<Rightarrow> b \<le> l | None \<Rightarrow> False))" if "e \<in> set es" for e
    using bspec [OF assms(1) that] by auto
  then have "filter (\<lambda>e. \<not> (e_subgraph_id e = i \<and> (case range_lower (e_block_range e) of Some l \<Rightarrow> b \<le> l | None \<Rightarrow> False))) es = es"
    by (intro filter_True) blast
  moreover have "filter (\<lambda>e. \<not> (e_subgraph_id e = i \<and> (case range_lower (e_block_range e) of Some l \<Rightarrow> b \<le> l | None \<Rightarrow> False))) new = []"
    using assms(2) by (auto simp: filter_empty_conv)
  ultimately show ?thesis by (simp add: kept_errors_def)
qed
lemma stored_data_source_row:
  "src_address (sds_source ds) = Some a \<Longrightarrow>
   stored_data_source \<lparr>c_vid = w, c_name = sds_name ds, c_address = a, c_abi = src_abi (sds_source ds),
      c_start_block = src_start_block (sds_source ds), c_block_hash = hs, c_block_number = n, c_deployment = i,
      c_context = sds_context ds\<rparr> = ds\<lparr>sds_creation_block := Some n\<rparr>"
proof -
  assume a: "src_address (sds_source ds) = Some a"
  obtain nm src cx cr where ds: "ds = \<lparr>sds_name = nm, sds_source = src, sds_context = cx, sds_creation_block = cr\<rparr>"
    by (cases ds)
  obtain ad ab st where "src = \<lparr>src_address = ad, src_abi = ab, src_start_block = st\<rparr>" by (cases src)
  with a ds show ?thesis by (simp add: stored_data_source_def)
qed

lemma stored_new_data_sources:
  assumes "\<forall>ds \<in> set dss. \<exists>a. src_address (sds_source ds) = Some a \<and> length a = 20"
  shows "map stored_data_source (new_data_sources i ptr v dss) = map (\<lambda>ds. ds\<lparr>sds_creation_block := Some (ptr_number ptr)\<rparr>) dss"
proof (rule nth_equalityI)
  fix k assume k: "k < length (map stored_data_source (new_data_sources i ptr v dss))"
  then have k': "k < length dss" by (simp add: new_data_sources_def)
  obtain a where a: "src_address (sds_source (dss ! k)) = Some a" using assms nth_mem [OF k'] by blast
  show "map stored_data_source (new_data_sources i ptr v dss) ! k =
      map (\<lambda>ds. ds\<lparr>sds_creation_block := Some (ptr_number ptr)\<rparr>) dss ! k"
    using k' a by (simp add: new_data_sources_def nth_enumerate_eq stored_data_source_row [OF a])
qed (simp add: new_data_sources_def)

lemma mods_effect_known:
  assumes "mods_ready info layout b d mods" and "mods_effect mods ty i = Some e"
  shows "hm_get (tables layout) ty \<noteq> None"
proof -
  from assms(2) obtain md where "md \<in> set mods" "mod_id md = (ty, i)"
    by (auto simp: mods_effect_def dest!: map_of_SomeD)
  moreover from this(1) have "mod_ready info layout b d md" using assms(1) by (simp add: mods_ready_def)
  then have "hm_get (tables layout) (entity_type (entity_key md)) \<noteq> None" by (induction md) auto
  ultimately show ?thesis by (simp add: mod_id_def)
qed

section \<open>An example deployment\<close>

definition ex_site :: Site where
  "ex_site = \<lparr>s_id = 1, s_deployment = ''Qm''\<rparr>"

definition ex_hash :: "int \<Rightarrow> u8 list" where
  "ex_hash n = replicate 32 (of_int n)"

definition ex_ptr :: "int \<Rightarrow> BlockPtr" where
  "ex_ptr n = \<lparr>ptr_hash = ex_hash n, ptr_number = n\<rparr>"

definition ex_deployment :: subgraph_deployment where
  "ex_deployment =
     \<lparr>d_id = 1, d_deployment = ''Qm'', d_failed = False, d_health = Healthy, d_synced = False, d_fatal_error = None,
      d_earliest_hash = None, d_earliest_number = None, d_latest_hash = Some (ex_hash 3), d_latest_number = Some 3,
      d_entity_count = 1, d_graft_base = None, d_graft_block_hash = None, d_graft_block_number = None,
      d_debug_fork = None, d_reorg_count = 0, d_current_reorg_depth = 0, d_max_reorg_depth = 0,
      d_firehose_cursor = None\<rparr>"

definition ex_store :: store where
  "ex_store = \<lparr>entities = ex_db, meta = \<lparr>deployments = [ex_deployment], errors = [], data_sources = [], vid_seq = 1\<rparr>\<rparr>"

definition ex_info :: SubgraphInfo where
  "ex_info = \<lparr>info_interfaces_for_type = [], info_types_for_interface = [], info_graft_block = None\<rparr>"

definition ex_data_source :: StoredDynamicDataSource where
  "ex_data_source =
     \<lparr>sds_name = ''Pair'', sds_source = \<lparr>src_address = Some (replicate 20 1), src_abi = ''Pair'', src_start_block = 4\<rparr>,
      sds_context = None, sds_creation_block = None\<rparr>"

definition ex_mods :: "EntityModification list" where
  "ex_mods = [Insert (ex_key ''b'') (ex_entity ''b'' ''z''), Remove (ex_key ''a'')]"

lemma ex_store_ok: "store_ok ex_layout ex_site ex_store ex_deployment 3"
  using ex_inv
  by (simp add: store_ok_def ex_store_def ex_site_def ex_deployment_def site_row_def errors_ok_def data_sources_ok_def
      has_non_fatal_errors_def health_after_def)

lemma ex_history: "table_history ex_layout ex_db ''Foo'' ''b'' 4 = None"
  by (simp add: table_history_def ex_layout_def stored_def version_def ex_db_def ex_row_def row_contains_def)

lemma ex_input: "block_input_ok ex_info ex_layout ex_site (ex_ptr 4) ex_mods [ex_data_source] [] ex_store"
proof -
  have share: "shared_interface_types ex_info ty = Inr []" for ty by (simp add: shared_interface_types_def ex_info_def)
  have key: "entity_type (ex_key i) = ''Foo''" "entity_id (ex_key i) = i" "subgraph_id (ex_key i) = ''Qm''" for i
    by (simp_all add: ex_key_def)
  have "\<not> immutable ex_table" by (simp add: ex_table_def)
  moreover have "conflict_free ex_info ex_layout ex_db (ex_key i)" for i
    by (simp add: conflict_free_def share key) (simp add: ex_layout_def)
  ultimately have "mod_ready ex_info ex_layout 4 ex_db (Insert (ex_key ''b'') (ex_entity ''b'' ''z''))"
      "mod_ready ex_info ex_layout 4 ex_db (Remove (ex_key ''a''))"
    using ex_get ex_fits ex_history by (simp_all add: key)
  then have "mods_ready ex_info ex_layout 4 ex_db ex_mods"
    by (simp add: mods_ready_def ex_mods_def mod_id_def share key)
  then show ?thesis
    by (simp add: block_input_ok_def ex_ptr_def ex_store_def ex_site_def ex_data_source_def ex_mods_def key)
qed
section \<open>Transacting and reverting\<close>

text \<open>
  C4: Transacting a block beyond the head of a deployment with well-formed input succeeds. From
  that block on a reader finds exactly the modifications of the block; earlier blocks and all other
  entities read as before. The block becomes the block pointer of the deployment, the new data
  sources are loaded after the ones there were, and the stored entity count stays right.
\<close>

theorem transact_block_correct:
  assumes "store_ok layout site s d head" and "head < ptr_number ptr" and "0 \<le> ptr_number ptr"
    and "ptr_number ptr < 2147483647" and "length (ptr_hash ptr) = 32"
    and "block_input_ok info layout site ptr mods dss errs s"
  shows "\<exists>s' d'. transact_block_operations h nt info layout site ptr cursor mods dss errs s =
      Inr (event_from_modifications nt mods, s') \<and> store_ok layout site s' d' (ptr_number ptr) \<and>
    (\<forall>ty i c. c \<le> 2147483647 \<longrightarrow> reads layout (entities s') ty i c =
       (case mods_effect mods ty i of
          Some e \<Rightarrow> if ptr_number ptr \<le> c then Inr e else reads layout (entities s) ty i c
        | None \<Rightarrow> reads layout (entities s) ty i c)) \<and>
    block_ptr (meta s') (s_deployment site) = Inr (Some ptr) \<and>
    dds_load (meta s') (s_deployment site) (ptr_number ptr) =
      and_then (dds_load (meta s) (s_deployment site) head) (\<lambda>old.
        Inr (old @ map (\<lambda>ds. ds\<lparr>sds_creation_block := Some (ptr_number ptr)\<rparr>) dss)) \<and>
    (count_ok layout s d head \<longrightarrow>
     is_i32 (entity_total layout (entities s') (ptr_number ptr) - entity_total layout (entities s) head) \<longrightarrow>
     count_ok layout s' d' (ptr_number ptr))"
proof -
  let ?b = "ptr_number ptr" and ?i = "s_deployment site"
  obtain s' d' new where run: "transact_block_operations h nt info layout site ptr cursor mods dss errs s =
        Inr (event_from_modifications nt mods, s')" and ok: "store_ok layout site s' d' ?b"
      and hist: "\<forall>ty. table_history layout (entities s') ty = change ?b (mods_effect mods ty) (table_history layout (entities s) ty)"
      and ptr: "d_latest_number d' = Some ?b" "d_latest_hash d' = Some (ptr_hash ptr)"
      and ds: "data_sources (meta s') = data_sources (meta s) @ new_data_sources ?i ptr (vid_seq (meta s)) dss"
      and cnt: "count_ok layout s d head \<longrightarrow>
       is_i32 (entity_total layout (entities s') ?b - entity_total layout (entities s) head) \<longrightarrow> count_ok layout s' d' ?b"
    using transact_spec [OF assms(1-4,6), of h nt cursor] by blast
  have mods: "mods_ready info layout ?b (entities s) mods"
    and addr: "\<forall>ds \<in> set dss. \<exists>a. src_address (sds_source ds) = Some a \<and> length a = 20"
    using assms(6) by (simp_all add: block_input_ok_def)
  have "reads layout (entities s') ty i c = (case mods_effect mods ty i of
      Some e \<Rightarrow> if ?b \<le> c then Inr e else reads layout (entities s) ty i c
    | None \<Rightarrow> reads layout (entities s) ty i c)" if "c \<le> 2147483647" for ty i c
    using hist mods_effect_known [OF mods, of ty i]
    by (cases "mods_effect mods ty i") (auto simp: reads_history [OF store_ok_parts(1) [OF ok] that]
        reads_history [OF store_ok_parts(1) [OF assms(1)] that] change_def)
  moreover have "block_ptr (meta s') ?i = Inr (Some ptr)"
    using block_ptr_row [OF store_ok_parts(2) [OF ok] ptr assms(5)] assms(3,4) by simp
  moreover have "filter (\<lambda>c. c_deployment c = ?i) (new_data_sources ?i ptr (vid_seq (meta s)) dss) =
      new_data_sources ?i ptr (vid_seq (meta s)) dss"
    using new_data_sources_all [of _ ?i ptr "vid_seq (meta s)" dss] by (simp add: filter_id_conv)
  then have "dds_load (meta s') ?i ?b = and_then (dds_load (meta s) ?i head) (\<lambda>old.
      Inr (old @ map (\<lambda>ds. ds\<lparr>sds_creation_block := Some ?b\<rparr>) dss))"
    unfolding dds_load_ok [OF store_ok_parts(4) [OF ok] order_refl] dds_load_ok [OF store_ok_parts(4) [OF assms(1)] order_refl] ds
    by (simp add: stored_new_data_sources [OF addr])
  ultimately show ?thesis using run ok cnt by blast
qed

theorem transact_block_correct_witness:
  "\<exists>s'. transact_block_operations (\<lambda>_. []) 0 ex_info ex_layout ex_site (ex_ptr 4) None ex_mods [ex_data_source] [] ex_store =
      Inr (event_from_modifications 0 ex_mods, s') \<and>
    reads ex_layout (entities s') ''Foo'' ''b'' 4 = Inr (Some (visible (ex_entity ''b'' ''z''))) \<and>
    reads ex_layout (entities s') ''Foo'' ''a'' 4 = Inr None \<and>
    reads ex_layout (entities s') ''Foo'' ''a'' 3 = reads ex_layout ex_db ''Foo'' ''a'' 3 \<and>
    block_ptr (meta s') ''Qm'' = Inr (Some (ex_ptr 4)) \<and>
    dds_load (meta s') ''Qm'' 4 = Inr [ex_data_source\<lparr>sds_creation_block := Some 4\<rparr>]"
proof -
  have p: "ptr_number (ex_ptr 4) = 4" "length (ptr_hash (ex_ptr 4)) = 32" "s_deployment ex_site = ''Qm''" "entities ex_store = ex_db"
    by (simp_all add: ex_ptr_def ex_hash_def ex_site_def ex_store_def)
  have old: "dds_load (meta ex_store) ''Qm'' 3 = Inr []" by (simp add: dds_load_def ex_store_def)
  have eff: "mods_effect ex_mods ''Foo'' ''b'' = Some (Some (visible (ex_entity ''b'' ''z'')))" "mods_effect ex_mods ''Foo'' ''a'' = Some None"
    by (simp_all add: mods_effect_def ex_mods_def mod_id_def ex_key_def)
  obtain s' where run: "transact_block_operations (\<lambda>_. []) 0 ex_info ex_layout ex_site (ex_ptr 4) None ex_mods [ex_data_source] [] ex_store =
        Inr (event_from_modifications 0 ex_mods, s')"
      and rd: "\<forall>ty i c. c \<le> 2147483647 \<longrightarrow> reads ex_layout (entities s') ty i c =
       (case mods_effect ex_mods ty i of
          Some e \<Rightarrow> if 4 \<le> c then Inr e else reads ex_layout ex_db ty i c | None \<Rightarrow> reads ex_layout ex_db ty i c)"
      and bp: "block_ptr (meta s') ''Qm'' = Inr (Some (ex_ptr 4))"
      and ds: "dds_load (meta s') ''Qm'' 4 = and_then (dds_load (meta ex_store) ''Qm'' 3) (\<lambda>old.
        Inr (old @ map (\<lambda>ds. ds\<lparr>sds_creation_block := Some 4\<rparr>) [ex_data_source]))"
    using transact_block_correct [OF ex_store_ok _ _ _ p(2) ex_input, of "\<lambda>_. []" 0 None] unfolding p by auto
  show ?thesis using run bp ds old eff rd by (intro exI [of _ s']) simp
qed

text \<open>
  C2: Reverting a block undoes it. When a block is transacted and then reverted to its parent, both
  succeed, and every entity at every block reads as before the block; the data sources, the errors
  and the health of the deployment are those from before, the parent is the block pointer, and the
  stored entity count stays right.
\<close>

theorem revert_undoes_block:
  assumes "store_ok layout site s d head" and "head \<le> ptr_number parent" and "ptr_number ptr = ptr_number parent + 1"
    and "0 \<le> ptr_number parent" and "ptr_number ptr < 2147483647"
    and "length (ptr_hash ptr) = 32" and "length (ptr_hash parent) = 32"
    and "block_input_ok info layout site ptr mods dss errs s"
    and "\<forall>e \<in> set (errors (meta s)). e_subgraph_id e = s_deployment site \<longrightarrow> (\<exists>l u. e_block_range e = Range (Some l) u \<and> l \<le> head)"
    and "case info_graft_block info of Some g \<Rightarrow> g \<le> ptr_number parent | None \<Rightarrow> True"
    and "is_i32 (d_reorg_count d + 1)"
  shows "\<exists>s1 ev s2 d2. transact_block_operations h nt info layout site ptr cursor mods dss errs s =
      Inr (event_from_modifications nt mods, s1) \<and>
    revert_block_operations nt' info layout site parent cursor' s1 = Inr (ev, s2) \<and>
    store_ok layout site s2 d2 (ptr_number parent) \<and>
    (\<forall>ty i c. c \<le> 2147483647 \<longrightarrow> reads layout (entities s2) ty i c = reads layout (entities s) ty i c) \<and>
    data_sources (meta s2) = data_sources (meta s) \<and> errors (meta s2) = errors (meta s) \<and>
    deployment_health (meta s2) (s_deployment site) = deployment_health (meta s) (s_deployment site) \<and>
    block_ptr (meta s2) (s_deployment site) = Inr (Some parent) \<and>
    (count_ok layout s d head \<longrightarrow>
     is_i32 (entity_total layout (entities s1) (ptr_number ptr) - entity_total layout (entities s) head) \<longrightarrow>
     is_i32 (entity_total layout (entities s) head - entity_total layout (entities s1) (ptr_number ptr)) \<longrightarrow>
     count_ok layout s2 d2 (ptr_number parent))"
proof -
  let ?b = "ptr_number ptr" and ?p = "ptr_number parent" and ?i = "s_deployment site"
  have b: "head < ?b" "0 \<le> ?b" using assms(2-4) by simp_all
  obtain s1 d1 new where run: "transact_block_operations h nt info layout site ptr cursor mods dss errs s =
        Inr (event_from_modifications nt mods, s1)" and ok1: "store_ok layout site s1 d1 ?b"
      and hist1: "\<forall>ty. table_history layout (entities s1) ty = change ?b (mods_effect mods ty) (table_history layout (entities s) ty)"
      and ptr1: "d_latest_number d1 = Some ?b" "d_latest_hash d1 = Some (ptr_hash ptr)"
      and rc1: "d_reorg_count d1 = d_reorg_count d" "d_current_reorg_depth d1 = 0"
      and f1: "d_health d = Failed \<longleftrightarrow> d_health d1 = Failed"
      and ds1: "data_sources (meta s1) = data_sources (meta s) @ new_data_sources ?i ptr (vid_seq (meta s)) dss"
      and es1: "errors (meta s1) = errors (meta s) @ new"
        "\<forall>e \<in> set new. e_subgraph_id e = ?i \<and> e_block_range e = Range (Some ?b) None"
      and cnt1: "count_ok layout s d head \<longrightarrow>
       is_i32 (entity_total layout (entities s1) ?b - entity_total layout (entities s) head) \<longrightarrow> count_ok layout s1 d1 ?b"
    using transact_spec [OF assms(1) b assms(5,8), of h nt cursor] by blast
  have i: "is_i32 ?p" "is_i32 (?p + 1)" "is_i32 (d_reorg_count d1 + 1)" "is_i32 (d_current_reorg_depth d1 + 1)"
    using assms(3-5,11) by (simp_all add: is_i32_def rc1)
  obtain ev s2 d2 where rw: "rewind_with_conn nt' info layout site parent cursor' s1 = Inr (ev, s2)"
      and ok2: "store_ok layout site s2 d2 ?p"
      and hist2: "\<forall>ty i c. table_history layout (entities s2) ty i c = table_history layout (entities s1) ty i (min c ?p)"
      and ptr2: "d_latest_number d2 = Some ?p" "d_latest_hash d2 = Some (ptr_hash parent)"
      and f2: "d_health d1 = Failed \<longleftrightarrow> d_health d2 = Failed"
      and ds2: "data_sources (meta s2) = kept_data_sources ?i (?p + 1) (data_sources (meta s1))"
      and es2: "errors (meta s2) = kept_errors ?i (?p + 1) (errors (meta s1))"
      and cnt2: "?p + 1 = ?b \<longrightarrow> count_ok layout s1 d1 ?b \<longrightarrow>
       is_i32 (entity_total layout (entities s1) ?p - entity_total layout (entities s1) ?b) \<longrightarrow> count_ok layout s2 d2 ?p"
    using rewind_spec [OF ok1 refl i(1,2) assms(10) i(3,4), of nt' cursor'] by blast
  have bp1: "block_ptr (meta s1) ?i = Inr (Some ptr)"
    using block_ptr_row [OF store_ok_parts(2) [OF ok1] ptr1 assms(6)] b assms(5) by simp
  have rv: "revert_block_operations nt' info layout site parent cursor' s1 = Inr (ev, s2)"
    using bp1 rw assms(3) by (simp add: revert_block_operations_def)
  have inv: "layout_inv layout head (entities s)" by (rule store_ok_parts(1) [OF assms(1)])
  have past: "table_history layout (entities s1) ty i c = table_history layout (entities s) ty i c" if "c \<le> ?p" for ty i c
    using hist1 that assms(3) by (simp add: change_def split: option.splits)
  have hist: "table_history layout (entities s2) ty i c = table_history layout (entities s) ty i c" for ty i c
  proof (cases "c \<le> ?p")
    case False
    then have "table_history layout (entities s) ty i c = table_history layout (entities s) ty i ?p"
      using table_history_stable [OF inv assms(2), of c] by simp
    with hist2 past [of ?p] False show ?thesis by (simp add: min_def)
  qed (use hist2 past in \<open>simp add: min_def\<close>)
  have "reads layout (entities s2) ty i c = reads layout (entities s) ty i c" if "c \<le> 2147483647" for ty i c
    using hist reads_history [OF store_ok_parts(1) [OF ok2] that] reads_history [OF inv that] by simp
  moreover have ds: "data_sources (meta s2) = data_sources (meta s)"
    using kept_data_sources_all [OF store_ok_parts(4) [OF assms(1)], of "?p + 1"] assms(2,3) by (simp add: ds2 ds1)
  moreover have es: "errors (meta s2) = errors (meta s)"
    unfolding es2 es1(1) using assms(2,3,9) es1(2) by (intro kept_errors_all) fastforce+
  moreover have "d_health d2 = d_health d"
  proof -
    have "has_non_fatal_errors (meta s2) ?i (Some ?p) = has_non_fatal_errors (meta s) ?i (Some head)"
      using has_non_fatal_errors_stable [OF store_ok_parts(3) [OF assms(1)] assms(2)] has_non_fatal_errors_cong [OF es] by simp
    moreover have "d_health d2 = health_after (has_non_fatal_errors (meta s2) ?i (Some ?p)) (d_health d2)"
        "d_health d = health_after (has_non_fatal_errors (meta s) ?i (Some head)) (d_health d)"
      using ok2 assms(1) by (simp_all add: store_ok_def)
    ultimately show ?thesis using f1 f2 unfolding health_after_def by metis
  qed
  then have "deployment_health (meta s2) ?i = deployment_health (meta s) ?i"
    by (simp add: deployment_health_row [OF store_ok_parts(2) [OF ok2]] deployment_health_row [OF store_ok_parts(2) [OF assms(1)]])
  moreover have "block_ptr (meta s2) ?i = Inr (Some parent)"
    using block_ptr_row [OF store_ok_parts(2) [OF ok2] ptr2 assms(7,4)] assms(3,5) by simp
  moreover have "entity_total layout (entities s1) ?p = entity_total layout (entities s) head"
    using entity_total_stable [OF inv assms(2)] past by (simp add: entity_total_def)
  ultimately show ?thesis using run rv ok2 cnt1 cnt2 assms(3) by metis
qed
theorem revert_undoes_block_witness:
  "\<exists>s1 ev s2. transact_block_operations (\<lambda>_. []) 0 ex_info ex_layout ex_site (ex_ptr 4) None ex_mods [ex_data_source] [] ex_store =
      Inr (event_from_modifications 0 ex_mods, s1) \<and>
    revert_block_operations 1 ex_info ex_layout ex_site (ex_ptr 3) None s1 = Inr (ev, s2) \<and>
    reads ex_layout (entities s2) ''Foo'' ''a'' 9 = reads ex_layout ex_db ''Foo'' ''a'' 9 \<and>
    data_sources (meta s2) = [] \<and> block_ptr (meta s2) ''Qm'' = Inr (Some (ex_ptr 3))"
proof -
  have p: "ptr_number (ex_ptr n) = n" "length (ptr_hash (ex_ptr n)) = 32" for n by (simp_all add: ex_ptr_def ex_hash_def)
  have e: "errors (meta ex_store) = []" "info_graft_block ex_info = None" "d_reorg_count ex_deployment = 0"
      "data_sources (meta ex_store) = []" "entities ex_store = ex_db" "s_deployment ex_site = ''Qm''"
    by (simp_all add: ex_store_def ex_info_def ex_deployment_def ex_site_def)
  obtain s1 ev s2 where run: "transact_block_operations (\<lambda>_. []) 0 ex_info ex_layout ex_site (ex_ptr 4) None ex_mods [ex_data_source] [] ex_store =
        Inr (event_from_modifications 0 ex_mods, s1)" "revert_block_operations 1 ex_info ex_layout ex_site (ex_ptr 3) None s1 = Inr (ev, s2)"
      and rd: "\<forall>ty i c. c \<le> 2147483647 \<longrightarrow> reads ex_layout (entities s2) ty i c = reads ex_layout (entities ex_store) ty i c"
      and ds: "data_sources (meta s2) = data_sources (meta ex_store)" "block_ptr (meta s2) (s_deployment ex_site) = Inr (Some (ex_ptr 3))"
    using revert_undoes_block [OF ex_store_ok _ _ _ _ p(2) p(2) [of 3] ex_input, of "\<lambda>_. []" 0 None 1 None]
    by (auto simp: p e is_i32_def)
  then show ?thesis by (intro exI [of _ s1] exI [of _ ev] exI [of _ s2]) (simp add: e)
qed
section \<open>Blocks that were processed before\<close>

lemma transact_block_behind:
  assumes "site_row m site d" and "\<not> is_behind d (ptr_number ptr)"
  shows "\<exists>e. transact_block site ptr cursor full count m = Inl e"
proof -
  have "filter (\<lambda>x. d_id x = s_id site \<and> is_behind x (ptr_number ptr)) (deployments m) = []"
    using assms(2) site_row_eq(1) [OF assms(1)] by (auto simp: filter_empty_conv)
  then show ?thesis
    by (auto simp: transact_block_def sql_set_def Let_def forwarded_def and_then_def split: sum.splits option.splits)
qed

lemma insert_subgraph_errors_keep_row:
  assumes "site_row m site d" and "insert_subgraph_errors h (s_deployment site) errs b m = Inr m'"
  shows "\<exists>hl. site_row m' site (d\<lparr>d_health := hl\<rparr>)"
proof -
  have keep: "deployments m2 = deployments m1"
    if "try_fold (\<lambda>err m1. and_then (insert_subgraph_error h err m1) (\<lambda>(_, m2). Inr m2)) errs m1 = Inr m2" for m1 m2
    using that
  proof (induction errs arbitrary: m1)
    case (Cons err errs)
    from Cons.prems obtain x m3 where "insert_subgraph_error h err m1 = Inr (x, m3)"
        and rest: "try_fold (\<lambda>err m1. and_then (insert_subgraph_error h err m1) (\<lambda>(_, m2). Inr m2)) errs m3 = Inr m2"
      by (cases "insert_subgraph_error h err m1") auto
    then have "deployments m3 = deployments m1"
      by (auto simp: insert_subgraph_error_def Let_def and_then_def split: option.splits if_splits sum.splits)
    with Cons.IH [OF rest] show ?case by simp
  qed simp
  from assms(2) obtain m1 where m1: "deployments m1 = deployments m" "m' = check_health (s_deployment site) b m1"
    using keep unfolding insert_subgraph_errors_def and_then_def by (auto split: sum.splits)
  have row: "site_row m1 site d" by (rule site_row_other [OF assms(1) m1(1)])
  have "d_id d = s_id site" "d_deployment d = s_deployment site" using assms(1) by (simp_all add: site_row_def)
  then have "site_row m' site (d\<lparr>d_health := health_after (has_non_fatal_errors m1 (s_deployment site) (Some b)) (d_health d)\<rparr>)"
    unfolding m1(2) check_health_row [OF row] by (intro site_row_put [OF row]) simp_all
  then show ?thesis ..
qed

lemma transact_behind_fails:
  assumes "site_row (meta s) site d" and "\<not> is_behind d (ptr_number ptr)"
  shows "\<exists>e. transact_block_operations h nt info layout site ptr cursor mods dss errs s = Inl e"
proof (rule ccontr)
  assume "\<not> ?thesis"
  then obtain x where "transact_block_operations h nt info layout site ptr cursor mods dss errs s = Inr x"
    by (metis sum.exhaust)
  then obtain n m1 m2 full count m3 where m: "dds_insert (s_deployment site) dss ptr (meta s) = Inr (n, m1)"
      "(if errs = [] then Inr m1 else insert_subgraph_errors h (s_deployment site) errs (ptr_number ptr) m1) = Inr m2"
      "transact_block site ptr cursor full count m2 = Inr m3"
    by (auto simp: transact_block_operations_def Let_def and_then_def split: if_splits sum.splits)
  have "deployments m1 = deployments (meta s)"
    using m(1) by (auto simp: dds_insert_def and_then_def split: if_splits sum.splits)
  then have row1: "site_row m1 site d" by (rule site_row_other [OF assms(1)])
  obtain d2 where d2: "site_row m2 site d2" "d_latest_number d2 = d_latest_number d"
  proof (cases "errs = []")
    case False
    with m(2) have "insert_subgraph_errors h (s_deployment site) errs (ptr_number ptr) m1 = Inr m2" by simp
    from insert_subgraph_errors_keep_row [OF row1 this] obtain hl where "site_row m2 site (d\<lparr>d_health := hl\<rparr>)" ..
    then show thesis by (rule that) simp
  qed (use m(2) row1 in \<open>simp add: that\<close>)
  have "\<not> is_behind d2 (ptr_number ptr)" using assms(2) d2(2) by (simp add: is_behind_def)
  from transact_block_behind [OF d2(1) this, of cursor full count] m(3) show False by auto
qed

text \<open>
  C6: A block is never processed twice. Transacting a block at or below the block pointer of a
  deployment fails whatever is in it, and so changes nothing; a block without changes is reported
  as a duplicate.
\<close>

theorem transact_duplicate_fails:
  assumes "site_row (meta s) site d" and "block_ptr (meta s) (s_deployment site) = Inr (Some p)"
    and "ptr_number ptr \<le> ptr_number p"
  shows "(\<exists>e. transact_block_operations h nt info layout site ptr cursor mods dss errs s = Inl e) \<and>
    transact_block_operations h nt info layout site ptr cursor [] [] [] s =
      Inl (DuplicateBlockProcessing (s_deployment site) (ptr_number ptr))"
proof -
  have p: "d_latest_number d = Some (ptr_number p)"
    using assms(2) unfolding block_ptr_def find_site_row [OF assms(1)]
    by (auto simp: detail_block_def block_ptr_from_u64_def split: option.splits if_splits)
  then have nb: "\<not> is_behind d (ptr_number ptr)" using assms(3) by (simp add: is_behind_def)
  have "transact_block site ptr cursor full count (meta s) = Inl (DuplicateBlockProcessing (s_deployment site) (ptr_number ptr))" for full count
    by (rule transact_block_duplicate [OF assms(1) nb assms(2)]) (simp add: p)
  then have "transact_block_operations h nt info layout site ptr cursor [] [] [] s =
      Inl (DuplicateBlockProcessing (s_deployment site) (ptr_number ptr))"
    by (simp add: transact_block_operations_def apply_entity_modifications_def group_modifications_def dds_insert_def Let_def)
  with transact_behind_fails [OF assms(1) nb] show ?thesis by blast
qed

theorem transact_duplicate_fails_witness:
  "transact_block_operations (\<lambda>_. []) 0 ex_info ex_layout ex_site (ex_ptr 3) None [] [] [] ex_store =
     Inl (DuplicateBlockProcessing ''Qm'' 3)"
proof -
  have "block_ptr (meta ex_store) (s_deployment ex_site) = Inr (Some (ex_ptr 3))"
    using block_ptr_row [OF store_ok_parts(2) [OF ex_store_ok], of 3 "ex_hash 3"]
    by (simp add: ex_deployment_def ex_hash_def ex_ptr_def)
  from transact_duplicate_fails [OF store_ok_parts(2) [OF ex_store_ok] this order_refl] show ?thesis
    by (simp add: ex_site_def ex_ptr_def)
qed
section \<open>Failing and unfailing\<close>

lemma kept_errors_before:
  assumes "errors_ok m i head" and "errors m' = kept_errors i (t + 1) (errors m)"
  shows "has_non_fatal_errors m' i (Some t) \<longleftrightarrow> has_non_fatal_errors m i (Some t)"
proof -
  have "e \<in> set (errors m')" if e: "e \<in> set (errors m)" "e_subgraph_id e = i" "range_contains (e_block_range e) t" for e
  proof -
    obtain l where l: "e_block_range e = Range (Some l) None" using assms(1) e(1,2) by (auto simp: errors_ok_def)
    with e(3) have "l \<le> t" by simp
    with e(1) l show ?thesis by (simp add: assms(2) kept_errors_def)
  qed
  moreover have "set (errors m') \<subseteq> set (errors m)" by (auto simp: assms(2) kept_errors_def)
  ultimately show ?thesis unfolding has_non_fatal_errors_Some by blast
qed

lemma store_ok_status:
  assumes "store_ok layout site s d head"
    and "hl = Failed \<or> hl = (if has_non_fatal_errors (meta s) (s_deployment site) (Some head) then Unhealthy else Healthy)"
  shows "\<exists>d'. store_ok layout site (s\<lparr>meta := update_deployment_status (s_deployment site) hl fe (meta s)\<rparr>) d' head \<and>
    d_health d' = hl \<and> d_failed d' = is_failed hl \<and> d_fatal_error d' = fe \<and>
    d_latest_number d' = d_latest_number d \<and> d_latest_hash d' = d_latest_hash d"
proof -
  define d' where "d' = d\<lparr>d_failed := is_failed hl, d_health := hl, d_fatal_error := fe\<rparr>"
  have row: "site_row (meta s) site d" by (rule store_ok_parts(2) [OF assms(1)])
  have upd: "update_deployment_status (s_deployment site) hl fe (meta s) = put_row site d' (meta s)"
    unfolding d'_def by (rule update_deployment_status_row [OF row])
  have row': "site_row (put_row site d' (meta s)) site d'"
    using row by (intro site_row_put [OF row]) (simp_all add: d'_def site_row_def)
  have "hl = health_after (has_non_fatal_errors (put_row site d' (meta s)) (s_deployment site) (Some head)) hl"
    using assms(2) by (auto simp: health_after_def has_non_fatal_errors_Some)
  then have "store_ok layout site (s\<lparr>meta := put_row site d' (meta s)\<rparr>) d' head"
    using assms(1) row' by (simp add: store_ok_def errors_ok_def data_sources_ok_def d'_def)
  then show ?thesis unfolding upd by (intro exI [of _ d']) (simp add: d'_def)
qed

lemma revert_block_spec:
  assumes "store_ok layout site s d head" and "is_i32 head"
    and "0 \<le> ptr_number to" and "revert_block_operations nt info layout site to cursor s = Inr (ev, s')"
  shows "ptr_number to < head \<and> (\<exists>d'. store_ok layout site s' d' (ptr_number to) \<and>
    (\<forall>ty i c. table_history layout (entities s') ty i c = table_history layout (entities s) ty i (min c (ptr_number to))) \<and>
    d_latest_number d' = Some (ptr_number to) \<and> d_latest_hash d' = Some (ptr_hash to) \<and>
    errors (meta s') = kept_errors (s_deployment site) (ptr_number to + 1) (errors (meta s)))"
proof -
  let ?t = "ptr_number to"
  have row: "site_row (meta s) site d" by (rule store_ok_parts(2) [OF assms(1)])
  obtain p where p: "block_ptr (meta s) (s_deployment site) = Inr (Some p)" "?t < ptr_number p"
      and rw: "rewind_with_conn nt info layout site to cursor s = Inr (ev, s')"
    using assms(4) by (auto simp: revert_block_operations_def and_then_def split: sum.splits option.splits if_splits)
  have "d_latest_number d = Some (ptr_number p)"
    using p(1) unfolding block_ptr_def find_site_row [OF row]
    by (auto simp: detail_block_def block_ptr_from_u64_def split: option.splits if_splits)
  then have head: "?t < head" using assms(1) p(2) by (simp add: store_ok_def)
  then have i: "is_i32 ?t" "is_i32 (?t + 1)" using assms(2,3) by (simp_all add: is_i32_def)
  have graft: "case info_graft_block info of Some g \<Rightarrow> g \<le> ?t | None \<Rightarrow> True"
    using rw by (auto simp: rewind_with_conn_def split: option.splits if_splits)
  obtain m1 where "revert_block_ptr (s_deployment site) to (meta s) = Inr m1"
    using rw by (cases "revert_block_ptr (s_deployment site) to (meta s)") (auto simp: rewind_with_conn_def split: if_splits)
  then have "\<not> (\<exists>x \<in> set (deployments (meta s)). d_deployment x = s_deployment site \<and>
      (\<not> is_i32 (d_reorg_count x + 1) \<or> \<not> is_i32 (d_current_reorg_depth x + 1)))"
    unfolding revert_block_ptr_def by (auto split: if_splits)
  then have c: "is_i32 (d_reorg_count d + 1)" "is_i32 (d_current_reorg_depth d + 1)"
    using row unfolding site_row_def by blast+
  from rewind_spec [OF assms(1) refl i graft c, of nt cursor] rw head show ?thesis by auto
qed
lemma unfail_spec:
  assumes "store_ok layout site s d head" and "is_i32 head" and "0 \<le> ptr_number parent"
    and "unfail_deterministic_error nt info layout site current parent s = Inr (outcome, s')"
  shows "(outcome = Noop \<and> s' = s) \<or>
    (outcome = Unfailed \<and> ptr_number parent < head \<and> (\<exists>d'. store_ok layout site s' d' (ptr_number parent) \<and>
       (\<forall>ty i c. table_history layout (entities s') ty i c = table_history layout (entities s) ty i (min c (ptr_number parent))) \<and>
       d_latest_number d' = Some (ptr_number parent) \<and> d_latest_hash d' = Some (ptr_hash parent) \<and>
       d_health d' = (if has_non_fatal_errors (meta s) (s_deployment site) (Some (ptr_number parent)) then Unhealthy else Healthy) \<and>
       \<not> d_failed d' \<and> d_fatal_error d' = None \<and>
       errors (meta s') = kept_errors (s_deployment site) (ptr_number parent + 1) (errors (meta s))))"
proof (cases "outcome = Noop \<and> s' = s")
  case False
  let ?i = "s_deployment site" and ?t = "ptr_number parent"
  define hl where "hl = (if has_non_fatal_errors (meta s) ?i (Some ?t) then Unhealthy else Healthy)"
  obtain err where err: "fatal_error (meta s) ?i = Some err"
    using assms(4) False by (cases "fatal_error (meta s) ?i") (auto simp: unfail_deterministic_error_def)
  have c: "e_deterministic err" "e_block_hash err = Some (ptr_hash current)"
    using assms(4) False err by (auto simp: unfail_deterministic_error_def Let_def split: if_splits)
  have run: "and_then (revert_block_operations nt info layout site parent (Some '''') s) (\<lambda>(_, s1).
      Inr (Unfailed, s1\<lparr>meta := update_deployment_status ?i hl None (meta s1)\<rparr>)) = Inr (outcome, s')"
    using assms(4) unfolding unfail_deterministic_error_def Let_def err hl_def by (simp add: c)
  then obtain ev s1 where s1: "revert_block_operations nt info layout site parent (Some '''') s = Inr (ev, s1)"
      "outcome = Unfailed" "s' = s1\<lparr>meta := update_deployment_status ?i hl None (meta s1)\<rparr>"
    by (cases "revert_block_operations nt info layout site parent (Some '''') s") auto
  obtain d1 where d1: "?t < head" "store_ok layout site s1 d1 ?t"
      "\<forall>ty i c. table_history layout (entities s1) ty i c = table_history layout (entities s) ty i (min c ?t)"
      "d_latest_number d1 = Some ?t" "d_latest_hash d1 = Some (ptr_hash parent)"
      "errors (meta s1) = kept_errors ?i (?t + 1) (errors (meta s))"
    using revert_block_spec [OF assms(1-3) s1(1)] by blast
  have hl: "hl = Failed \<or> hl = (if has_non_fatal_errors (meta s1) ?i (Some ?t) then Unhealthy else Healthy)"
    unfolding hl_def kept_errors_before [OF store_ok_parts(3) [OF assms(1)] d1(6)] by (rule disjI2) (rule refl)
  have nf: "\<not> is_failed hl" by (simp add: hl_def)
  have es: "errors (meta s') = errors (meta s1)" "entities s' = entities s1"
    by (simp_all add: s1(3) update_deployment_status_def update_deployments_def)
  obtain d' where "store_ok layout site s' d' ?t" "d_health d' = hl" "d_failed d' = is_failed hl" "d_fatal_error d' = None"
      "d_latest_number d' = d_latest_number d1" "d_latest_hash d' = d_latest_hash d1"
    using store_ok_status [OF d1(2) hl, of None] unfolding s1(3) by blast
  then show ?thesis
    using d1 s1(2) nf es by (intro disjI2 conjI exI [of _ d']) (simp_all add: hl_def)
qed simp

text \<open>
  C9: Unfailing after a deterministic error at the current block never leaves a deployment failed:
  it either does nothing, or it takes the deployment back to the parent block, where every entity
  reads as it did there, and the deployment is healthy again exactly when it has no non-fatal
  errors at that block.
\<close>

theorem unfail_deterministic_restores:
  assumes "store_ok layout site s d head" and "is_i32 head" and "0 \<le> ptr_number parent"
    and "unfail_deterministic_error nt info layout site current parent s = Inr (outcome, s')"
  shows "(outcome = Noop \<and> s' = s) \<or>
    (outcome = Unfailed \<and>
     (\<forall>ty i c. c \<le> 2147483647 \<longrightarrow> reads layout (entities s') ty i c = reads layout (entities s) ty i (min c (ptr_number parent))) \<and>
     deployment_health (meta s') (s_deployment site) =
       Inr (if has_non_fatal_errors (meta s') (s_deployment site) (Some (ptr_number parent)) then Unhealthy else Healthy) \<and>
     fatal_error (meta s') (s_deployment site) = None)"
proof (cases "outcome = Noop \<and> s' = s")
  case False
  let ?i = "s_deployment site" and ?t = "ptr_number parent"
  obtain d' where o: "outcome = Unfailed" and ok: "store_ok layout site s' d' ?t"
      and hist: "\<forall>ty i c. table_history layout (entities s') ty i c = table_history layout (entities s) ty i (min c ?t)"
      and health: "d_health d' = (if has_non_fatal_errors (meta s) ?i (Some ?t) then Unhealthy else Healthy)"
      and fe: "d_fatal_error d' = None" and es: "errors (meta s') = kept_errors ?i (?t + 1) (errors (meta s))"
    using unfail_spec [OF assms] False by blast
  have row: "site_row (meta s') site d'" by (rule store_ok_parts(2) [OF ok])
  have "reads layout (entities s') ty i c = reads layout (entities s) ty i (min c ?t)" if "c \<le> 2147483647" for ty i c
  proof -
    have m: "min c ?t \<le> 2147483647" using that by simp
    show ?thesis
      unfolding reads_history [OF store_ok_parts(1) [OF ok] that] reads_history [OF store_ok_parts(1) [OF assms(1)] m] using hist by simp
  qed
  moreover have "deployment_health (meta s') ?i =
      Inr (if has_non_fatal_errors (meta s') ?i (Some ?t) then Unhealthy else Healthy)"
    unfolding deployment_health_row [OF row] kept_errors_before [OF store_ok_parts(3) [OF assms(1)] es] health ..
  moreover have "fatal_error (meta s') ?i = None"
  proof -
    have "concat (map (\<lambda>x. filter (\<lambda>e. Some (e_id e) = d_fatal_error x) (errors (meta s')))
        (filter (\<lambda>x. d_deployment x = ?i) (deployments (meta s')))) = []"
      using site_row_eq(2) [OF row] fe by (auto simp: filter_empty_conv)
    then show ?thesis unfolding fatal_error_def by (simp only: list.case)
  qed
  ultimately show ?thesis using o by blast
qed simp
text \<open>The example deployment after a deterministic error in block 3.\<close>

definition ex_error :: subgraph_error where
  "ex_error = \<lparr>e_id = ''e'', e_subgraph_id = ''Qm'', e_message = ''m'', e_block_hash = Some (ex_hash 3), e_handler = None,
     e_deterministic = True, e_block_range = Range (Some 3) None\<rparr>"

definition ex_failed_row :: subgraph_deployment where
  "ex_failed_row = ex_deployment\<lparr>d_failed := True, d_health := Failed, d_fatal_error := Some ''e''\<rparr>"

definition ex_failed :: store where
  "ex_failed = ex_store\<lparr>meta := (meta ex_store)\<lparr>deployments := [ex_failed_row], errors := [ex_error]\<rparr>\<rparr>"

lemma ex_failed_ok: "store_ok ex_layout ex_site ex_failed ex_failed_row 3"
  using ex_inv
  by (simp add: store_ok_def ex_failed_def ex_failed_row_def ex_store_def ex_site_def ex_deployment_def site_row_def errors_ok_def
      ex_error_def data_sources_ok_def has_non_fatal_errors_def health_after_def)

lemma ex_unfail: "\<exists>s'. unfail_deterministic_error 0 ex_info ex_layout ex_site (ex_ptr 3) (ex_ptr 2) ex_failed = Inr (Unfailed, s')"
proof -
  have p: "ptr_number (ex_ptr n) = n" "ptr_hash (ex_ptr n) = ex_hash n" for n by (simp_all add: ex_ptr_def)
  have row: "site_row (meta ex_failed) ex_site ex_failed_row" by (rule store_ok_parts(2) [OF ex_failed_ok])
  have "block_ptr (meta ex_failed) (s_deployment ex_site) = Inr (Some \<lparr>ptr_hash = ex_hash 3, ptr_number = 3\<rparr>)"
    by (rule block_ptr_row [OF row]) (simp_all add: ex_failed_row_def ex_deployment_def ex_hash_def)
  moreover obtain ev s1 where "rewind_with_conn 0 ex_info ex_layout ex_site (ex_ptr 2) (Some '''') ex_failed = Inr (ev, s1)"
    using rewind_spec [OF ex_failed_ok refl, of "ex_ptr 2" ex_info 0 "Some ''''"]
    by (auto simp: p is_i32_def ex_info_def ex_failed_row_def ex_deployment_def)
  ultimately have "revert_block_operations 0 ex_info ex_layout ex_site (ex_ptr 2) (Some '''') ex_failed = Inr (ev, s1)"
    by (simp add: revert_block_operations_def p)
  moreover have "fatal_error (meta ex_failed) (s_deployment ex_site) = Some ex_error"
    by (simp add: fatal_error_def ex_failed_def ex_failed_row_def ex_site_def ex_deployment_def ex_error_def)
  moreover have "e_deterministic ex_error" "e_block_hash ex_error = Some (ex_hash 3)" by (simp_all add: ex_error_def)
  ultimately show ?thesis by (simp add: unfail_deterministic_error_def p Let_def)
qed

theorem unfail_deterministic_restores_witness:
  "\<exists>s'. unfail_deterministic_error 0 ex_info ex_layout ex_site (ex_ptr 3) (ex_ptr 2) ex_failed = Inr (Unfailed, s') \<and>
     reads ex_layout (entities s') ''Foo'' ''b'' 3 = reads ex_layout ex_db ''Foo'' ''b'' 2 \<and>
     fatal_error (meta s') ''Qm'' = None"
proof -
  obtain s' where s': "unfail_deterministic_error 0 ex_info ex_layout ex_site (ex_ptr 3) (ex_ptr 2) ex_failed = Inr (Unfailed, s')"
    using ex_unfail ..
  have e: "ptr_number (ex_ptr 2) = 2" "entities ex_failed = ex_db" "s_deployment ex_site = ''Qm''"
    by (simp_all add: ex_ptr_def ex_failed_def ex_store_def ex_site_def)
  have "(\<forall>ty i c. c \<le> 2147483647 \<longrightarrow> reads ex_layout (entities s') ty i c = reads ex_layout ex_db ty i (min c 2)) \<and>
      fatal_error (meta s') ''Qm'' = None"
    using unfail_deterministic_restores [OF ex_failed_ok _ _ s'] unfolding e by (auto simp: is_i32_def)
  then have "reads ex_layout (entities s') ''Foo'' ''b'' 3 = reads ex_layout ex_db ''Foo'' ''b'' 2" "fatal_error (meta s') ''Qm'' = None"
    by simp_all
  with s' show ?thesis by blast
qed

section \<open>The invariant of a deployment over its life\<close>

text \<open>
  The operations on a deployment: transacting and reverting blocks, failing with an error that is
  deterministic only at or below the block pointer, and unfailing after a deterministic error.
\<close>

inductive store_step ::
  "(SubgraphError \<Rightarrow> string) \<Rightarrow> SubgraphInfo \<Rightarrow> Layout \<Rightarrow> Site \<Rightarrow> store \<Rightarrow> store \<Rightarrow> bool"
  for h info layout site where
  transacted: "\<lbrakk>block_input_ok info layout site ptr mods dss errs s; 0 \<le> ptr_number ptr; ptr_number ptr < 2147483647;
     length (ptr_hash ptr) = 32; transact_block_operations h nt info layout site ptr cursor mods dss errs s = Inr (ev, s')\<rbrakk>
     \<Longrightarrow> store_step h info layout site s s'"
| reverted: "\<lbrakk>0 \<le> ptr_number to; length (ptr_hash to) = 32;
     revert_block_operations nt info layout site to cursor s = Inr (ev, s')\<rbrakk>
     \<Longrightarrow> store_step h info layout site s s'"
| failed: "\<lbrakk>err_subgraph_id err = s_deployment site;
     err_deterministic err \<longrightarrow> (\<exists>p q. err_block_ptr err = Some p \<and> block_ptr (meta s) (s_deployment site) = Inr (Some q) \<and>
       ptr_number p \<le> ptr_number q);
     fail_subgraph h (s_deployment site) err s = Inr s'\<rbrakk>
     \<Longrightarrow> store_step h info layout site s s'"
| unfailed: "\<lbrakk>0 \<le> ptr_number parent; length (ptr_hash parent) = 32;
     unfail_deterministic_error nt info layout site current parent s = Inr (outcome, s')\<rbrakk>
     \<Longrightarrow> store_step h info layout site s s'"

text \<open>The head is the block pointer; a deployment without one has no data.\<close>

definition deployment_at :: "Layout \<Rightarrow> Site \<Rightarrow> store \<Rightarrow> int \<Rightarrow> bool" where
  "deployment_at layout site s head \<longleftrightarrow> (\<exists>d. store_ok layout site s d head \<and> - 1 \<le> head \<and> head < 2147483647 \<and>
     (case d_latest_number d of
        Some n \<Rightarrow> 0 \<le> n \<and> n = head \<and> (\<exists>hs. d_latest_hash d = Some hs \<and> length hs = 32)
      | None \<Rightarrow> head = - 1 \<and> d_latest_hash d = None))"

definition deployment_ok :: "Layout \<Rightarrow> Site \<Rightarrow> store \<Rightarrow> bool" where
  "deployment_ok layout site s \<longleftrightarrow> (\<exists>head. deployment_at layout site s head)"

lemma deployment_atI:
  assumes "store_ok layout site s d (ptr_number ptr)" and "d_latest_number d = Some (ptr_number ptr)"
    and "d_latest_hash d = Some (ptr_hash ptr)" and "length (ptr_hash ptr) = 32" and "0 \<le> ptr_number ptr" and "ptr_number ptr < 2147483647"
  shows "deployment_at layout site s (ptr_number ptr)"
  unfolding deployment_at_def using assms by (intro exI [of _ d]) simp

lemma deployment_okI:
  assumes "store_ok layout site s d (ptr_number ptr)" and "d_latest_number d = Some (ptr_number ptr)"
    and "d_latest_hash d = Some (ptr_hash ptr)" and "length (ptr_hash ptr) = 32" and "0 \<le> ptr_number ptr" and "ptr_number ptr < 2147483647"
  shows "deployment_ok layout site s"
  unfolding deployment_ok_def using deployment_atI [OF assms] ..

lemma fail_keeps_store_ok:
  assumes "store_ok layout site s d head" and "fail_subgraph h (s_deployment site) err s = Inr s'"
    and "err_subgraph_id err = s_deployment site"
    and "err_deterministic err \<longrightarrow> (\<exists>p. err_block_ptr err = Some p \<and> ptr_number p \<le> head)"
  shows "\<exists>d'. store_ok layout site s' d' head \<and> d_health d' = Failed \<and>
    d_latest_number d' = d_latest_number d \<and> d_latest_hash d' = d_latest_hash d"
proof -
  let ?i = "s_deployment site"
  obtain new where ins: "insert_subgraph_error h err (meta s) = Inr (h err, (meta s)\<lparr>errors := errors (meta s) @ new\<rparr>)"
    and new: "\<forall>e \<in> set new. e_subgraph_id e = ?i \<and> (\<exists>l. e_block_range e = Range (Some l) None \<and> (e_deterministic e \<longrightarrow> l \<le> head))"
  proof (cases "err_block_ptr err")
    case None
    with assms(4) have "\<not> err_deterministic err" by auto
    with None assms(3) show thesis
      by (intro that [of "if list_ex (\<lambda>e. e_id e = h err \<and> range_overlaps (e_block_range e) (Range (Some BLOCK_UNVERSIONED) None)) (errors (meta s))
          then [] else [\<lparr>e_id = h err, e_subgraph_id = err_subgraph_id err, e_message = err_message err, e_block_hash = None,
            e_handler = err_handler err, e_deterministic = err_deterministic err, e_block_range = Range (Some BLOCK_UNVERSIONED) None\<rparr>]"])
         (simp_all add: insert_subgraph_error_def Let_def)
  next
    case (Some p)
    with assms(3,4) show thesis
      by (intro that [of "if list_ex (\<lambda>e. e_id e = h err \<and> range_overlaps (e_block_range e) (Range (Some (ptr_number p)) None)) (errors (meta s))
          then [] else [\<lparr>e_id = h err, e_subgraph_id = err_subgraph_id err, e_message = err_message err, e_block_hash = Some (ptr_hash p),
            e_handler = err_handler err, e_deterministic = err_deterministic err, e_block_range = Range (Some (ptr_number p)) None\<rparr>]"])
         (simp_all add: insert_subgraph_error_def Let_def)
  qed
  define m1 where "m1 = (meta s)\<lparr>errors := errors (meta s) @ new\<rparr>"
  define d1 where "d1 = d\<lparr>d_failed := True, d_health := Failed, d_fatal_error := Some (h err)\<rparr>"
  have row: "site_row m1 site d" using store_ok_parts(2) [OF assms(1)] by (simp add: m1_def site_row_def)
  have s': "s' = s\<lparr>meta := put_row site d1 m1\<rparr>"
    using assms(2) unfolding fail_subgraph_def deployment_fail_def ins
    by (simp add: m1_def [symmetric] update_deployment_status_row [OF row] d1_def)
  have "site_row (put_row site d1 m1) site d1"
    using row by (intro site_row_put [OF row]) (simp_all add: d1_def site_row_def)
  moreover have "errors_ok (put_row site d1 m1) ?i head"
    using store_ok_parts(3) [OF assms(1)] new unfolding errors_ok_def by (simp add: m1_def ball_Un)
  moreover have "data_sources_ok (put_row site d1 m1) ?i head"
    using store_ok_parts(4) [OF assms(1)] by (simp add: data_sources_ok_def m1_def)
  ultimately have "store_ok layout site s' d1 head"
    using assms(1) by (simp add: s' store_ok_def d1_def health_after_def)
  then show ?thesis by (intro exI [of _ d1]) (simp add: d1_def)
qed

lemma block_ptr_latest:
  assumes "site_row m site d" and "block_ptr m (s_deployment site) = Inr (Some p)"
  shows "d_latest_number d = Some (ptr_number p)"
  using assms(2) unfolding block_ptr_def find_site_row [OF assms(1)]
  by (auto simp: detail_block_def block_ptr_from_u64_def split: option.splits if_splits)

lemma step_keeps_deployment_ok:
  assumes "store_step h info layout site s s'" and "deployment_ok layout site s"
  shows "deployment_ok layout site s'"
proof -
  obtain d head where ok: "store_ok layout site s d head" and hd: "- 1 \<le> head" "head < 2147483647"
      and latest: "case d_latest_number d of Some n \<Rightarrow> 0 \<le> n \<and> n = head \<and> (\<exists>hs. d_latest_hash d = Some hs \<and> length hs = 32)
        | None \<Rightarrow> head = - 1 \<and> d_latest_hash d = None"
    using assms(2) unfolding deployment_ok_def deployment_at_def by blast
  have i: "is_i32 head" using hd by (simp add: is_i32_def)
  from assms(1) show ?thesis
  proof cases
    case (transacted ptr mods dss errs nt cursor ev)
    show ?thesis
    proof (cases "head < ptr_number ptr")
      case True
      obtain s2 d2 where "transact_block_operations h nt info layout site ptr cursor mods dss errs s = Inr (event_from_modifications nt mods, s2)"
          "store_ok layout site s2 d2 (ptr_number ptr)" "d_latest_number d2 = Some (ptr_number ptr)" "d_latest_hash d2 = Some (ptr_hash ptr)"
        using transact_spec [OF ok True transacted(2,3,1), of h nt cursor] by blast
      moreover from this(1) transacted(5) have "s' = s2" by simp
      ultimately show ?thesis using transacted(2-4) by (intro deployment_okI [of layout site s' d2 ptr]) simp_all
    next
      case False
      with transacted(2) have "0 \<le> head" by simp
      show ?thesis
      proof (cases "d_latest_number d")
        case (Some n)
        with ok False have "\<not> is_behind d (ptr_number ptr)" by (simp add: store_ok_def is_behind_def)
        from transact_behind_fails [OF store_ok_parts(2) [OF ok] this, of h nt info layout cursor mods dss errs] transacted(5)
        show ?thesis by auto
      next
        case None
        with latest \<open>0 \<le> head\<close> show ?thesis by simp
      qed
    qed
  next
    case (reverted to nt cursor ev)
    from revert_block_spec [OF ok i reverted(1,3)] obtain d2 where "ptr_number to < head" "store_ok layout site s' d2 (ptr_number to)"
        "d_latest_number d2 = Some (ptr_number to)" "d_latest_hash d2 = Some (ptr_hash to)" by blast
    then show ?thesis using reverted(1,2) hd by (intro deployment_okI [of layout site s' d2 to]) simp_all
  next
    case (failed err)
    have "err_deterministic err \<longrightarrow> (\<exists>p. err_block_ptr err = Some p \<and> ptr_number p \<le> head)"
    proof
      assume "err_deterministic err"
      then obtain p q where p: "err_block_ptr err = Some p" "ptr_number p \<le> ptr_number q" "block_ptr (meta s) (s_deployment site) = Inr (Some q)"
        using failed(2) by blast
      have "ptr_number q = head" using block_ptr_latest [OF store_ok_parts(2) [OF ok] p(3)] latest by simp
      with p show "\<exists>p. err_block_ptr err = Some p \<and> ptr_number p \<le> head" by simp
    qed
    from fail_keeps_store_ok [OF ok failed(3,1) this] obtain d2 where "store_ok layout site s' d2 head"
        "d_latest_number d2 = d_latest_number d" "d_latest_hash d2 = d_latest_hash d" by blast
    then show ?thesis using hd latest unfolding deployment_ok_def deployment_at_def
      by (intro exI [of _ head] exI [of _ d2]) (cases "d_latest_number d"; simp)
  next
    case (unfailed parent nt current outcome)
    from unfail_spec [OF ok i unfailed(1,3)] consider "s' = s"
      | d2 where "ptr_number parent < head" "store_ok layout site s' d2 (ptr_number parent)"
        "d_latest_number d2 = Some (ptr_number parent)" "d_latest_hash d2 = Some (ptr_hash parent)" by blast
    then show ?thesis
    proof cases
      case 1
      with assms(2) show ?thesis by simp
    next
      case (2 d2)
      then show ?thesis using unfailed(1,2) hd by (intro deployment_okI [of layout site s' d2 parent]) simp_all
    qed
  qed
qed

lemma ex_deployment_ok: "deployment_ok ex_layout ex_site ex_store"
  using ex_store_ok by (intro deployment_okI [of _ _ _ ex_deployment "ex_ptr 3"]) (simp_all add: ex_ptr_def ex_hash_def ex_deployment_def)

section \<open>Ids of entities that share an interface\<close>

text \<open>
  The check that keeps the ids of types with a common interface apart is exact for all the
  versions the tables hold. It passes exactly when no version of any entity of such a type, current
  or not, has the id, and otherwise reports one of the types that has it; so the id of an entity
  that was deleted long ago still conflicts.
\<close>

theorem interface_ids_checked:
  assumes "layout_inv layout head d" and "subgraph_id key = site_deployment layout"
    and "shared_interface_types info (entity_type key) = Inr types"
    and "\<forall>ty \<in> set types. hm_get (tables layout) ty \<noteq> None"
  shows "if \<exists>ty \<in> set types. entity_id key \<in> row_ids d ty
    then \<exists>ty \<in> set types. entity_id key \<in> row_ids d ty \<and>
      check_interface_entity_uniqueness info layout d key = Inl (ConflictingId (entity_type key) (entity_id key) ty)
    else check_interface_entity_uniqueness info layout d key = Inr ()"
proof -
  let ?i = "entity_id key"
  let ?hits = "\<lambda>ty. map (\<lambda>_. ty) (filter (\<lambda>r. row_id r = ?i) (d ty))"
  have tm: "try_map (table_for_entity layout) types = Inr (map (\<lambda>ty. the (hm_get (tables layout) ty)) types)"
    using assms(4) by (intro try_map_Inr) (auto simp: table_for_entity_def split: option.splits)
  have "object (the (hm_get (tables layout) ty)) = ty" if "ty \<in> set types" for ty
    using layout_inv_table(1) [OF assms(1)] assms(4) that by fastforce
  then have hits: "map ((\<lambda>t. map (\<lambda>_. object t) (filter (\<lambda>r. row_id r = ?i) (d (object t)))) \<circ> (\<lambda>ty. the (hm_get (tables layout) ty))) types =
      map ?hits types"
    by (intro map_cong) auto
  have found: "conflicting_entity layout d ?i types =
      Inr (if concat (map ?hits types) = [] then None else Some (last (concat (map ?hits types))))"
    unfolding conflicting_entity_def Let_def tm and_then_simps map_map hits ..
  have mem: "ty \<in> set (concat (map ?hits types)) \<longleftrightarrow> ty \<in> set types \<and> ?i \<in> row_ids d ty" for ty
    unfolding row_ids_def set_concat set_map set_filter by (auto simp: image_iff) metis
  show ?thesis
  proof (cases "concat (map ?hits types) = []")
    case True
    then have "\<not> (\<exists>ty \<in> set types. ?i \<in> row_ids d ty)" using mem unfolding True by simp
    moreover have "check_interface_entity_uniqueness info layout d key = Inr ()"
      using assms(2,3) found True by (simp add: check_interface_entity_uniqueness_def del: concat_eq_Nil_conv)
    ultimately show ?thesis by simp
  next
    case False
    then have l: "last (concat (map ?hits types)) \<in> set types" "?i \<in> row_ids d (last (concat (map ?hits types)))"
      using last_in_set [OF False] unfolding mem by simp_all
    then have "types \<noteq> []" by auto
    then have "check_interface_entity_uniqueness info layout d key =
        Inl (ConflictingId (entity_type key) ?i (last (concat (map ?hits types))))"
      using assms(2,3) found False by (simp add: check_interface_entity_uniqueness_def del: concat_eq_Nil_conv)
    with l show ?thesis by auto
  qed
qed

theorem interface_ids_checked_witness:
  "check_interface_entity_uniqueness
     \<lparr>info_interfaces_for_type = [(''Bar'', [''Pet''])], info_types_for_interface = [(''Pet'', [''Foo'', ''Bar''])], info_graft_block = None\<rparr>
     ex_layout ex_db \<lparr>subgraph_id = ''Qm'', entity_type = ''Bar'', entity_id = ''b''\<rparr> = Inl (ConflictingId ''Bar'' ''b'' ''Foo'') \<and>
   reads ex_layout ex_db ''Foo'' ''b'' 3 = Inr None"
proof -
  let ?info = "\<lparr>info_interfaces_for_type = [(''Bar'', [''Pet''])], info_types_for_interface = [(''Pet'', [''Foo'', ''Bar''])], info_graft_block = None\<rparr>"
  have types: "shared_interface_types ?info ''Bar'' = Inr [''Foo'']" by (simp add: shared_interface_types_def)
  have "''b'' \<in> row_ids ex_db ''Foo''" by (simp add: row_ids_def ex_db_def ex_row_def)
  moreover have "layout_inv ex_layout 3 ex_db" by (rule ex_inv)
  moreover have "reads ex_layout ex_db ''Foo'' ''b'' 3 = Inr None"
    using reads_history [OF ex_inv, of 3 "''Foo''" "''b''"] ex_get
    by (simp add: table_history_def stored_def version_def) (simp add: ex_db_def ex_row_def row_contains_def)
  ultimately show ?thesis
    using interface_ids_checked [OF ex_inv, of "\<lparr>subgraph_id = ''Qm'', entity_type = ''Bar'', entity_id = ''b''\<rparr>" ?info "[''Foo'']"] types ex_get
    by (simp add: ex_layout_def)
qed

section \<open>Where the store accepts too much\<close>

text \<open>
  C29: Rewinding does not check its direction. A rewind to a block at or beyond the block pointer
  succeeds, changes no entity and moves the block pointer forward over blocks that were never
  processed.
\<close>

theorem rewind_goes_forward:
  assumes "store_ok layout site s d head" and "block_ptr (meta s) (s_deployment site) = Inr (Some p)"
    and "ptr_number p \<le> ptr_number to" and "ptr_number to < 2147483647" and "length (ptr_hash to) = 32"
    and "case info_graft_block info of Some g \<Rightarrow> g \<le> ptr_number to | None \<Rightarrow> True"
    and "is_i32 (d_reorg_count d + 1)" and "is_i32 (d_current_reorg_depth d + 1)"
  shows "\<exists>ev s'. rewind nt info layout site to s = Inr (ev, s') \<and>
    block_ptr (meta s') (s_deployment site) = Inr (Some to) \<and>
    (\<forall>ty i c. c \<le> 2147483647 \<longrightarrow> reads layout (entities s') ty i c = reads layout (entities s) ty i c)"
proof -
  let ?t = "ptr_number to"
  have inv: "layout_inv layout head (entities s)" and row: "site_row (meta s) site d" by (rule store_ok_parts [OF assms(1)])+
  have head: "head = ptr_number p" using assms(1) block_ptr_latest [OF row assms(2)] by (simp add: store_ok_def)
  have "0 \<le> ptr_number p"
    using assms(2) unfolding block_ptr_def find_site_row [OF row]
    by (auto simp: detail_block_def block_ptr_from_u64_def split: option.splits if_splits)
  then have t: "0 \<le> ?t" "is_i32 ?t" "is_i32 (?t + 1)" using assms(3,4) by (simp_all add: is_i32_def)
  obtain ev s' d' where s': "rewind_with_conn nt info layout site to (Some '''') s = Inr (ev, s')" "store_ok layout site s' d' ?t"
      "\<forall>ty i c. table_history layout (entities s') ty i c = table_history layout (entities s) ty i (min c ?t)"
      "d_latest_number d' = Some ?t" "d_latest_hash d' = Some (ptr_hash to)"
    using rewind_spec [OF assms(1) refl t(2,3) assms(6-8), of nt "Some ''''"] by blast
  have "rewind nt info layout site to s = Inr (ev, s')" using assms(2) s'(1) by (simp add: rewind_def)
  moreover have "block_ptr (meta s') (s_deployment site) = Inr (Some to)"
    using block_ptr_row [OF store_ok_parts(2) [OF s'(2)] s'(4,5) assms(5) t(1)] assms(4) by simp
  moreover have "reads layout (entities s') ty i c = reads layout (entities s) ty i c" if c: "c \<le> 2147483647" for ty i c
  proof -
    have "table_history layout (entities s) ty i (min c ?t) = table_history layout (entities s) ty i c"
      using table_history_stable [OF inv, of ?t c] assms(3) head by (auto simp: min_def)
    then show ?thesis
      unfolding reads_history [OF store_ok_parts(1) [OF s'(2)] c] reads_history [OF inv c] using s'(3) by simp
  qed
  ultimately show ?thesis by blast
qed

theorem rewind_goes_forward_witness:
  "\<exists>ev s'. rewind 0 ex_info ex_layout ex_site (ex_ptr 9) ex_store = Inr (ev, s') \<and>
     block_ptr (meta ex_store) ''Qm'' = Inr (Some (ex_ptr 3)) \<and> block_ptr (meta s') ''Qm'' = Inr (Some (ex_ptr 9))"
proof -
  have e: "s_deployment ex_site = ''Qm''" by (simp add: ex_site_def)
  have p: "block_ptr (meta ex_store) (s_deployment ex_site) = Inr (Some (ex_ptr 3))"
    using block_ptr_row [OF store_ok_parts(2) [OF ex_store_ok], of 3 "ex_hash 3"]
    by (simp add: ex_deployment_def ex_hash_def ex_ptr_def)
  have "\<exists>ev s'. rewind 0 ex_info ex_layout ex_site (ex_ptr 9) ex_store = Inr (ev, s') \<and>
      block_ptr (meta s') (s_deployment ex_site) = Inr (Some (ex_ptr 9)) \<and>
      (\<forall>ty i c. c \<le> 2147483647 \<longrightarrow> reads ex_layout (entities s') ty i c = reads ex_layout (entities ex_store) ty i c)"
    by (rule rewind_goes_forward [OF ex_store_ok p])
      (simp_all add: ex_ptr_def ex_hash_def ex_info_def ex_deployment_def is_i32_def)
  with p show ?thesis unfolding e by blast
qed

text \<open>
  C30: Unfailing after a non-deterministic error makes the deployment healthy and keeps its other
  errors, so that a deployment with non-fatal errors at its block pointer is reported as healthy.
\<close>

theorem unfail_non_deterministic_health:
  assumes "site_row (meta s) site d" and "fatal_error (meta s) (s_deployment site) = Some err" and "\<not> e_deterministic err"
    and "e_block_range err = Range (Some l) u" and "l \<le> ptr_number current"
  shows "\<exists>s'. unfail_non_deterministic_error site current s = (Unfailed, s') \<and>
    deployment_health (meta s') (s_deployment site) = Inr Healthy \<and>
    (has_non_fatal_errors (meta s') (s_deployment site) (Some b) \<longleftrightarrow>
     (\<exists>e \<in> set (errors (meta s)). e_id e \<noteq> e_id err \<and> e_subgraph_id e = s_deployment site \<and> e_deterministic e \<and>
        range_contains (e_block_range e) b))"
proof -
  let ?d = "d\<lparr>d_failed := is_failed Healthy, d_health := Healthy, d_fatal_error := None\<rparr>"
  have upd: "update_deployment_status (s_deployment site) Healthy None (meta s) = put_row site ?d (meta s)"
    by (rule update_deployment_status_row [OF assms(1)])
  define s' where "s' = s\<lparr>meta := delete_error (e_id err) (put_row site ?d (meta s))\<rparr>"
  have "unfail_non_deterministic_error site current s = (Unfailed, s')"
    using assms(2-5) by (simp add: unfail_non_deterministic_error_def upd s'_def Let_def)
  moreover have "site_row (meta s') site ?d"
    using assms(1) site_row_put [OF assms(1), of ?d] by (auto simp: s'_def delete_error_def site_row_def)
  then have "deployment_health (meta s') (s_deployment site) = Inr Healthy" by (simp add: deployment_health_row)
  moreover have "set (errors (meta s')) = {e \<in> set (errors (meta s)). e_id e \<noteq> e_id err}"
    by (simp add: s'_def delete_error_def)
  then have "has_non_fatal_errors (meta s') (s_deployment site) (Some b) \<longleftrightarrow>
     (\<exists>e \<in> set (errors (meta s)). e_id e \<noteq> e_id err \<and> e_subgraph_id e = s_deployment site \<and> e_deterministic e \<and>
        range_contains (e_block_range e) b)"
    unfolding has_non_fatal_errors_Some by blast
  ultimately show ?thesis by blast
qed

theorem unfail_non_deterministic_health_witness:
  "\<exists>s'. unfail_non_deterministic_error ex_site (ex_ptr 3)
      (ex_failed\<lparr>meta := (meta ex_failed)\<lparr>errors := [ex_error\<lparr>e_deterministic := False\<rparr>, ex_error\<lparr>e_id := ''f'', e_block_range := Range (Some 2) None\<rparr>]\<rparr>\<rparr>) =
        (Unfailed, s') \<and>
     deployment_health (meta s') ''Qm'' = Inr Healthy \<and> has_non_fatal_errors (meta s') ''Qm'' (Some 3)"
proof -
  let ?f = "ex_error\<lparr>e_id := ''f'', e_block_range := Range (Some 2) None\<rparr>"
  let ?s = "ex_failed\<lparr>meta := (meta ex_failed)\<lparr>errors := [ex_error\<lparr>e_deterministic := False\<rparr>, ?f]\<rparr>\<rparr>"
  have row: "site_row (meta ?s) ex_site ex_failed_row"
    using store_ok_parts(2) [OF ex_failed_ok] by (simp add: site_row_def)
  have fe: "fatal_error (meta ?s) (s_deployment ex_site) = Some (ex_error\<lparr>e_deterministic := False\<rparr>)"
    by (simp add: fatal_error_def ex_failed_def ex_failed_row_def ex_site_def ex_deployment_def ex_error_def)
  have e: "\<not> e_deterministic (ex_error\<lparr>e_deterministic := False\<rparr>)" "e_block_range (ex_error\<lparr>e_deterministic := False\<rparr>) = Range (Some 3) None"
      "3 \<le> ptr_number (ex_ptr 3)" "s_deployment ex_site = ''Qm''"
    by (simp_all add: ex_error_def ex_ptr_def ex_site_def)
  have "\<exists>x \<in> set (errors (meta ?s)). e_id x \<noteq> e_id (ex_error\<lparr>e_deterministic := False\<rparr>) \<and> e_subgraph_id x = ''Qm'' \<and> e_deterministic x \<and>
      range_contains (e_block_range x) 3"
    by (simp add: ex_error_def)
  then show ?thesis
    using unfail_non_deterministic_health [OF row fe e(1-3), of 3] unfolding e(4) by blast
qed

end
