(* ===== verification/Backoff.thy ===== *)
theory Backoff
  imports Relational
begin

text \<open>
  Exponential backoff (\<^verbatim>\<open>graph/src/util/backoff.rs\<close>) and the loop of \<^verbatim>\<open>store/postgres/src/writable.rs\<close> that retries an
  operation as long as the database is unavailable. A duration is a number of nanoseconds.
\<close>

section \<open>Durations\<close>

definition DURATION_MAX :: nat where
  "DURATION_MAX = 2 ^ 64 * 10 ^ 9 - 1"

definition duration_saturating_mul :: "nat \<Rightarrow> nat \<Rightarrow> nat" where
  "duration_saturating_mul d n = min (d * n) DURATION_MAX"

definition from_millis :: "nat \<Rightarrow> nat" where
  "from_millis n = n * 10 ^ 6"

definition from_secs :: "nat \<Rightarrow> nat" where
  "from_secs n = n * 10 ^ 9"

section \<open>Backoff\<close>

record ExponentialBackoff =
  attempt :: nat
  base :: nat
  ceiling :: nat

definition backoff_new :: "nat \<Rightarrow> nat \<Rightarrow> ExponentialBackoff" where
  "backoff_new b c = \<lparr>attempt = 0, base = b, ceiling = c\<rparr>"

text \<open>
  The factor is the \<open>u32\<close> that \<open>1 << attempt\<close> computes. With overflow checks a shift by 32 or more
  panics, which is the result \<open>None\<close>; without them the distance is taken modulo 32.
\<close>

definition delay :: "bool \<Rightarrow> ExponentialBackoff \<Rightarrow> nat option" where
  "delay overflow_checks b =
     (if overflow_checks \<and> 32 \<le> attempt b then None
      else
        (let d = duration_saturating_mul (base b) (2 ^ (attempt b mod 32))
         in Some (if ceiling b < d then ceiling b else d)))"

definition next_attempt :: "bool \<Rightarrow> ExponentialBackoff \<Rightarrow> (nat \<times> ExponentialBackoff) option" where
  "next_attempt overflow_checks b =
     (case delay overflow_checks b of
        None \<Rightarrow> None
      | Some d \<Rightarrow> Some (d, b\<lparr>attempt := attempt b + 1\<rparr>))"

definition backoff_reset :: "ExponentialBackoff \<Rightarrow> ExponentialBackoff" where
  "backoff_reset b = b\<lparr>attempt := 0\<rparr>"

section \<open>Retrying\<close>

definition BACKOFF_BASE :: nat where
  "BACKOFF_BASE = from_millis 100"

definition BACKOFF_CEIL :: nat where
  "BACKOFF_CEIL = from_secs 10"

text \<open>
  \<open>f k\<close> is the outcome of the \<open>k\<close>-th call of the operation. The result carries the durations for which
  the loop slept. A loop that never ends is \<open>None\<close>.
\<close>

partial_function (option) retry_loop ::
  "bool \<Rightarrow> (nat \<Rightarrow> (StoreError, 'a) result) \<Rightarrow> nat \<Rightarrow> ExponentialBackoff \<Rightarrow> nat list \<Rightarrow>
   ((StoreError, 'a) result \<times> nat list) option" where
  "retry_loop overflow_checks f k b slept =
     (if f k \<noteq> Inl DatabaseUnavailable then Some (f k, slept)
      else
        (case next_attempt overflow_checks b of
           None \<Rightarrow> Some (Inl (Panic ''attempt to shift left with overflow''), slept)
         | Some (d, b1) \<Rightarrow> retry_loop overflow_checks f (k + 1) b1 (slept @ [d])))"

definition retry ::
  "bool \<Rightarrow> (nat \<Rightarrow> (StoreError, 'a) result) \<Rightarrow> ((StoreError, 'a) result \<times> nat list) option" where
  "retry overflow_checks f = retry_loop overflow_checks f 0 (backoff_new BACKOFF_BASE BACKOFF_CEIL) []"

section \<open>Properties\<close>

lemma delay_unchecked: "\<exists>d \<le> ceiling b. delay False b = Some d"
  by (auto simp: delay_def Let_def)

lemma retry_loop_done: "f k \<noteq> Inl DatabaseUnavailable \<Longrightarrow> retry_loop checks f k b slept = Some (f k, slept)"
  by (subst retry_loop.simps) simp

lemma retry_loop_unchecked:
  assumes "\<forall>j < n. f (k + j) = Inl DatabaseUnavailable" and "f (k + n) \<noteq> Inl DatabaseUnavailable"
  shows "\<exists>ds. retry_loop False f k b slept = Some (f (k + n), slept @ ds) \<and> length ds = n \<and> (\<forall>d \<in> set ds. d \<le> ceiling b)"
  using assms
proof (induction n arbitrary: k b slept)
  case 0
  then show ?case by (simp add: retry_loop_done)
next
  case (Suc n)
  obtain d where d: "delay False b = Some d" "d \<le> ceiling b" using delay_unchecked by blast
  let ?b = "b\<lparr>attempt := attempt b + 1\<rparr>"
  have "\<forall>j < n. f (k + 1 + j) = Inl DatabaseUnavailable" using Suc.prems(1) by auto
  moreover have "f (k + 1 + n) \<noteq> Inl DatabaseUnavailable" using Suc.prems(2) by simp
  ultimately obtain ds where ds: "retry_loop False f (k + 1) ?b (slept @ [d]) = Some (f (k + 1 + n), (slept @ [d]) @ ds)"
      "length ds = n" "\<forall>d \<in> set ds. d \<le> ceiling ?b"
    using Suc.IH by blast
  have "f k = Inl DatabaseUnavailable" using Suc.prems(1) by (metis add.right_neutral zero_less_Suc)
  then have "retry_loop False f k b slept = retry_loop False f (k + 1) ?b (slept @ [d])"
    using d(1) by (subst retry_loop.simps) (simp add: next_attempt_def)
  with ds d(2) show ?case by (intro exI [of _ "d # ds"]) simp
qed

lemma retry_first:
  assumes "\<forall>j < n. f j = Inl DatabaseUnavailable" and "f n \<noteq> Inl DatabaseUnavailable"
  shows "\<exists>ds. retry False f = Some (f n, ds) \<and> length ds = n \<and> (\<forall>d \<in> set ds. d \<le> BACKOFF_CEIL)"
  using retry_loop_unchecked [of n f 0 "backoff_new BACKOFF_BASE BACKOFF_CEIL" "[]"] assms
  by (simp add: retry_def backoff_new_def)

lemma retry_loop_result:
  assumes "retry_loop checks f k b slept = Some y"
  shows "\<not> checks \<longrightarrow> (\<exists>n. fst y = f n \<and> f n \<noteq> Inl DatabaseUnavailable)"
  using assms
proof (rule retry_loop.raw_induct [rotated, where P = "\<lambda>checks f k b slept y.
    \<not> checks \<longrightarrow> (\<exists>n. fst y = f n \<and> f n \<noteq> Inl DatabaseUnavailable)"], intro impI)
  fix loop checks f k b slept y
  assume IH: "\<And>checks f k b slept y. loop checks f k b slept = Some y \<Longrightarrow>
      \<not> checks \<longrightarrow> (\<exists>n. fst y = f n \<and> f n \<noteq> Inl DatabaseUnavailable)"
    and body: "(if f k \<noteq> Inl DatabaseUnavailable then Some (f k, slept)
      else case next_attempt checks b of
        None \<Rightarrow> Some (Inl (Panic ''attempt to shift left with overflow''), slept)
      | Some (d, b1) \<Rightarrow> loop checks f (k + 1) b1 (slept @ [d])) = Some y"
    and checks: "\<not> checks"
  show "\<exists>n. fst y = f n \<and> f n \<noteq> Inl DatabaseUnavailable"
  proof (cases "f k = Inl DatabaseUnavailable")
    case True
    obtain d where "next_attempt checks b = Some (d, b\<lparr>attempt := attempt b + 1\<rparr>)"
      using delay_unchecked [of b] checks by (auto simp: next_attempt_def)
    with body True have "loop checks f (k + 1) (b\<lparr>attempt := attempt b + 1\<rparr>) (slept @ [d]) = Some y" by simp
    from IH [OF this] checks show ?thesis by blast
  next
    case False
    with body have "y = (f k, slept)" by simp
    with False show ?thesis by auto
  qed
qed



text \<open>
  C36: The delays double from the base up to the ceiling for the first 32 attempts only. The attempt
  after that panics with overflow checks, and without them it starts over with the base, although the
  ceiling has long been reached.
\<close>

theorem backoff_starts_over:
  assumes "base b \<le> ceiling b" and "ceiling b \<le> DURATION_MAX"
  shows "(attempt b < 32 \<longrightarrow> delay checks b = Some (min (base b * 2 ^ attempt b) (ceiling b))) \<and>
    (attempt b = 32 \<longrightarrow> delay True b = None \<and> delay False b = Some (base b))"
proof -
  have "delay checks b = Some (min (base b * 2 ^ attempt b) (ceiling b))" if "attempt b < 32"
    using that assms(2) by (auto simp: delay_def Let_def duration_saturating_mul_def min_def)
  moreover have "delay True b = None \<and> delay False b = Some (base b)" if "attempt b = 32"
    using that assms by (auto simp: delay_def Let_def duration_saturating_mul_def min_def)
  ultimately show ?thesis by blast
qed

theorem backoff_starts_over_witness:
  "delay False \<lparr>attempt = 31, base = 1, ceiling = 100\<rparr> = Some 100 \<and>
   delay False \<lparr>attempt = 32, base = 1, ceiling = 100\<rparr> = Some 1 \<and> delay True \<lparr>attempt = 32, base = 1, ceiling = 100\<rparr> = None"
proof -
  have m: "(100 :: nat) \<le> DURATION_MAX" by (simp add: DURATION_MAX_def)
  show ?thesis
    using backoff_starts_over [of "\<lparr>attempt = 31, base = 1, ceiling = 100\<rparr>" False]
      backoff_starts_over [of "\<lparr>attempt = 32, base = 1, ceiling = 100\<rparr>" False] m by simp
qed

end
