(* ===== verification/Bounded_Queue.thy ===== *)
theory Bounded_Queue
  imports Prelude
begin

text \<open>
  The queue of bounded size (\<^verbatim>\<open>graph/src/util/bounded_queue.rs\<close>). Two semaphores count the empty and the
  filled places; acquiring a permit that is not there blocks. An operation that would block is
  \<open>None\<close>; one that runs is \<open>Some\<close> of its outcome, which is \<open>Inl ()\<close> when the queue is found empty
  although a permit was acquired, and the code panics.
\<close>

section \<open>Operations\<close>

record 'a bounded_queue =
  capacity :: nat
  items :: "'a list"
  push_permits :: nat
  pop_permits :: nat

definition bq_with_capacity :: "nat \<Rightarrow> 'a bounded_queue" where
  "bq_with_capacity n = \<lparr>capacity = n, items = [], push_permits = n, pop_permits = 0\<rparr>"

definition bq_pop :: "'a bounded_queue \<Rightarrow> (unit, 'a \<times> 'a bounded_queue) result option" where
  "bq_pop q =
     (if pop_permits q = 0 then None
      else
        Some (case items q of
                [] \<Rightarrow> Inl ()
              | x # xs \<Rightarrow> Inr (x, q\<lparr>items := xs, pop_permits := pop_permits q - 1, push_permits := push_permits q + 1\<rparr>)))"

definition bq_try_pop :: "'a bounded_queue \<Rightarrow> (unit, 'a option \<times> 'a bounded_queue) result" where
  "bq_try_pop q =
     (case bq_pop q of
        None \<Rightarrow> Inr (None, q)
      | Some (Inl _) \<Rightarrow> Inl ()
      | Some (Inr (x, q1)) \<Rightarrow> Inr (Some x, q1))"

definition bq_peek :: "'a bounded_queue \<Rightarrow> (unit, 'a) result option" where
  "bq_peek q =
     (if pop_permits q = 0 then None
      else Some (case items q of [] \<Rightarrow> Inl () | x # _ \<Rightarrow> Inr x))"

definition bq_push :: "'a \<Rightarrow> 'a bounded_queue \<Rightarrow> 'a bounded_queue option" where
  "bq_push x q =
     (if push_permits q = 0 then None
      else Some (q\<lparr>items := items q @ [x], push_permits := push_permits q - 1, pop_permits := pop_permits q + 1\<rparr>))"

text \<open>The number of permits to wait for is the capacity as a \<open>u32\<close>; the permits are given back at once.\<close>

definition bq_wait_empty :: "'a bounded_queue \<Rightarrow> unit option" where
  "bq_wait_empty q = (if capacity q mod 2 ^ 32 \<le> push_permits q then Some () else None)"

definition bq_len :: "'a bounded_queue \<Rightarrow> nat" where
  "bq_len q = length (items q)"

definition bq_is_empty :: "'a bounded_queue \<Rightarrow> bool" where
  "bq_is_empty q \<longleftrightarrow> items q = []"

text \<open>Both traversals go from the newest to the oldest entry and carry the state of the closure along.\<close>

fun find_map_state :: "('a \<Rightarrow> 's \<Rightarrow> 'b option \<times> 's) \<Rightarrow> 'a list \<Rightarrow> 's \<Rightarrow> 'b option \<times> 's" where
  "find_map_state f [] s = (None, s)"
| "find_map_state f (x # xs) s =
     (case f x s of (Some y, s1) \<Rightarrow> (Some y, s1) | (None, s1) \<Rightarrow> find_map_state f xs s1)"

definition bq_find_map :: "('a \<Rightarrow> 's \<Rightarrow> 'b option \<times> 's) \<Rightarrow> 'a bounded_queue \<Rightarrow> 's \<Rightarrow> 'b option \<times> 's" where
  "bq_find_map f q = find_map_state f (rev (items q))"

definition bq_fold :: "('a \<Rightarrow> 's \<Rightarrow> 's) \<Rightarrow> 'a bounded_queue \<Rightarrow> 's \<Rightarrow> 's" where
  "bq_fold f q = fold f (rev (items q))"

text \<open>Clearing pops entries until there is no permit left.\<close>

function bq_clear :: "'a bounded_queue \<Rightarrow> (unit, 'a bounded_queue) result" where
  "bq_clear q =
     (case bq_try_pop q of
        Inl _ \<Rightarrow> Inl ()
      | Inr (None, q1) \<Rightarrow> Inr q1
      | Inr (Some _, q1) \<Rightarrow> bq_clear q1)"
  by pat_completeness auto
termination
  by (relation "measure pop_permits")
    (auto simp: bq_try_pop_def bq_pop_def split: option.splits sum.splits list.splits if_splits)

declare bq_clear.simps [simp del]

section \<open>The invariant of the semaphores\<close>

definition bq_ok :: "'a bounded_queue \<Rightarrow> bool" where
  "bq_ok q \<longleftrightarrow> push_permits q + length (items q) = capacity q \<and> pop_permits q = length (items q)"

lemma bq_ok_new [simp]: "bq_ok (bq_with_capacity n)" "items (bq_with_capacity n) = []"
    "capacity (bq_with_capacity n) = n"
  by (simp_all add: bq_ok_def bq_with_capacity_def)

lemma bq_push_ok:
  assumes "bq_ok q" and "bq_push x q = Some q'"
  shows "bq_ok q'" and "items q' = items q @ [x]" and "capacity q' = capacity q" and "length (items q) < capacity q"
  using assms by (auto simp: bq_push_def bq_ok_def split: if_splits)

lemma bq_push_blocks: "bq_ok q \<Longrightarrow> bq_push x q = None \<longleftrightarrow> length (items q) = capacity q"
  by (auto simp: bq_push_def bq_ok_def)

lemma bq_pop_ok:
  assumes "bq_ok q"
  shows "items q = [] \<Longrightarrow> bq_pop q = None"
    and "items q = x # xs \<Longrightarrow> \<exists>q'. bq_pop q = Some (Inr (x, q')) \<and> bq_ok q' \<and> items q' = xs \<and> capacity q' = capacity q"
  using assms by (auto simp: bq_pop_def bq_ok_def)

lemma bq_peek_ok:
  assumes "bq_ok q"
  shows "bq_peek q = (case items q of [] \<Rightarrow> None | x # _ \<Rightarrow> Some (Inr x))"
  using assms by (auto simp: bq_peek_def bq_ok_def split: list.splits)

lemma bq_clear_ok:
  assumes "bq_ok q"
  shows "\<exists>q'. bq_clear q = Inr q' \<and> bq_ok q' \<and> items q' = [] \<and> capacity q' = capacity q"
  using assms
proof (induction "items q" arbitrary: q)
  case Nil
  then have "bq_pop q = None" by (metis bq_pop_ok(1))
  then have "bq_clear q = Inr q" by (subst bq_clear.simps) (simp add: bq_try_pop_def)
  with Nil show ?case by auto
next
  case (Cons x xs)
  obtain q1 where q1: "bq_pop q = Some (Inr (x, q1))" "bq_ok q1" "items q1 = xs" "capacity q1 = capacity q"
    using bq_pop_ok(2) [OF Cons.prems] Cons.hyps(2) by metis
  have "bq_clear q = bq_clear q1" by (subst bq_clear.simps) (simp add: bq_try_pop_def q1(1))
  with Cons.hyps(1) [of q1] q1 show ?case by auto
qed

lemma bq_wait_empty_ok:
  assumes "bq_ok q" and "0 < capacity q" and "capacity q < 2 ^ 32"
  shows "bq_wait_empty q = Some () \<longleftrightarrow> items q = []"
  using assms by (cases "items q") (auto simp: bq_wait_empty_def bq_ok_def)

section \<open>A queue as its users see it\<close>

text \<open>
  What the users of a bounded queue rely on: a representation invariant, the entries from the oldest
  to the newest, and which operations run. A client of this interface never sees the panics.
\<close>

locale fifo =
  fixes ok :: "'q \<Rightarrow> bool" and entries :: "'q \<Rightarrow> 'a list" and cap :: "'q \<Rightarrow> nat"
    and push :: "'a \<Rightarrow> 'q \<Rightarrow> 'q option" and pop :: "'q \<Rightarrow> (unit, 'a \<times> 'q) result option"
    and peek :: "'q \<Rightarrow> (unit, 'a) result option" and clear :: "'q \<Rightarrow> (unit, 'q) result"
  assumes bounded: "ok q \<Longrightarrow> length (entries q) \<le> cap q"
    and push_Some: "ok q \<Longrightarrow> push x q = Some q' \<Longrightarrow> ok q' \<and> entries q' = entries q @ [x] \<and> cap q' = cap q"
    and push_None: "ok q \<Longrightarrow> push x q = None \<longleftrightarrow> length (entries q) = cap q"
    and pop_empty: "ok q \<Longrightarrow> entries q = [] \<Longrightarrow> pop q = None"
    and pop_entry: "ok q \<Longrightarrow> entries q = x # xs \<Longrightarrow>
      \<exists>q'. pop q = Some (Inr (x, q')) \<and> ok q' \<and> entries q' = xs \<and> cap q' = cap q"
    and peek_front: "ok q \<Longrightarrow> peek q = (case entries q of [] \<Rightarrow> None | x # _ \<Rightarrow> Some (Inr x))"
    and clear_all: "ok q \<Longrightarrow> \<exists>q'. clear q = Inr q' \<and> ok q' \<and> entries q' = [] \<and> cap q' = cap q"
begin

lemma never_panics: "ok q \<Longrightarrow> pop q \<noteq> Some (Inl ()) \<and> peek q \<noteq> Some (Inl ())"
  using pop_empty [of q] pop_entry [of q] peek_front [of q] by (cases "entries q") auto

text \<open>Entries that are pushed while there is room come out in the order they went in.\<close>

fun push_all :: "'a list \<Rightarrow> 'q \<Rightarrow> 'q option" where
  "push_all [] q = Some q"
| "push_all (x # xs) q = (case push x q of None \<Rightarrow> None | Some q1 \<Rightarrow> push_all xs q1)"

fun pop_all :: "nat \<Rightarrow> 'q \<Rightarrow> ('a list \<times> 'q) option" where
  "pop_all 0 q = Some ([], q)"
| "pop_all (Suc n) q =
     (case pop q of
        Some (Inr (x, q1)) \<Rightarrow> (case pop_all n q1 of Some (xs, q2) \<Rightarrow> Some (x # xs, q2) | None \<Rightarrow> None)
      | _ \<Rightarrow> None)"

lemma push_all_ok:
  "ok q \<Longrightarrow> length (entries q) + length xs \<le> cap q \<Longrightarrow>
   \<exists>q'. push_all xs q = Some q' \<and> ok q' \<and> entries q' = entries q @ xs \<and> cap q' = cap q"
proof (induction xs arbitrary: q)
  case (Cons x xs)
  obtain q1 where "push x q = Some q1" using push_None [OF Cons.prems(1), of x] Cons.prems(2) by (cases "push x q") auto
  with push_Some [OF Cons.prems(1) this] Cons.IH [of q1] Cons.prems(2) show ?case by auto
qed simp

lemma pop_all_ok:
  "ok q \<Longrightarrow> entries q = xs @ ys \<Longrightarrow> \<exists>q'. pop_all (length xs) q = Some (xs, q') \<and> ok q' \<and> entries q' = ys"
proof (induction xs arbitrary: q)
  case (Cons x xs)
  then obtain q1 where "pop q = Some (Inr (x, q1))" "ok q1" "entries q1 = xs @ ys" using pop_entry [of q x "xs @ ys"] by auto
  with Cons.IH [of q1] show ?case by auto
qed simp

lemma first_in_first_out:
  assumes "ok q" and "entries q = []" and "length xs \<le> cap q"
  shows "\<exists>q1 q2. push_all xs q = Some q1 \<and> pop_all (length xs) q1 = Some (xs, q2) \<and> entries q2 = []"
  using push_all_ok [OF assms(1), of xs] pop_all_ok [of _ xs "[]"] assms(2,3) by fastforce

end

interpretation bq: fifo bq_ok items capacity bq_push bq_pop bq_peek bq_clear
proof unfold_locales
  show "length (items q) \<le> capacity q" if "bq_ok q" for q :: "'a bounded_queue"
    using that by (simp add: bq_ok_def)
  show "bq_ok q' \<and> items q' = items q @ [x] \<and> capacity q' = capacity q" if "bq_ok q" "bq_push x q = Some q'"
    for q q' :: "'a bounded_queue" and x
    using bq_push_ok [OF that] by simp
qed (rule bq_push_blocks bq_pop_ok bq_peek_ok bq_clear_ok; assumption)+

end
