(* ===== verification/Writable.thy ===== *)
theory Writable
  imports Store_Guarantees Backoff Bounded_Queue "HOL-Library.Option_ord" "HOL-Library.Multiset"
begin

text \<open>
  The store a subgraph writes to (\<^verbatim>\<open>store/postgres/src/writable.rs\<close>). A synchronous store retries its operations
  while the database is unavailable; a queue takes the writes and reverts of a subgraph, a
  background task executes them in order, and reads combine what is queued with what is stored.

  The availability of the database is an argument of each operation: \<open>av k\<close> says whether the \<open>k\<close>-th attempt
  finds it available. The build is a release build, in which the backoff does not panic.
\<close>

section \<open>The synchronous store\<close>

record sync_env =
  se_hash :: "SubgraphError \<Rightarrow> string"
  se_tag :: nat
  se_info :: SubgraphInfo
  se_layout :: Layout
  se_site :: Site
  disable_subscription_notifications :: bool

text \<open>The store with the events that were handed to the notification system, whose errors are only logged.\<close>

record sync_store =
  writable :: store
  sent :: "StoreEvent list"

definition sync_retry :: "(nat \<Rightarrow> bool) \<Rightarrow> (StoreError, 'a) result \<Rightarrow> (StoreError, 'a) result option" where
  "sync_retry av r = map_option fst (retry False (\<lambda>k. if av k then r else Inl DatabaseUnavailable))"

definition try_send_store_event :: "sync_env \<Rightarrow> StoreEvent \<Rightarrow> sync_store \<Rightarrow> sync_store" where
  "try_send_store_event env event st =
     (if \<not> disable_subscription_notifications env then st\<lparr>sent := sent st @ [event]\<rparr> else st)"

definition sync_block_ptr :: "sync_env \<Rightarrow> (nat \<Rightarrow> bool) \<Rightarrow> sync_store \<Rightarrow> (StoreError, BlockPtr option) result option" where
  "sync_block_ptr env av st = sync_retry av (block_ptr (meta (writable st)) (s_deployment (se_site env)))"

definition sync_block_cursor :: "sync_env \<Rightarrow> sync_store \<Rightarrow> (StoreError, string option) result" where
  "sync_block_cursor env st = get_subgraph_firehose_cursor (se_site env) (meta (writable st))"

definition sync_delete_block_cursor :: "sync_env \<Rightarrow> sync_store \<Rightarrow> sync_store" where
  "sync_delete_block_cursor env st =
     st\<lparr>writable := (writable st)\<lparr>meta := delete_subgraph_firehose_cursor (se_site env) (meta (writable st))\<rparr>\<rparr>"

definition revert_once ::
  "sync_env \<Rightarrow> BlockPtr \<Rightarrow> string option \<Rightarrow> sync_store \<Rightarrow> (StoreError, sync_store) result" where
  "revert_once env block_ptr_to firehose_cursor st =
     and_then (revert_block_operations (se_tag env) (se_info env) (se_layout env) (se_site env) block_ptr_to firehose_cursor (writable st))
       (\<lambda>(event, s). Inr (try_send_store_event env event (st\<lparr>writable := s\<rparr>)))"

definition sync_revert_block_operations ::
  "sync_env \<Rightarrow> (nat \<Rightarrow> bool) \<Rightarrow> BlockPtr \<Rightarrow> string option \<Rightarrow> sync_store \<Rightarrow> (StoreError, sync_store) result option" where
  "sync_revert_block_operations env av block_ptr_to firehose_cursor st =
     sync_retry av (revert_once env block_ptr_to firehose_cursor st)"

definition sync_unfail_deterministic_error ::
  "sync_env \<Rightarrow> (nat \<Rightarrow> bool) \<Rightarrow> BlockPtr \<Rightarrow> BlockPtr \<Rightarrow> sync_store \<Rightarrow> (StoreError, UnfailOutcome \<times> sync_store) result option" where
  "sync_unfail_deterministic_error env av current_ptr parent_ptr st =
     sync_retry av
       (and_then (unfail_deterministic_error (se_tag env) (se_info env) (se_layout env) (se_site env) current_ptr parent_ptr (writable st))
         (\<lambda>(outcome, s). Inr (outcome, st\<lparr>writable := s\<rparr>)))"

definition sync_unfail_non_deterministic_error ::
  "sync_env \<Rightarrow> (nat \<Rightarrow> bool) \<Rightarrow> BlockPtr \<Rightarrow> sync_store \<Rightarrow> (StoreError, UnfailOutcome \<times> sync_store) result option" where
  "sync_unfail_non_deterministic_error env av current_ptr st =
     sync_retry av
       (case unfail_non_deterministic_error (se_site env) current_ptr (writable st) of
          (outcome, s) \<Rightarrow> Inr (outcome, st\<lparr>writable := s\<rparr>))"

definition sync_fail_subgraph ::
  "sync_env \<Rightarrow> (nat \<Rightarrow> bool) \<Rightarrow> SubgraphError \<Rightarrow> sync_store \<Rightarrow> (StoreError, sync_store) result option" where
  "sync_fail_subgraph env av err st =
     sync_retry av
       (and_then (fail_subgraph (se_hash env) (s_deployment (se_site env)) err (writable st)) (\<lambda>s. Inr (st\<lparr>writable := s\<rparr>)))"

definition sync_get ::
  "sync_env \<Rightarrow> (nat \<Rightarrow> bool) \<Rightarrow> sync_store \<Rightarrow> EntityKey \<Rightarrow> int \<Rightarrow> (StoreError, Entity option) result option" where
  "sync_get env av st key block = sync_retry av (store_get (se_layout env) (writable st) key block)"

definition same_subgraph :: "EntityModification list \<Rightarrow> string \<Rightarrow> bool" where
  "same_subgraph mods i \<longleftrightarrow> list_all (\<lambda>md. subgraph_id (entity_key md) = i) mods"

definition transact_once ::
  "sync_env \<Rightarrow> BlockPtr \<Rightarrow> string option \<Rightarrow> EntityModification list \<Rightarrow> StoredDynamicDataSource list \<Rightarrow> SubgraphError list \<Rightarrow>
   sync_store \<Rightarrow> (StoreError, sync_store) result" where
  "transact_once env block_ptr_to firehose_cursor mods dss deterministic_errors st =
     and_then (transact_block_operations (se_hash env) (se_tag env) (se_info env) (se_layout env) (se_site env)
                 block_ptr_to firehose_cursor mods dss deterministic_errors (writable st))
       (\<lambda>(event, s). Inr (try_send_store_event env event (st\<lparr>writable := s\<rparr>)))"

definition sync_transact_block_operations ::
  "sync_env \<Rightarrow> (nat \<Rightarrow> bool) \<Rightarrow> BlockPtr \<Rightarrow> string option \<Rightarrow> EntityModification list \<Rightarrow> StoredDynamicDataSource list \<Rightarrow>
   SubgraphError list \<Rightarrow> sync_store \<Rightarrow> (StoreError, sync_store) result option" where
  "sync_transact_block_operations env av block_ptr_to firehose_cursor mods dss deterministic_errors st =
     (if \<not> same_subgraph mods (s_deployment (se_site env))
      then Some (Inl (Panic ''can only transact operations within one shard''))
      else sync_retry av (transact_once env block_ptr_to firehose_cursor mods dss deterministic_errors st))"

definition sync_get_many ::
  "sync_env \<Rightarrow> (nat \<Rightarrow> bool) \<Rightarrow> sync_store \<Rightarrow> (string, string list) btree_map \<Rightarrow> int \<Rightarrow>
   (StoreError, (string, Entity list) btree_map) result option" where
  "sync_get_many env av st ids_for_type block = sync_retry av (store_get_many (se_layout env) (writable st) ids_for_type block)"

definition sync_is_deployment_synced :: "sync_env \<Rightarrow> (nat \<Rightarrow> bool) \<Rightarrow> sync_store \<Rightarrow> (StoreError, bool) result option" where
  "sync_is_deployment_synced env av st =
     sync_retry av (Inr (exists_and_synced (meta (writable st)) (s_deployment (se_site env))))"

definition sync_load_dynamic_data_sources ::
  "sync_env \<Rightarrow> (nat \<Rightarrow> bool) \<Rightarrow> sync_store \<Rightarrow> int \<Rightarrow> (StoreError, StoredDynamicDataSource list) result option" where
  "sync_load_dynamic_data_sources env av st block =
     sync_retry av (dds_load (meta (writable st)) (s_deployment (se_site env)) block)"

definition sync_health :: "(nat \<Rightarrow> bool) \<Rightarrow> sync_store \<Rightarrow> string \<Rightarrow> (StoreError, SubgraphHealth) result option" where
  "sync_health av st i = sync_retry av (deployment_health (meta (writable st)) i)"

section \<open>Requests and the tracker of block numbers\<close>

datatype Request =
    Write BlockPtr "string option" "EntityModification list" "StoredDynamicDataSource list" "SubgraphError list"
  | RevertTo BlockPtr "string option"

record BlockTracker =
  revert :: int
  block :: int

definition tracker_new :: BlockTracker where
  "tracker_new = \<lparr>revert = BLOCK_NUMBER_MAX, block = BLOCK_NUMBER_MAX\<rparr>"

fun tracker_update :: "Request \<Rightarrow> BlockTracker \<Rightarrow> BlockTracker" where
  "tracker_update (Write ptr _ _ _ _) tr = tr\<lparr>block := min (block tr) (i32 (ptr_number ptr - 1))\<rparr>"
| "tracker_update (RevertTo ptr _) tr = tr\<lparr>revert := min (revert tr) (ptr_number ptr), block := min (block tr) (ptr_number ptr)\<rparr>"

definition query_block :: "BlockTracker \<Rightarrow> int" where
  "query_block tr = block tr"

definition tracker_visible :: "BlockTracker \<Rightarrow> BlockPtr \<Rightarrow> bool" where
  "tracker_visible tr ptr \<longleftrightarrow> ptr_number ptr \<le> revert tr"

fun request_execute :: "sync_env \<Rightarrow> (nat \<Rightarrow> bool) \<Rightarrow> Request \<Rightarrow> sync_store \<Rightarrow> (StoreError, sync_store) result option" where
  "request_execute env av (Write ptr cursor mods dss errs) st = sync_transact_block_operations env av ptr cursor mods dss errs st"
| "request_execute env av (RevertTo ptr cursor) st = sync_revert_block_operations env av ptr cursor st"

section \<open>The queue\<close>

record queue_state =
  queue :: "Request bounded_queue"
  write_err :: "StoreError option"
  poisoned :: bool

definition queue_start :: "nat \<Rightarrow> queue_state" where
  "queue_start n = \<lparr>queue = bq_with_capacity n, write_err = None, poisoned = False\<rparr>"

definition check_err :: "queue_state \<Rightarrow> (StoreError, unit) result \<times> queue_state" where
  "check_err q =
     (case write_err q of
        Some err \<Rightarrow> (Inl err, q\<lparr>write_err := None\<rparr>)
      | None \<Rightarrow> (if poisoned q then Inl Poisoned else Inr (), q))"

definition record_err :: "StoreError \<Rightarrow> queue_state \<Rightarrow> (unit, queue_state) result" where
  "record_err e q =
     and_then (bq_clear (queue q)) (\<lambda>bq. Inr (q\<lparr>write_err := Some e, poisoned := True, queue := bq\<rparr>))"

text \<open>One entry of the queue in a lookup: \<open>Some (Some e)\<close> for a write of \<open>e\<close>, \<open>Some None\<close> for a removal.\<close>

fun lookup_request :: "EntityKey \<Rightarrow> Request \<Rightarrow> BlockTracker \<Rightarrow> Entity option option \<times> BlockTracker" where
  "lookup_request key (Write ptr cursor mods dss errs) tr =
     (let tr1 = tracker_update (Write ptr cursor mods dss errs) tr in
      (if tracker_visible tr1 ptr
       then map_option modified_entity (List.find (\<lambda>emod. entity_key emod = key) mods)
       else None, tr1))"
| "lookup_request key (RevertTo ptr cursor) tr = (None, tracker_update (RevertTo ptr cursor) tr)"

definition queue_get ::
  "sync_env \<Rightarrow> (nat \<Rightarrow> bool) \<Rightarrow> queue_state \<Rightarrow> sync_store \<Rightarrow> EntityKey \<Rightarrow> (StoreError, Entity option) result option" where
  "queue_get env av q st key =
     (case bq_find_map (lookup_request key) (queue q) tracker_new of
        (Some (Some e), _) \<Rightarrow> Some (Inr (Some e))
      | (Some None, _) \<Rightarrow> Some (Inr None)
      | (None, tracker) \<Rightarrow> sync_get env av st key (query_block tracker))"

text \<open>\<open>Vec::swap_remove\<close>: the last element takes the place of the removed one.\<close>

definition swap_remove :: "nat \<Rightarrow> 'a list \<Rightarrow> 'a list" where
  "swap_remove idx xs = butlast (xs[idx := last xs])"

fun position :: "('a \<Rightarrow> bool) \<Rightarrow> 'a list \<Rightarrow> nat option" where
  "position p [] = None"
| "position p (x # xs) = (if p x then Some 0 else map_option Suc (position p xs))"

type_synonym many_state = "(string, Entity list) btree_map \<times> (string, string list) btree_map"

definition many_modification :: "EntityModification \<Rightarrow> many_state \<Rightarrow> many_state" where
  "many_modification emod = (\<lambda>(m, ids_for_type).
     (let key = entity_key emod in
      case map_of ids_for_type (entity_type key) of
        None \<Rightarrow> (m, ids_for_type)
      | Some ids \<Rightarrow>
          (case position (\<lambda>i. i = entity_id key) ids of
             None \<Rightarrow> (m, ids_for_type)
           | Some idx \<Rightarrow>
               (let m1 = (case modified_entity emod of
                            Some entity \<Rightarrow> bt_entry (entity_type key) [] (\<lambda>es. es @ [entity]) m
                          | None \<Rightarrow> m);
                    ids1 = swap_remove idx ids
                in (m1, if ids1 = [] then filter (\<lambda>x. fst x \<noteq> entity_type key) ids_for_type
                        else bt_insert (entity_type key) ids1 ids_for_type)))))"

fun many_request :: "Request \<Rightarrow> BlockTracker \<times> many_state \<Rightarrow> BlockTracker \<times> many_state" where
  "many_request (Write ptr cursor mods dss errs) (tr, ms) =
     (let tr1 = tracker_update (Write ptr cursor mods dss errs) tr in
      (tr1, if tracker_visible tr1 ptr then fold many_modification mods ms else ms))"
| "many_request (RevertTo ptr cursor) (tr, ms) = (tracker_update (RevertTo ptr cursor) tr, ms)"

definition queue_get_many ::
  "sync_env \<Rightarrow> (nat \<Rightarrow> bool) \<Rightarrow> queue_state \<Rightarrow> sync_store \<Rightarrow> (string, string list) btree_map \<Rightarrow>
   (StoreError, (string, Entity list) btree_map) result option" where
  "queue_get_many env av q st ids_for_type =
     (case bq_fold many_request (queue q) (tracker_new, [], ids_for_type) of
        (tracker, m, ids) \<Rightarrow>
          (if ids = [] then Some (Inr m)
           else
             map_option (\<lambda>r. and_then r (\<lambda>store_map.
               Inr (if store_map = [] then m
                    else if m = [] then store_map
                    else fold (\<lambda>(ty, entities). bt_entry ty [] (\<lambda>es. es @ entities)) store_map m)))
               (sync_get_many env av st ids (query_block tracker))))"

fun sources_request ::
  "Request \<Rightarrow> BlockTracker \<times> StoredDynamicDataSource list \<Rightarrow> BlockTracker \<times> StoredDynamicDataSource list" where
  "sources_request (Write ptr cursor mods dss errs) (tr, acc) =
     (let tr1 = tracker_update (Write ptr cursor mods dss errs) tr in
      (tr1, if tracker_visible tr1 ptr then acc @ dss else acc))"
| "sources_request (RevertTo ptr cursor) (tr, acc) = (tracker_update (RevertTo ptr cursor) tr, acc)"

definition queue_load_dynamic_data_sources ::
  "sync_env \<Rightarrow> (nat \<Rightarrow> bool) \<Rightarrow> queue_state \<Rightarrow> sync_store \<Rightarrow> (StoreError, StoredDynamicDataSource list) result option" where
  "queue_load_dynamic_data_sources env av q st =
     (case bq_fold sources_request (queue q) (tracker_new, []) of
        (tracker, queue_dds) \<Rightarrow>
          map_option (\<lambda>r. and_then r (\<lambda>dds. Inr (dds @ sort_key sds_creation_block queue_dds)))
            (sync_load_dynamic_data_sources env av st (query_block tracker)))"
section \<open>The background writer\<close>

text \<open>
  The queue with the task that executes its requests. The task peeks at the front of the queue,
  executes the request, and pops it in a later step: \<open>committed\<close> says that the front of the queue has
  been executed. A push waits between checking for errors and adding the request when the queue is
  full: \<open>caller\<close> is the request of a push that has passed the check. A step that is not enabled
  or that waits is \<open>None\<close>.
\<close>

record writer_sys =
  sys_store :: sync_store
  sys_queue :: queue_state
  running :: bool
  committed :: bool
  caller :: "Request option"

definition sys_start :: "nat \<Rightarrow> sync_store \<Rightarrow> writer_sys" where
  "sys_start n st = \<lparr>sys_store = st, sys_queue = queue_start n, running = True, committed = False, caller = None\<rparr>"

text \<open>A panic in the task that executes a request is an error of its own.\<close>

definition writer_error :: "StoreError \<Rightarrow> StoreError" where
  "writer_error e = (case e of Panic m \<Rightarrow> WriterPanic m | _ \<Rightarrow> e)"

definition writer_execute :: "sync_env \<Rightarrow> (nat \<Rightarrow> bool) \<Rightarrow> writer_sys \<Rightarrow> writer_sys option" where
  "writer_execute env av s =
     (if \<not> running s \<or> committed s then None
      else
        (case bq_peek (queue (sys_queue s)) of
           None \<Rightarrow> None
         | Some (Inl _) \<Rightarrow> Some (s\<lparr>running := False\<rparr>)
         | Some (Inr req) \<Rightarrow>
             (case request_execute env av req (sys_store s) of
                None \<Rightarrow> None
              | Some (Inr st) \<Rightarrow> Some (s\<lparr>sys_store := st, committed := True\<rparr>)
              | Some (Inl e) \<Rightarrow>
                  (case record_err (writer_error e) (sys_queue s) of
                     Inl _ \<Rightarrow> Some (s\<lparr>running := False\<rparr>)
                   | Inr q \<Rightarrow> Some (s\<lparr>sys_queue := q, running := False\<rparr>)))))"

definition writer_pop :: "writer_sys \<Rightarrow> writer_sys option" where
  "writer_pop s =
     (if \<not> running s \<or> \<not> committed s then None
      else
        (case bq_pop (queue (sys_queue s)) of
           None \<Rightarrow> None
         | Some (Inl _) \<Rightarrow> Some (s\<lparr>running := False\<rparr>)
         | Some (Inr (_, bq)) \<Rightarrow> Some (s\<lparr>sys_queue := (sys_queue s)\<lparr>queue := bq\<rparr>, committed := False\<rparr>)))"

definition push_begin :: "Request \<Rightarrow> writer_sys \<Rightarrow> ((StoreError, unit) result \<times> writer_sys) option" where
  "push_begin req s =
     (if caller s \<noteq> None then None
      else
        (case check_err (sys_queue s) of
           (Inl e, q) \<Rightarrow> Some (Inl e, s\<lparr>sys_queue := q\<rparr>)
         | (Inr _, q) \<Rightarrow> Some (Inr (), s\<lparr>sys_queue := q, caller := Some req\<rparr>)))"

definition push_end :: "writer_sys \<Rightarrow> writer_sys option" where
  "push_end s =
     (case caller s of
        None \<Rightarrow> None
      | Some req \<Rightarrow>
          (case bq_push req (queue (sys_queue s)) of
             None \<Rightarrow> None
           | Some bq \<Rightarrow> Some (s\<lparr>sys_queue := (sys_queue s)\<lparr>queue := bq\<rparr>, caller := None\<rparr>)))"

definition queue_flush :: "writer_sys \<Rightarrow> ((StoreError, unit) result \<times> writer_sys) option" where
  "queue_flush s =
     (case bq_wait_empty (queue (sys_queue s)) of
        None \<Rightarrow> None
      | Some _ \<Rightarrow> (case check_err (sys_queue s) of (r, q) \<Rightarrow> Some (r, s\<lparr>sys_queue := q\<rparr>)))"

text \<open>The steps of the task, and the runs of the whole with the requests that pushes have added so far.\<close>

inductive writer_step :: "sync_env \<Rightarrow> writer_sys \<Rightarrow> writer_sys \<Rightarrow> bool" for env where
  executes: "writer_execute env av s = Some s' \<Longrightarrow> writer_step env s s'"
| pops: "writer_pop s = Some s' \<Longrightarrow> writer_step env s s'"

inductive queue_run :: "sync_env \<Rightarrow> writer_sys \<Rightarrow> Request list \<Rightarrow> writer_sys \<Rightarrow> bool" for env s0 where
  started: "queue_run env s0 [] s0"
| push_begun: "queue_run env s0 rs s \<Longrightarrow> push_begin req s = Some (r, s') \<Longrightarrow> queue_run env s0 rs s'"
| push_ended: "queue_run env s0 rs s \<Longrightarrow> caller s = Some req \<Longrightarrow> push_end s = Some s' \<Longrightarrow> queue_run env s0 (rs @ [req]) s'"
| flushed: "queue_run env s0 rs s \<Longrightarrow> queue_flush s = Some (r, s') \<Longrightarrow> queue_run env s0 rs s'"
| writes: "queue_run env s0 rs s \<Longrightarrow> writer_step env s s' \<Longrightarrow> queue_run env s0 rs s'"

section \<open>The writer and the store for a subgraph\<close>

text \<open>A capacity of zero bypasses the queue.\<close>

datatype Writer = Sync | Async queue_state

definition writer_new :: "nat \<Rightarrow> Writer" where
  "writer_new n = (if n = 0 then Sync else Async (queue_start n))"

definition writer_get ::
  "sync_env \<Rightarrow> (nat \<Rightarrow> bool) \<Rightarrow> Writer \<Rightarrow> sync_store \<Rightarrow> EntityKey \<Rightarrow> (StoreError, Entity option) result option" where
  "writer_get env av w st key =
     (case w of Sync \<Rightarrow> sync_get env av st key BLOCK_NUMBER_MAX | Async q \<Rightarrow> queue_get env av q st key)"

definition writer_get_many ::
  "sync_env \<Rightarrow> (nat \<Rightarrow> bool) \<Rightarrow> Writer \<Rightarrow> sync_store \<Rightarrow> (string, string list) btree_map \<Rightarrow>
   (StoreError, (string, Entity list) btree_map) result option" where
  "writer_get_many env av w st ids_for_type =
     (case w of Sync \<Rightarrow> sync_get_many env av st ids_for_type BLOCK_NUMBER_MAX | Async q \<Rightarrow> queue_get_many env av q st ids_for_type)"

definition writer_load_dynamic_data_sources ::
  "sync_env \<Rightarrow> (nat \<Rightarrow> bool) \<Rightarrow> Writer \<Rightarrow> sync_store \<Rightarrow> (StoreError, StoredDynamicDataSource list) result option" where
  "writer_load_dynamic_data_sources env av w st =
     (case w of
        Sync \<Rightarrow> sync_load_dynamic_data_sources env av st BLOCK_NUMBER_MAX
      | Async q \<Rightarrow> queue_load_dynamic_data_sources env av q st)"

text \<open>
  Writing and reverting through the writer. The asynchronous case is the part of the push up to the
  point where the request waits for a place in the queue.
\<close>

definition writer_submit ::
  "sync_env \<Rightarrow> (nat \<Rightarrow> bool) \<Rightarrow> Request \<Rightarrow> bool \<Rightarrow> writer_sys \<Rightarrow> ((StoreError, unit) result \<times> writer_sys) option" where
  "writer_submit env av req sync s =
     (if sync
      then (case request_execute env av req (sys_store s) of
              None \<Rightarrow> None
            | Some (Inl e) \<Rightarrow> Some (Inl e, s)
            | Some (Inr st) \<Rightarrow> Some (Inr (), s\<lparr>sys_store := st\<rparr>))
      else push_begin req s)"

record WritableStore =
  ws_sync :: bool
  ws_block_ptr :: "BlockPtr option"
  ws_block_cursor :: "string option"
  ws_sys :: writer_sys

text \<open>The block pointer and the cursor in memory change after a write was accepted.\<close>

definition ws_transact_block_operations ::
  "sync_env \<Rightarrow> (nat \<Rightarrow> bool) \<Rightarrow> BlockPtr \<Rightarrow> string option \<Rightarrow> EntityModification list \<Rightarrow> StoredDynamicDataSource list \<Rightarrow>
   SubgraphError list \<Rightarrow> WritableStore \<Rightarrow> ((StoreError, unit) result \<times> WritableStore) option" where
  "ws_transact_block_operations env av block_ptr_to firehose_cursor mods dss deterministic_errors ws =
     (case writer_submit env av (Write block_ptr_to firehose_cursor mods dss deterministic_errors) (ws_sync ws) (ws_sys ws) of
        None \<Rightarrow> None
      | Some (Inl e, s) \<Rightarrow> Some (Inl e, ws\<lparr>ws_sys := s\<rparr>)
      | Some (Inr _, s) \<Rightarrow> Some (Inr (), ws\<lparr>ws_sys := s, ws_block_ptr := Some block_ptr_to, ws_block_cursor := firehose_cursor\<rparr>))"

text \<open>For a revert they change before, whether or not it is accepted.\<close>

definition ws_revert_block_operations ::
  "sync_env \<Rightarrow> (nat \<Rightarrow> bool) \<Rightarrow> BlockPtr \<Rightarrow> string option \<Rightarrow> WritableStore \<Rightarrow> ((StoreError, unit) result \<times> WritableStore) option" where
  "ws_revert_block_operations env av block_ptr_to firehose_cursor ws =
     (let ws1 = ws\<lparr>ws_block_ptr := Some block_ptr_to, ws_block_cursor := firehose_cursor\<rparr>
      in map_option (\<lambda>(r, s). (r, ws1\<lparr>ws_sys := s\<rparr>)) (writer_submit env av (RevertTo block_ptr_to firehose_cursor) (ws_sync ws1) (ws_sys ws1)))"

definition ws_unfail_deterministic_error ::
  "sync_env \<Rightarrow> (nat \<Rightarrow> bool) \<Rightarrow> BlockPtr \<Rightarrow> BlockPtr \<Rightarrow> WritableStore \<Rightarrow> ((StoreError, UnfailOutcome) result \<times> WritableStore) option" where
  "ws_unfail_deterministic_error env av current_ptr parent_ptr ws =
     map_option (\<lambda>r. case r of
         Inl e \<Rightarrow> (Inl e, ws)
       | Inr (outcome, st) \<Rightarrow>
           (let ws1 = ws\<lparr>ws_sys := (ws_sys ws)\<lparr>sys_store := st\<rparr>\<rparr>
            in (Inr outcome, if outcome = Unfailed then ws1\<lparr>ws_block_ptr := Some parent_ptr\<rparr> else ws1)))
       (sync_unfail_deterministic_error env av current_ptr parent_ptr (sys_store (ws_sys ws)))"

definition ws_unfail_non_deterministic_error ::
  "sync_env \<Rightarrow> (nat \<Rightarrow> bool) \<Rightarrow> BlockPtr \<Rightarrow> WritableStore \<Rightarrow> ((StoreError, UnfailOutcome) result \<times> WritableStore) option" where
  "ws_unfail_non_deterministic_error env av current_ptr ws =
     map_option (\<lambda>r. case r of
         Inl e \<Rightarrow> (Inl e, ws)
       | Inr (outcome, st) \<Rightarrow> (Inr outcome, ws\<lparr>ws_sys := (ws_sys ws)\<lparr>sys_store := st\<rparr>\<rparr>))
       (sync_unfail_non_deterministic_error env av current_ptr (sys_store (ws_sys ws)))"

definition ws_delete_block_cursor :: "sync_env \<Rightarrow> WritableStore \<Rightarrow> WritableStore" where
  "ws_delete_block_cursor env ws =
     ws\<lparr>ws_sys := (ws_sys ws)\<lparr>sys_store := sync_delete_block_cursor env (sys_store (ws_sys ws))\<rparr>, ws_block_cursor := None\<rparr>"

definition writable_get ::
  "sync_env \<Rightarrow> (nat \<Rightarrow> bool) \<Rightarrow> WritableStore \<Rightarrow> EntityKey \<Rightarrow> (StoreError, Entity option) result option" where
  "writable_get env av ws key =
     writer_get env av (if ws_sync ws then Sync else Async (sys_queue (ws_sys ws))) (sys_store (ws_sys ws)) key"

end
