(* ===== verification/Write_Queue.thy ===== *)
theory Write_Queue
  imports Writable
begin

text \<open>
  Reading through the write queue (\<^verbatim>\<open>store/postgres/src/writable.rs\<close>). A locale states what the queue relies on in
  the store that executes its requests; in it the traversals of the queue are shown to give what
  the store will hold once the whole queue has been executed. The deployment store provides it.
\<close>

section \<open>Requests as the tracker sees them\<close>

fun request_limit :: "Request \<Rightarrow> int" where
  "request_limit (Write ptr _ _ _ _) = ptr_number ptr - 1"
| "request_limit (RevertTo ptr _) = ptr_number ptr"

fun request_revert :: "Request \<Rightarrow> int" where
  "request_revert (Write _ _ _ _ _) = BLOCK_NUMBER_MAX"
| "request_revert (RevertTo ptr _) = ptr_number ptr"

fun limit_of :: "Request list \<Rightarrow> int" where
  "limit_of [] = BLOCK_NUMBER_MAX"
| "limit_of (r # rs) = min (request_limit r) (limit_of rs)"

fun revert_of :: "Request list \<Rightarrow> int" where
  "revert_of [] = BLOCK_NUMBER_MAX"
| "revert_of (r # rs) = min (request_revert r) (revert_of rs)"

fun request_block :: "Request \<Rightarrow> int" where
  "request_block (Write ptr _ _ _ _) = ptr_number ptr"
| "request_block (RevertTo ptr _) = ptr_number ptr"

definition numbers_ok :: "Request list \<Rightarrow> bool" where
  "numbers_ok rs \<longleftrightarrow> (\<forall>r \<in> set rs. 0 \<le> request_block r \<and> request_block r < BLOCK_NUMBER_MAX)"

lemma numbers_ok_simps [simp]:
  "numbers_ok []" "numbers_ok (r # rs) \<longleftrightarrow> 0 \<le> request_block r \<and> request_block r < BLOCK_NUMBER_MAX \<and> numbers_ok rs"
  "numbers_ok (xs @ ys) \<longleftrightarrow> numbers_ok xs \<and> numbers_ok ys"
  by (auto simp: numbers_ok_def)

lemma limit_of_append: "limit_of (xs @ ys) = min (limit_of xs) (limit_of ys)"
proof (induction xs)
  case Nil
  have "limit_of ys \<le> BLOCK_NUMBER_MAX" by (induction ys) auto
  then show ?case by simp
qed simp

lemma revert_of_le: "revert_of rs \<le> BLOCK_NUMBER_MAX"
  by (induction rs) auto

lemma limit_of_le: "limit_of rs \<le> BLOCK_NUMBER_MAX"
  by (induction rs) auto

lemma tracker_update_alt:
  assumes "0 \<le> request_block r" and "request_block r < BLOCK_NUMBER_MAX" and "revert tr \<le> BLOCK_NUMBER_MAX"
  shows "tracker_update r tr = tr\<lparr>revert := min (request_revert r) (revert tr), block := min (request_limit r) (block tr)\<rparr>"
  using assms by (cases r) (auto simp: BLOCK_NUMBER_MAX_def i32_id is_i32_def min_def)

definition tracker_of :: "Request list \<Rightarrow> BlockTracker" where
  "tracker_of rs = \<lparr>revert = revert_of rs, block = limit_of rs\<rparr>"

lemma tracker_of_Nil: "tracker_of [] = tracker_new"
  by (simp add: tracker_of_def tracker_new_def)

lemma tracker_of_Cons: "numbers_ok (r # rs) \<Longrightarrow> tracker_update r (tracker_of rs) = tracker_of (r # rs)"
  by (subst tracker_update_alt) (simp_all add: tracker_of_def revert_of_le)

text \<open>A write of the queue that no later revert undoes.\<close>

definition survives :: "BlockPtr \<Rightarrow> Request list \<Rightarrow> bool" where
  "survives ptr later \<longleftrightarrow> ptr_number ptr \<le> revert_of later"

lemma tracker_visible_survives:
  "tracker_visible (tracker_of (Write ptr cursor mods dss errs # later)) ptr \<longleftrightarrow> ptr_number ptr \<le> BLOCK_NUMBER_MAX \<and> survives ptr later"
  by (auto simp: tracker_visible_def tracker_of_def survives_def)

section \<open>The traversals, from the oldest to the newest request\<close>

definition found_in :: "EntityKey \<Rightarrow> EntityModification list \<Rightarrow> Entity option option" where
  "found_in key mods = map_option modified_entity (List.find (\<lambda>emod. entity_key emod = key) mods)"

fun lookup_of :: "EntityKey \<Rightarrow> Request list \<Rightarrow> Entity option option" where
  "lookup_of key [] = None"
| "lookup_of key (r # later) =
     (case lookup_of key later of
        Some x \<Rightarrow> Some x
      | None \<Rightarrow> (case r of Write ptr _ mods _ _ \<Rightarrow> (if survives ptr later then found_in key mods else None) | RevertTo _ _ \<Rightarrow> None))"

lemma find_map_state_append:
  "find_map_state f (xs @ ys) s = (case find_map_state f xs s of (Some y, s1) \<Rightarrow> (Some y, s1) | (None, s1) \<Rightarrow> find_map_state f ys s1)"
  by (induction xs arbitrary: s) (auto split: prod.splits option.splits)

lemma lookup_traversal:
  assumes "numbers_ok rs"
  shows "\<exists>tr. find_map_state (lookup_request key) (rev rs) tracker_new = (lookup_of key rs, tr) \<and>
    (lookup_of key rs = None \<longrightarrow> tr = tracker_of rs)"
  using assms
proof (induction rs)
  case Nil
  then show ?case by (simp add: tracker_of_Nil)
next
  case (Cons r rs)
  then obtain tr where tr: "find_map_state (lookup_request key) (rev rs) tracker_new = (lookup_of key rs, tr)"
      "lookup_of key rs = None \<longrightarrow> tr = tracker_of rs" by auto
  show ?case
  proof (cases "lookup_of key rs")
    case None
    have upd: "tracker_update r (tracker_of rs) = tracker_of (r # rs)" by (rule tracker_of_Cons [OF Cons.prems])
    show ?thesis
    proof (cases r)
      case (Write ptr cursor mods dss errs)
      have "ptr_number ptr \<le> BLOCK_NUMBER_MAX" using Cons.prems Write by simp
      then have "lookup_request key r (tracker_of rs) = (if survives ptr rs then found_in key mods else None, tracker_of (r # rs))"
        using upd tracker_visible_survives [of ptr cursor mods dss errs rs] by (simp add: Write found_in_def)
      then show ?thesis
        using tr None by (simp add: find_map_state_append Write split: option.splits)
    next
      case (RevertTo ptr cursor)
      then have "lookup_request key r (tracker_of rs) = (None, tracker_of (r # rs))" using upd by simp
      then show ?thesis using tr None by (simp add: find_map_state_append RevertTo)
    qed
  qed (use tr in \<open>simp add: find_map_state_append\<close>)
qed

fun sources_of :: "Request list \<Rightarrow> StoredDynamicDataSource list list" where
  "sources_of [] = []"
| "sources_of (r # later) =
     (case r of
        Write ptr _ _ dss _ \<Rightarrow> (if survives ptr later then [dss] else []) @ sources_of later
      | RevertTo _ _ \<Rightarrow> sources_of later)"

lemma sources_traversal:
  assumes "numbers_ok rs"
  shows "fold sources_request (rev rs) (tracker_new, []) = (tracker_of rs, concat (rev (sources_of rs)))"
  using assms
proof (induction rs)
  case Nil
  then show ?case by (simp add: tracker_of_Nil)
next
  case (Cons r rs)
  have upd: "tracker_update r (tracker_of rs) = tracker_of (r # rs)" by (rule tracker_of_Cons [OF Cons.prems])
  have IH: "fold sources_request (rev rs) (tracker_new, []) = (tracker_of rs, concat (rev (sources_of rs)))"
    using Cons by simp
  show ?case
  proof (cases r)
    case (Write ptr cursor mods dss errs)
    have "ptr_number ptr \<le> BLOCK_NUMBER_MAX" using Cons.prems Write by simp
    then show ?thesis
      using upd IH tracker_visible_survives [of ptr cursor mods dss errs rs] by (simp add: Write)
  next
    case (RevertTo ptr cursor)
    then show ?thesis using upd IH by simp
  qed
qed
text \<open>The data sources of a write carry its block number.\<close>

fun created_by :: "Request list \<Rightarrow> bool" where
  "created_by [] = True"
| "created_by (r # rs) =
     ((case r of Write ptr _ _ dss _ \<Rightarrow> \<forall>ds \<in> set dss. sds_creation_block ds = Some (ptr_number ptr) | RevertTo _ _ \<Rightarrow> True) \<and> created_by rs)"

lemma sort_groups:
  assumes "sorted_wrt (\<lambda>xs ys. \<forall>x \<in> set xs. \<forall>y \<in> set ys. f x < f y) groups" and "\<forall>xs \<in> set groups. \<exists>n. \<forall>x \<in> set xs. f x = n"
  shows "sort_key f (concat (rev groups)) = concat groups"
proof (rule properties_for_sort_key)
  show "mset (concat groups) = mset (concat (rev groups))" by (induction groups) auto
  show "sorted (map f (concat groups))"
    using assms
  proof (induction groups)
    case (Cons g gs)
    then obtain n where n: "\<forall>x \<in> set g. f x = n" by auto
    then have "map f g = replicate (length g) n" by (intro replicate_eqI) auto
    then have "sorted (map f g)" by simp
    moreover have "\<forall>x \<in> set g. \<forall>y \<in> set (concat gs). f x \<le> f y" using Cons.prems(1) by (auto intro: less_imp_le)
    moreover have "sorted (map f (concat gs))" using Cons by simp
    ultimately show ?case by (simp add: sorted_append del: set_concat)
  qed simp
  show "filter (\<lambda>x. f k = f x) (concat groups) = filter (\<lambda>x. f k = f x) (concat (rev groups))" if "k \<in> set (concat groups)" for k
    using assms(1)
  proof (induction groups)
    case (Cons g gs)
    consider "filter (\<lambda>x. f k = f x) g = []" | "filter (\<lambda>x. f k = f x) (concat gs) = []"
    proof (cases "\<exists>x \<in> set g. f k = f x")
      case True
      then have "\<forall>y \<in> set (concat gs). f k \<noteq> f y" using Cons.prems by fastforce
      then have "filter (\<lambda>x. f k = f x) (concat gs) = []" unfolding filter_empty_conv .
      with that show thesis by blast
    qed (use that in \<open>auto simp: filter_empty_conv\<close>)
    then show ?case using Cons by cases auto
  qed simp
qed

section \<open>What the queue relies on in the store\<close>

text \<open>
  A store that executes requests: \<open>ok s head\<close> says that it is well-formed with its block pointer at \<open>head\<close>,
  \<open>ready r s\<close> that it can execute \<open>r\<close>; \<open>val s k c\<close> is the entity with key \<open>k\<close> as of block \<open>c\<close>, for the keys of
  the deployment, and \<open>srcs s c\<close> are the data sources as of block \<open>c\<close> in the order of their creation.
\<close>

locale block_store =
  fixes exec :: "Request \<Rightarrow> 's \<Rightarrow> (StoreError, 's) result" and ready :: "Request \<Rightarrow> 's \<Rightarrow> bool"
    and ok :: "'s \<Rightarrow> int \<Rightarrow> bool" and own :: "EntityKey \<Rightarrow> bool"
    and val :: "'s \<Rightarrow> EntityKey \<Rightarrow> int \<Rightarrow> (Attribute \<rightharpoonup> Value) option"
    and srcs :: "'s \<Rightarrow> int \<Rightarrow> StoredDynamicDataSource list"
  assumes val_stable: "ok s head \<Longrightarrow> head \<le> c \<Longrightarrow> val s k c = val s k head"
    and srcs_stable: "ok s head \<Longrightarrow> head \<le> c \<Longrightarrow> srcs s c = srcs s head"
    and exec_write: "ok s head \<Longrightarrow> ready (Write ptr cursor mods dss errs) s \<Longrightarrow>
      0 \<le> ptr_number ptr \<and> ptr_number ptr < BLOCK_NUMBER_MAX \<and> head < ptr_number ptr \<and>
      (\<exists>s'. exec (Write ptr cursor mods dss errs) s = Inr s' \<and> ok s' (ptr_number ptr) \<and>
         (\<forall>k c. own k \<longrightarrow> val s' k c =
            (case found_in k mods of
               Some e \<Rightarrow> if ptr_number ptr \<le> c then map_option visible e else val s k c
             | None \<Rightarrow> val s k c)) \<and>
         (\<forall>c. srcs s' c = srcs s c @ (if ptr_number ptr \<le> c
            then map (\<lambda>ds. ds\<lparr>sds_creation_block := Some (ptr_number ptr)\<rparr>) dss else [])))"
    and exec_revert: "ok s head \<Longrightarrow> ready (RevertTo ptr cursor) s \<Longrightarrow>
      0 \<le> ptr_number ptr \<and> ptr_number ptr < BLOCK_NUMBER_MAX \<and> ptr_number ptr < head \<and>
      (\<exists>s'. exec (RevertTo ptr cursor) s = Inr s' \<and> ok s' (ptr_number ptr) \<and>
         (\<forall>k c. val s' k c = val s k (min c (ptr_number ptr))) \<and> (\<forall>c. srcs s' c = srcs s (min c (ptr_number ptr))))"
begin

text \<open>Requests that can be executed one after the other.\<close>

fun valid :: "Request list \<Rightarrow> 's \<Rightarrow> bool" where
  "valid [] s = True"
| "valid (r # rs) s = (ready r s \<and> (case exec r s of Inl _ \<Rightarrow> False | Inr s1 \<Rightarrow> valid rs s1))"

lemma write_step:
  assumes "ok s head" and "ready (Write ptr cursor mods dss errs) s"
  obtains s' where "exec (Write ptr cursor mods dss errs) s = Inr s'" "ok s' (ptr_number ptr)"
    "0 \<le> ptr_number ptr" "ptr_number ptr < BLOCK_NUMBER_MAX" "head < ptr_number ptr"
    "\<forall>k c. own k \<longrightarrow> val s' k c = (case found_in k mods of
       Some e \<Rightarrow> if ptr_number ptr \<le> c then map_option visible e else val s k c | None \<Rightarrow> val s k c)"
    "\<forall>c. srcs s' c = srcs s c @ (if ptr_number ptr \<le> c
       then map (\<lambda>ds. ds\<lparr>sds_creation_block := Some (ptr_number ptr)\<rparr>) dss else [])"
  using exec_write [OF assms] by blast

lemma revert_step:
  assumes "ok s head" and "ready (RevertTo ptr cursor) s"
  obtains s' where "exec (RevertTo ptr cursor) s = Inr s'" "ok s' (ptr_number ptr)"
    "0 \<le> ptr_number ptr" "ptr_number ptr < BLOCK_NUMBER_MAX" "ptr_number ptr < head"
    "\<forall>k c. val s' k c = val s k (min c (ptr_number ptr))" "\<forall>c. srcs s' c = srcs s (min c (ptr_number ptr))"
  using exec_revert [OF assms] by blast

lemma exec_ready:
  assumes "ok s head" and "ready r s"
  obtains s' where "exec r s = Inr s'" "ok s' (request_block r)" "0 \<le> request_block r" "request_block r < BLOCK_NUMBER_MAX"
proof (cases r)
  case (Write ptr cursor mods dss errs)
  from write_step [OF assms(1) assms(2) [unfolded Write]] obtain s' where
    "exec r s = Inr s'" "ok s' (ptr_number ptr)" "0 \<le> ptr_number ptr" "ptr_number ptr < BLOCK_NUMBER_MAX" unfolding Write by metis
  with that show thesis by (simp add: Write)
next
  case (RevertTo ptr cursor)
  from revert_step [OF assms(1) assms(2) [unfolded RevertTo]] obtain s' where
    "exec r s = Inr s'" "ok s' (ptr_number ptr)" "0 \<le> ptr_number ptr" "ptr_number ptr < BLOCK_NUMBER_MAX" unfolding RevertTo by metis
  with that show thesis by (simp add: RevertTo)
qed

lemma valid_runs:
  assumes "ok s head" and "valid rs s"
  shows "\<exists>s' head'. try_fold exec rs s = Inr s' \<and> ok s' head'"
  using assms
proof (induction rs arbitrary: s head)
  case (Cons r rs)
  obtain s1 where s1: "exec r s = Inr s1" "ok s1 (request_block r)" using exec_ready [OF Cons.prems(1)] Cons.prems(2) by auto
  with Cons.IH [OF s1(2)] Cons.prems(2) show ?case by simp
qed auto

lemma valid_numbers:
  assumes "ok s head" and "valid rs s"
  shows "numbers_ok rs"
  using assms
proof (induction rs arbitrary: s head)
  case (Cons r rs)
  obtain s1 where "exec r s = Inr s1" "ok s1 (request_block r)" "0 \<le> request_block r" "request_block r < BLOCK_NUMBER_MAX"
    using exec_ready [OF Cons.prems(1)] Cons.prems(2) by auto
  with Cons.IH [of s1] Cons.prems(2) show ?case by simp
qed simp

lemma valid_append:
  "valid (xs @ ys) s \<longleftrightarrow> valid xs s \<and> (case try_fold exec xs s of Inl _ \<Rightarrow> True | Inr s1 \<Rightarrow> valid ys s1)"
  by (induction xs arbitrary: s) (auto split: sum.splits)

text \<open>Up to the head, a write can only be hidden by a revert.\<close>

lemma limit_revert:
  assumes "ok s head" and "valid rs s" and "m \<le> head" and "m \<le> revert_of rs" and "m \<le> BLOCK_NUMBER_MAX"
  shows "m \<le> limit_of rs"
  using assms
proof (induction rs arbitrary: s head)
  case (Cons r rs)
  obtain s1 where s1: "exec r s = Inr s1" "ok s1 (request_block r)" using exec_ready [OF Cons.prems(1)] Cons.prems(2) by auto
  have v: "valid rs s1" using Cons.prems(2) s1(1) by simp
  have rv: "m \<le> revert_of rs" "m \<le> request_revert r" using Cons.prems(4) by simp_all
  have "m \<le> request_limit r \<and> m \<le> request_block r"
  proof (cases r)
    case (Write ptr cursor mods dss errs)
    with Cons.prems(2) have "ready (Write ptr cursor mods dss errs) s" by simp
    then have "head < ptr_number ptr" using write_step [OF Cons.prems(1)] by metis
    with Write Cons.prems(3) show ?thesis by simp
  next
    case (RevertTo ptr cursor)
    then show ?thesis using rv by simp
  qed
  with Cons.IH [OF s1(2) v _ rv(1) Cons.prems(5)] show ?case by simp
qed simp

lemma limit_of_revert: "limit_of rs \<le> revert_of rs"
proof (induction rs)
  case (Cons r rs)
  have "request_limit r \<le> request_revert r \<or> request_revert r = BLOCK_NUMBER_MAX" by (cases r) simp_all
  with Cons limit_of_le [of rs] show ?case by auto
qed simp

lemma survives_iff:
  assumes "ok s (ptr_number ptr)" and "valid rs s" and "ptr_number ptr < BLOCK_NUMBER_MAX"
  shows "survives ptr rs \<longleftrightarrow> ptr_number ptr \<le> limit_of rs"
  using limit_revert [OF assms(1,2) order_refl] limit_of_revert [of rs] assms(3) by (auto simp: survives_def)

text \<open>
  The value of an entity after the whole queue: the newest surviving write of it or, without one,
  what the store holds as of the block the tracker computes.
\<close>

lemma lookup_correct:
  assumes "ok s head" and "valid rs s" and "try_fold exec rs s = Inr s'" and "own k"
  shows "val s' k BLOCK_NUMBER_MAX =
    (case lookup_of k rs of Some e \<Rightarrow> map_option visible e | None \<Rightarrow> val s k (limit_of rs))"
  using assms
proof (induction rs arbitrary: s head)
  case (Cons r rs)
  obtain s1 where s1: "exec r s = Inr s1" "ok s1 (request_block r)" using exec_ready [OF Cons.prems(1)] Cons.prems(2) by auto
  have v: "valid rs s1" and run: "try_fold exec rs s1 = Inr s'" using Cons.prems(2,3) s1(1) by simp_all
  have IH: "val s' k BLOCK_NUMBER_MAX = (case lookup_of k rs of Some e \<Rightarrow> map_option visible e | None \<Rightarrow> val s1 k (limit_of rs))"
    by (rule Cons.IH [OF s1(2) v run Cons.prems(4)])
  show ?case
  proof (cases r)
    case (Write ptr cursor mods dss errs)
    from Cons.prems(2) Write have rd: "ready (Write ptr cursor mods dss errs) s" by simp
    obtain s2 where s2: "exec r s = Inr s2" "ptr_number ptr < BLOCK_NUMBER_MAX" "head < ptr_number ptr"
        "\<forall>k c. own k \<longrightarrow> val s2 k c = (case found_in k mods of
           Some e \<Rightarrow> if ptr_number ptr \<le> c then map_option visible e else val s k c | None \<Rightarrow> val s k c)"
      using write_step [OF Cons.prems(1) rd] unfolding Write by metis
    have w: "ptr_number ptr < BLOCK_NUMBER_MAX" "head < ptr_number ptr"
        "val s1 k c = (case found_in k mods of
           Some e \<Rightarrow> if ptr_number ptr \<le> c then map_option visible e else val s k c | None \<Rightarrow> val s k c)" for c
      using s2 s1(1) Cons.prems(4) by simp_all
    have surv: "survives ptr rs \<longleftrightarrow> ptr_number ptr \<le> limit_of rs"
      using survives_iff [of s1 ptr rs] s1(2) v w(1) Write by simp
    have "val s k (limit_of rs) = val s k (min (ptr_number ptr - 1) (limit_of rs))" if "ptr_number ptr \<le> limit_of rs"
      using that val_stable [OF Cons.prems(1), of "limit_of rs" k] val_stable [OF Cons.prems(1), of "ptr_number ptr - 1" k] w(2) by simp
    moreover have "limit_of rs = min (ptr_number ptr - 1) (limit_of rs)" if "\<not> ptr_number ptr \<le> limit_of rs"
      using that by simp
    ultimately show ?thesis
      using IH w(3) surv by (auto simp: Write split: option.splits)
  next
    case (RevertTo ptr cursor)
    from Cons.prems(2) RevertTo have rd: "ready (RevertTo ptr cursor) s" by simp
    obtain s2 where "exec r s = Inr s2" "\<forall>k c. val s2 k c = val s k (min c (ptr_number ptr))"
      using revert_step [OF Cons.prems(1) rd] unfolding RevertTo by metis
    then have "val s1 k c = val s k (min c (ptr_number ptr))" for c using s1(1) by simp
    with IH show ?thesis by (simp add: RevertTo min.commute split: option.splits)
  qed
qed simp

text \<open>Executing a part of the queue leaves what the store holds up to that block alone.\<close>

lemma prefix_unchanged:
  assumes "ok s head" and "valid xs s" and "try_fold exec xs s = Inr s'" and "c \<le> limit_of xs"
  shows "own k \<longrightarrow> val s' k c = val s k c" and "srcs s' c = srcs s c"
proof -
  have "(own k \<longrightarrow> val s' k c = val s k c) \<and> srcs s' c = srcs s c"
    using assms
  proof (induction xs arbitrary: s head)
    case (Cons r xs)
    obtain s1 where s1: "exec r s = Inr s1" "ok s1 (request_block r)" using exec_ready [OF Cons.prems(1)] Cons.prems(2) by auto
    have "(own k \<longrightarrow> val s1 k c = val s k c) \<and> srcs s1 c = srcs s c"
    proof (cases r)
      case (Write ptr cursor mods dss errs)
      have "\<not> ptr_number ptr \<le> c" using Cons.prems(4) Write by simp
      moreover from Cons.prems(2) Write have rd: "ready (Write ptr cursor mods dss errs) s" by simp
      obtain s2 where "exec r s = Inr s2"
          "\<forall>k c. own k \<longrightarrow> val s2 k c = (case found_in k mods of
             Some e \<Rightarrow> if ptr_number ptr \<le> c then map_option visible e else val s k c | None \<Rightarrow> val s k c)"
          "\<forall>c. srcs s2 c = srcs s c @ (if ptr_number ptr \<le> c
             then map (\<lambda>ds. ds\<lparr>sds_creation_block := Some (ptr_number ptr)\<rparr>) dss else [])"
        using write_step [OF Cons.prems(1) rd] unfolding Write by metis
      ultimately show ?thesis using s1(1) by (simp split: option.splits)
    next
      case (RevertTo ptr cursor)
      then have "min c (ptr_number ptr) = c" using Cons.prems(4) by simp
      moreover from Cons.prems(2) RevertTo have rd: "ready (RevertTo ptr cursor) s" by simp
      obtain s2 where "exec r s = Inr s2" "\<forall>k c. val s2 k c = val s k (min c (ptr_number ptr))"
          "\<forall>c. srcs s2 c = srcs s (min c (ptr_number ptr))"
        using revert_step [OF Cons.prems(1) rd] unfolding RevertTo by metis
      ultimately show ?thesis using s1(1) by simp
    qed
    moreover have "valid xs s1" "try_fold exec xs s1 = Inr s'" "c \<le> limit_of xs"
      using Cons.prems(2-4) s1(1) by simp_all
    ultimately show ?case using Cons.IH [OF s1(2)] by simp
  qed simp
  then show "own k \<longrightarrow> val s' k c = val s k c" "srcs s' c = srcs s c" by blast+
qed

text \<open>The data sources after the whole queue: those of the store up to that block and the ones of the surviving writes.\<close>

lemma sources_correct:
  assumes "ok s head" and "valid rs s" and "try_fold exec rs s = Inr s'" and "created_by rs"
  shows "srcs s' BLOCK_NUMBER_MAX = srcs s (limit_of rs) @ concat (sources_of rs)"
  using assms
proof (induction rs arbitrary: s head)
  case (Cons r rs)
  obtain s1 where s1: "exec r s = Inr s1" "ok s1 (request_block r)" using exec_ready [OF Cons.prems(1)] Cons.prems(2) by auto
  have v: "valid rs s1" and run: "try_fold exec rs s1 = Inr s'" using Cons.prems(2,3) s1(1) by simp_all
  have IH: "srcs s' BLOCK_NUMBER_MAX = srcs s1 (limit_of rs) @ concat (sources_of rs)"
    using Cons.IH [OF s1(2) v run] Cons.prems(4) by simp
  show ?case
  proof (cases r)
    case (Write ptr cursor mods dss errs)
    from Cons.prems(2) Write have rd: "ready (Write ptr cursor mods dss errs) s" by simp
    obtain s2 where s2: "exec r s = Inr s2" "ptr_number ptr < BLOCK_NUMBER_MAX" "head < ptr_number ptr"
        "\<forall>c. srcs s2 c = srcs s c @ (if ptr_number ptr \<le> c
           then map (\<lambda>ds. ds\<lparr>sds_creation_block := Some (ptr_number ptr)\<rparr>) dss else [])"
      using write_step [OF Cons.prems(1) rd] unfolding Write by metis
    have same: "map (\<lambda>ds. ds\<lparr>sds_creation_block := Some (ptr_number ptr)\<rparr>) dss = dss"
      using Cons.prems(4) Write by (intro map_idI) simp
    have surv: "survives ptr rs \<longleftrightarrow> ptr_number ptr \<le> limit_of rs"
      using survives_iff [of s1 ptr rs] s1(2) v s2(2) Write by simp
    have "srcs s (limit_of rs) = srcs s (min (ptr_number ptr - 1) (limit_of rs))" if "ptr_number ptr \<le> limit_of rs"
      using that srcs_stable [OF Cons.prems(1), of "limit_of rs"] srcs_stable [OF Cons.prems(1), of "ptr_number ptr - 1"] s2(3) by simp
    moreover have "limit_of rs = min (ptr_number ptr - 1) (limit_of rs)" if "\<not> ptr_number ptr \<le> limit_of rs"
      using that by simp
    ultimately show ?thesis using IH s1(1) s2(1,4) surv same by (auto simp: Write)
  next
    case (RevertTo ptr cursor)
    from Cons.prems(2) RevertTo have rd: "ready (RevertTo ptr cursor) s" by simp
    obtain s2 where "exec r s = Inr s2" "\<forall>c. srcs s2 c = srcs s (min c (ptr_number ptr))"
      using revert_step [OF Cons.prems(1) rd] unfolding RevertTo by metis
    with IH s1(1) show ?thesis by (simp add: RevertTo min.commute)
  qed
qed simp

text \<open>The surviving writes of a queue that can be executed have increasing block numbers.\<close>

lemma sources_increasing:
  assumes "ok s head" and "valid rs s" and "created_by rs"
  shows "sorted_wrt (\<lambda>xs ys. \<forall>x \<in> set xs. \<forall>y \<in> set ys. sds_creation_block x < sds_creation_block y) (sources_of rs) \<and>
    (\<forall>xs \<in> set (sources_of rs). (\<exists>n. min head (revert_of rs) < n \<and> (\<forall>x \<in> set xs. sds_creation_block x = Some n)))"
  using assms
proof (induction rs arbitrary: s head)
  case (Cons r rs)
  obtain s1 where s1: "exec r s = Inr s1" "ok s1 (request_block r)" using exec_ready [OF Cons.prems(1)] Cons.prems(2) by auto
  have v: "valid rs s1" using Cons.prems(2) s1(1) by simp
  have IH: "sorted_wrt (\<lambda>xs ys. \<forall>x \<in> set xs. \<forall>y \<in> set ys. sds_creation_block x < sds_creation_block y) (sources_of rs)"
      "\<forall>xs \<in> set (sources_of rs). (\<exists>n. min (request_block r) (revert_of rs) < n \<and> (\<forall>x \<in> set xs. sds_creation_block x = Some n))"
    using Cons.IH [OF s1(2) v] Cons.prems(3) by simp_all
  show ?case
  proof (cases r)
    case (Write ptr cursor mods dss errs)
    from Cons.prems(2) Write have rd: "ready (Write ptr cursor mods dss errs) s" by simp
    have h: "head < ptr_number ptr" "ptr_number ptr < BLOCK_NUMBER_MAX" using write_step [OF Cons.prems(1) rd] by metis+
    have all: "\<forall>x \<in> set dss. sds_creation_block x = Some (ptr_number ptr)" using Cons.prems(3) Write by simp
    have rv: "revert_of (r # rs) = revert_of rs" using revert_of_le [of rs] by (simp add: Write)
    have weaker: "\<exists>n. min head (revert_of rs) < n \<and> (\<forall>x \<in> set xs. sds_creation_block x = Some n)" if mem: "xs \<in> set (sources_of rs)" for xs
    proof -
      obtain n where n: "min (ptr_number ptr) (revert_of rs) < n" "\<forall>x \<in> set xs. sds_creation_block x = Some n"
        using bspec [OF IH(2) mem] by (auto simp: Write)
      moreover have "min head (revert_of rs) < n" using n(1) h(1) by auto
      ultimately show ?thesis by blast
    qed
    show ?thesis
    proof (cases "survives ptr rs")
      case True
      then have "min (request_block r) (revert_of rs) = ptr_number ptr" by (simp add: survives_def Write)
      then have later: "\<exists>n. ptr_number ptr < n \<and> (\<forall>y \<in> set ys. sds_creation_block y = Some n)" if "ys \<in> set (sources_of rs)" for ys
        using IH(2) that by simp
      have "\<forall>ys \<in> set (sources_of rs). \<forall>x \<in> set dss. \<forall>y \<in> set ys. sds_creation_block x < sds_creation_block y"
        using later all by fastforce
      moreover have "\<exists>n. min head (revert_of rs) < n \<and> (\<forall>x \<in> set dss. sds_creation_block x = Some n)"
        using all h(1) by (intro exI [of _ "ptr_number ptr"]) simp
      ultimately show ?thesis using True IH(1) weaker unfolding rv by (simp add: Write)
    next
      case False
      then show ?thesis using IH(1) weaker unfolding rv by (simp add: Write)
    qed
  next
    case (RevertTo ptr cursor)
    from Cons.prems(2) RevertTo have rd: "ready (RevertTo ptr cursor) s" by simp
    have h: "ptr_number ptr < head" using revert_step [OF Cons.prems(1) rd] by metis
    have "min head (revert_of (r # rs)) = min (request_block r) (revert_of rs)" using h by (simp add: RevertTo)
    then show ?thesis using IH by (simp add: RevertTo)
  qed
qed simp

end
section \<open>The deployment store executes requests\<close>

fun request_effect :: "sync_env \<Rightarrow> Request \<Rightarrow> sync_store \<Rightarrow> (StoreError, sync_store) result" where
  "request_effect env (Write ptr cursor mods dss errs) st =
     (if \<not> same_subgraph mods (s_deployment (se_site env)) then Inl (Panic ''can only transact operations within one shard'')
      else transact_once env ptr cursor mods dss errs st)"
| "request_effect env (RevertTo ptr cursor) st = revert_once env ptr cursor st"

fun request_ready :: "sync_env \<Rightarrow> Request \<Rightarrow> sync_store \<Rightarrow> bool" where
  "request_ready env (Write ptr cursor mods dss errs) st \<longleftrightarrow>
     block_input_ok (se_info env) (se_layout env) (se_site env) ptr mods dss errs (writable st) \<and>
     0 \<le> ptr_number ptr \<and> ptr_number ptr < BLOCK_NUMBER_MAX \<and> length (ptr_hash ptr) = 32 \<and>
     (case block_ptr (meta (writable st)) (s_deployment (se_site env)) of
        Inr (Some p) \<Rightarrow> ptr_number p < ptr_number ptr | Inr None \<Rightarrow> True | Inl _ \<Rightarrow> False)"
| "request_ready env (RevertTo ptr cursor) st \<longleftrightarrow>
     0 \<le> ptr_number ptr \<and> length (ptr_hash ptr) = 32 \<and>
     (case block_ptr (meta (writable st)) (s_deployment (se_site env)) of
        Inr (Some p) \<Rightarrow> ptr_number ptr < ptr_number p | _ \<Rightarrow> False) \<and>
     (case info_graft_block (se_info env) of Some g \<Rightarrow> g \<le> ptr_number ptr | None \<Rightarrow> True) \<and>
     (case find_deployment (meta (writable st)) (s_deployment (se_site env)) of
        Some d \<Rightarrow> is_i32 (d_reorg_count d + 1) \<and> is_i32 (d_current_reorg_depth d + 1) | None \<Rightarrow> False)"

definition sync_ok :: "sync_env \<Rightarrow> sync_store \<Rightarrow> int \<Rightarrow> bool" where
  "sync_ok env st head \<longleftrightarrow> deployment_at (se_layout env) (se_site env) (writable st) head"

definition own_key :: "sync_env \<Rightarrow> EntityKey \<Rightarrow> bool" where
  "own_key env k \<longleftrightarrow> subgraph_id k = s_deployment (se_site env)"

definition sync_val :: "sync_env \<Rightarrow> sync_store \<Rightarrow> EntityKey \<Rightarrow> int \<Rightarrow> (Attribute \<rightharpoonup> Value) option" where
  "sync_val env st k c = table_history (se_layout env) (entities (writable st)) (entity_type k) (entity_id k) c"

definition sources_at :: "sync_env \<Rightarrow> sync_store \<Rightarrow> int \<Rightarrow> StoredDynamicDataSource list" where
  "sources_at env st c = map stored_data_source
     (filter (\<lambda>x. c_deployment x = s_deployment (se_site env) \<and> c_block_number x \<le> c) (data_sources (meta (writable st))))"

lemma writable_try_send [simp]: "writable (try_send_store_event env ev st) = writable st"
  by (simp add: try_send_store_event_def)

lemma mods_effect_found:
  assumes "\<forall>md \<in> set mods. subgraph_id (entity_key md) = i" and "subgraph_id k = i"
  shows "mods_effect mods (entity_type k) (entity_id k) = map_option (map_option visible) (found_in k mods)"
  using assms(1)
proof (induction mods)
  case Nil
  then show ?case by (simp add: mods_effect_def found_in_def)
next
  case (Cons md mods)
  have "(entity_type k, entity_id k) = mod_id md \<longleftrightarrow> entity_key md = k"
    using Cons.prems assms(2) by (cases "entity_key md", cases k) (auto simp: mod_id_def)
  with Cons show ?case by (simp add: mods_effect_def found_in_def)
qed

lemma deployment_at_row:
  assumes "deployment_at layout site s head"
  obtains d where "store_ok layout site s d head" "- 1 \<le> head" "head < 2147483647"
    "block_ptr (meta s) (s_deployment site) = Inr (map_option (\<lambda>n. \<lparr>ptr_hash = the (d_latest_hash d), ptr_number = n\<rparr>) (d_latest_number d))"
    "case d_latest_number d of Some n \<Rightarrow> n = head | None \<Rightarrow> head = - 1"
proof -
  from assms obtain d where d: "store_ok layout site s d head" "- 1 \<le> head" "head < 2147483647"
      "case d_latest_number d of Some n \<Rightarrow> 0 \<le> n \<and> n = head \<and> (\<exists>hs. d_latest_hash d = Some hs \<and> length hs = 32)
       | None \<Rightarrow> head = - 1 \<and> d_latest_hash d = None"
    unfolding deployment_at_def by blast
  have row: "site_row (meta s) site d" by (rule store_ok_parts(2) [OF d(1)])
  have "block_ptr (meta s) (s_deployment site) = Inr (map_option (\<lambda>n. \<lparr>ptr_hash = the (d_latest_hash d), ptr_number = n\<rparr>) (d_latest_number d))"
  proof (cases "d_latest_number d")
    case None
    with d(4) show ?thesis using find_site_row [OF row] by (simp add: block_ptr_def detail_block_def)
  next
    case (Some n)
    with d(3,4) obtain hs where hs: "d_latest_hash d = Some hs" "length hs = 32" "0 \<le> n" "n < 2147483648" by auto
    from block_ptr_row [OF row Some hs] Some hs(1) show ?thesis by simp
  qed
  moreover have "case d_latest_number d of Some n \<Rightarrow> n = head | None \<Rightarrow> head = - 1" using d(4) by (auto split: option.splits)
  ultimately show thesis using that d(1-3) by blast
qed

lemma sources_write:
  assumes "\<forall>ds \<in> set dss. \<exists>a. src_address (sds_source ds) = Some a \<and> length a = 20"
    and "data_sources (meta (writable st')) =
      data_sources (meta (writable st)) @ new_data_sources (s_deployment (se_site env)) ptr v dss"
  shows "sources_at env st' c = sources_at env st c @ (if ptr_number ptr \<le> c
    then map (\<lambda>ds. ds\<lparr>sds_creation_block := Some (ptr_number ptr)\<rparr>) dss else [])"
proof -
  let ?i = "s_deployment (se_site env)"
  have "filter (\<lambda>x. c_deployment x = ?i \<and> c_block_number x \<le> c) (new_data_sources ?i ptr v dss) =
      (if ptr_number ptr \<le> c then new_data_sources ?i ptr v dss else [])"
    using new_data_sources_all [of _ ?i ptr v dss] by (auto simp: filter_empty_conv filter_id_conv)
  then show ?thesis
    by (simp add: sources_at_def assms(2) stored_new_data_sources [OF assms(1)])
qed

lemma sources_revert:
  assumes "data_sources (meta (writable st')) = kept_data_sources (s_deployment (se_site env)) (t + 1) (data_sources (meta (writable st)))"
  shows "sources_at env st' c = sources_at env st (min c t)"
  unfolding sources_at_def assms kept_data_sources_def filter_filter
  by (intro arg_cong [where f = "map stored_data_source"] filter_cong) auto
lemma write_executes:
  assumes "sync_ok env st head" and "request_ready env (Write ptr cursor mods dss errs) st"
  shows "0 \<le> ptr_number ptr \<and> ptr_number ptr < BLOCK_NUMBER_MAX \<and> head < ptr_number ptr \<and>
    (\<exists>st'. request_effect env (Write ptr cursor mods dss errs) st = Inr st' \<and> sync_ok env st' (ptr_number ptr) \<and>
       (\<forall>k c. own_key env k \<longrightarrow> sync_val env st' k c =
          (case found_in k mods of
             Some e \<Rightarrow> if ptr_number ptr \<le> c then map_option visible e else sync_val env st k c
           | None \<Rightarrow> sync_val env st k c)) \<and>
       (\<forall>c. sources_at env st' c = sources_at env st c @ (if ptr_number ptr \<le> c
          then map (\<lambda>ds. ds\<lparr>sds_creation_block := Some (ptr_number ptr)\<rparr>) dss else [])))"
proof -
  let ?layout = "se_layout env" and ?site = "se_site env" and ?b = "ptr_number ptr"
  obtain d where d: "store_ok ?layout ?site (writable st) d head" "- 1 \<le> head"
      "block_ptr (meta (writable st)) (s_deployment ?site) = Inr (map_option (\<lambda>n. \<lparr>ptr_hash = the (d_latest_hash d), ptr_number = n\<rparr>) (d_latest_number d))"
      "case d_latest_number d of Some n \<Rightarrow> n = head | None \<Rightarrow> head = - 1"
    using deployment_at_row [OF assms(1) [unfolded sync_ok_def]] by metis
  have inp: "block_input_ok (se_info env) ?layout ?site ptr mods dss errs (writable st)"
    and b: "0 \<le> ?b" "?b < 2147483647" and hs: "length (ptr_hash ptr) = 32"
    using assms(2) by (simp_all add: BLOCK_NUMBER_MAX_def)
  have hb: "head < ?b"
    using assms(2) d(3,4) b(1) by (cases "d_latest_number d") simp_all
  obtain s' d' where run: "transact_block_operations (se_hash env) (se_tag env) (se_info env) ?layout ?site ptr cursor mods dss errs (writable st) =
        Inr (event_from_modifications (se_tag env) mods, s')" and ok: "store_ok ?layout ?site s' d' ?b"
      and hist: "\<forall>ty. table_history ?layout (entities s') ty = change ?b (mods_effect mods ty) (table_history ?layout (entities (writable st)) ty)"
      and ptr: "d_latest_number d' = Some ?b" "d_latest_hash d' = Some (ptr_hash ptr)"
      and ds: "data_sources (meta s') = data_sources (meta (writable st)) @ new_data_sources (s_deployment ?site) ptr (vid_seq (meta (writable st))) dss"
    using transact_spec [OF d(1) hb b inp, of "se_hash env" "se_tag env" cursor] by blast
  define st' where "st' = try_send_store_event env (event_from_modifications (se_tag env) mods) (st\<lparr>writable := s'\<rparr>)"
  have w: "writable st' = s'" by (simp add: st'_def)
  have mods: "\<forall>md \<in> set mods. subgraph_id (entity_key md) = s_deployment ?site"
    and addr: "\<forall>ds \<in> set dss. \<exists>a. src_address (sds_source ds) = Some a \<and> length a = 20"
    using inp by (simp_all add: block_input_ok_def)
  have "request_effect env (Write ptr cursor mods dss errs) st = Inr st'"
    using mods run by (simp add: same_subgraph_def list_all_iff transact_once_def st'_def)
  moreover have "sync_ok env st' ?b"
    unfolding sync_ok_def w by (rule deployment_atI [OF ok ptr hs b])
  moreover have "sync_val env st' k c = (case found_in k mods of
      Some e \<Rightarrow> if ?b \<le> c then map_option visible e else sync_val env st k c | None \<Rightarrow> sync_val env st k c)" if "own_key env k" for k c
    using mods_effect_found [OF mods that [unfolded own_key_def]] hist
    by (simp add: sync_val_def w change_def split: option.splits)
  moreover have "sources_at env st' c = sources_at env st c @ (if ?b \<le> c
      then map (\<lambda>ds. ds\<lparr>sds_creation_block := Some ?b\<rparr>) dss else [])" for c
    by (rule sources_write [OF addr]) (simp add: w ds)
  ultimately show ?thesis using b hb by (auto simp: BLOCK_NUMBER_MAX_def)
qed

lemma revert_executes:
  assumes "sync_ok env st head" and "request_ready env (RevertTo ptr cursor) st"
  shows "0 \<le> ptr_number ptr \<and> ptr_number ptr < BLOCK_NUMBER_MAX \<and> ptr_number ptr < head \<and>
    (\<exists>st'. request_effect env (RevertTo ptr cursor) st = Inr st' \<and> sync_ok env st' (ptr_number ptr) \<and>
       (\<forall>k c. sync_val env st' k c = sync_val env st k (min c (ptr_number ptr))) \<and>
       (\<forall>c. sources_at env st' c = sources_at env st (min c (ptr_number ptr))))"
proof -
  let ?layout = "se_layout env" and ?site = "se_site env" and ?t = "ptr_number ptr"
  obtain d where d: "store_ok ?layout ?site (writable st) d head" "head < 2147483647"
      "block_ptr (meta (writable st)) (s_deployment ?site) = Inr (map_option (\<lambda>n. \<lparr>ptr_hash = the (d_latest_hash d), ptr_number = n\<rparr>) (d_latest_number d))"
      "case d_latest_number d of Some n \<Rightarrow> n = head | None \<Rightarrow> head = - 1"
    using deployment_at_row [OF assms(1) [unfolded sync_ok_def]] by metis
  have latest: "d_latest_number d = Some head" and th: "?t < head"
    using assms(2) d(3,4) by (cases "d_latest_number d"; simp)+
  have t: "0 \<le> ?t" "?t < 2147483647" "is_i32 ?t" "is_i32 (?t + 1)" and hs: "length (ptr_hash ptr) = 32"
    and graft: "case info_graft_block (se_info env) of Some g \<Rightarrow> g \<le> ?t | None \<Rightarrow> True"
    using assms(2) th d(2) by (simp_all add: is_i32_def)
  have c: "is_i32 (d_reorg_count d + 1)" "is_i32 (d_current_reorg_depth d + 1)"
    using assms(2) find_site_row [OF store_ok_parts(2) [OF d(1)]] by simp_all
  obtain ev s' d' where rw: "rewind_with_conn (se_tag env) (se_info env) ?layout ?site ptr cursor (writable st) = Inr (ev, s')"
      and ok: "store_ok ?layout ?site s' d' ?t"
      and hist: "\<forall>ty i c. table_history ?layout (entities s') ty i c = table_history ?layout (entities (writable st)) ty i (min c ?t)"
      and ptr: "d_latest_number d' = Some ?t" "d_latest_hash d' = Some (ptr_hash ptr)"
      and ds: "data_sources (meta s') = kept_data_sources (s_deployment ?site) (?t + 1) (data_sources (meta (writable st)))"
    using rewind_spec [OF d(1) refl t(3,4) graft c, of "se_tag env" cursor] by blast
  define st' where "st' = try_send_store_event env ev (st\<lparr>writable := s'\<rparr>)"
  have w: "writable st' = s'" by (simp add: st'_def)
  have "request_effect env (RevertTo ptr cursor) st = Inr st'"
    using rw d(3) latest th by (simp add: revert_once_def revert_block_operations_def st'_def)
  moreover have "sync_ok env st' ?t" unfolding sync_ok_def w by (rule deployment_atI [OF ok ptr hs t(1,2)])
  moreover have "sync_val env st' k c = sync_val env st k (min c ?t)" for k c using hist by (simp add: sync_val_def w)
  moreover have "sources_at env st' c = sources_at env st (min c ?t)" for c by (rule sources_revert) (simp add: w ds)
  ultimately show ?thesis using t th by (auto simp: BLOCK_NUMBER_MAX_def)
qed

interpretation ds: block_store "request_effect env" "request_ready env" "sync_ok env" "own_key env" "sync_val env" "sources_at env"
  for env
proof unfold_locales
  fix st head c k assume ok: "sync_ok env st head" and hc: "head \<le> c"
  obtain d where d: "store_ok (se_layout env) (se_site env) (writable st) d head"
    using deployment_at_row [OF ok [unfolded sync_ok_def]] by metis
  show "sync_val env st k c = sync_val env st k head"
    unfolding sync_val_def by (rule table_history_stable [OF store_ok_parts(1) [OF d] order_refl hc])
  show "sources_at env st c = sources_at env st head"
    using store_ok_parts(4) [OF d] hc unfolding sources_at_def
    by (intro arg_cong [where f = "map stored_data_source"] filter_cong) (auto simp: data_sources_ok_def)
qed (erule (1) write_executes revert_executes)+
section \<open>Runs of the queue\<close>

lemma sync_retry_available: "av k \<Longrightarrow> r \<noteq> Inl DatabaseUnavailable \<Longrightarrow> sync_retry av r = Some r"
proof -
  assume av: "av k" and r: "r \<noteq> Inl DatabaseUnavailable"
  let ?f = "\<lambda>k. if av k then r else Inl DatabaseUnavailable"
  define n where "n = (LEAST n. av n)"
  have "av n" unfolding n_def using av by (rule LeastI)
  moreover have "\<forall>j < n. \<not> av j" unfolding n_def using not_less_Least by blast
  ultimately show ?thesis using retry_first [of n ?f] r by (auto simp: sync_retry_def)
qed

lemma sync_retry_SomeD: "sync_retry av r = Some x \<Longrightarrow> x = r \<and> r \<noteq> Inl DatabaseUnavailable"
  by (auto simp: sync_retry_def retry_def dest!: retry_loop_result split: if_splits)

lemma request_execute_SomeD: "request_execute env av r st = Some x \<Longrightarrow> request_effect env r st = x"
  by (cases r) (auto simp: sync_transact_block_operations_def sync_revert_block_operations_def dest: sync_retry_SomeD split: if_splits)

text \<open>
  The state of a queue whose task is running, after the requests \<open>rs\<close> were added to it: it has executed
  the first \<open>j\<close> of them, and the others wait. A request that was executed but not popped is still in the queue.
\<close>

definition front :: "writer_sys \<Rightarrow> nat \<Rightarrow> nat" where
  "front s j = (if committed s then j - 1 else j)"

definition sys_at :: "sync_env \<Rightarrow> sync_store \<Rightarrow> Request list \<Rightarrow> writer_sys \<Rightarrow> nat \<Rightarrow> bool" where
  "sys_at env st0 rs s j \<longleftrightarrow> bq_ok (queue (sys_queue s)) \<and> running s \<and> \<not> poisoned (sys_queue s) \<and> write_err (sys_queue s) = None \<and>
     j \<le> length rs \<and> (committed s \<longrightarrow> 0 < j) \<and> try_fold (request_effect env) (take j rs) st0 = Inr (sys_store s) \<and>
     items (queue (sys_queue s)) = drop (front s j) rs"

lemma sys_at_start: "sys_at env st [] (sys_start n st) 0"
  by (simp add: sys_at_def sys_start_def queue_start_def front_def)

lemma valid_take:
  assumes "sync_ok env st0 head" and "ds.valid env rs st0"
  obtains st head' where "try_fold (request_effect env) (take j rs) st0 = Inr st" "sync_ok env st head'"
    "ds.valid env (take j rs) st0" "ds.valid env (drop j rs) st"
proof -
  have v: "ds.valid env (take j rs @ drop j rs) st0" using assms(2) by simp
  then have "ds.valid env (take j rs) st0" unfolding ds.valid_append by blast
  moreover from ds.valid_runs [OF assms(1) this] obtain st head' where
    "try_fold (request_effect env) (take j rs) st0 = Inr st" "sync_ok env st head'" by blast
  moreover from v this(1) have "ds.valid env (drop j rs) st" unfolding ds.valid_append by simp
  ultimately show thesis using that by blast
qed

lemma sys_at_execute:
  assumes at: "sys_at env st0 rs s j" and ok: "sync_ok env st0 head" "ds.valid env rs st0" and step: "writer_execute env av s = Some s'"
  shows "sys_at env st0 rs s' (Suc j)"
proof -
  have c: "\<not> committed s" using step by (auto simp: writer_execute_def split: if_splits)
  have q: "bq_ok (queue (sys_queue s))" "running s" and its: "items (queue (sys_queue s)) = drop j rs"
    and run: "try_fold (request_effect env) (take j rs) st0 = Inr (sys_store s)"
    using at c by (simp_all add: sys_at_def front_def)
  have j: "j < length rs"
  proof (rule ccontr)
    assume "\<not> j < length rs"
    then have "items (queue (sys_queue s)) = []" using its by simp
    with step q c show False by (simp add: writer_execute_def bq_peek_ok)
  qed
  then have dr: "drop j rs = rs ! j # drop (Suc j) rs" by (simp add: Cons_nth_drop_Suc)
  have peek: "bq_peek (queue (sys_queue s)) = Some (Inr (rs ! j))" using its dr q by (simp add: bq_peek_ok)
  obtain head' where "sync_ok env (sys_store s) head'" "ds.valid env (drop j rs) (sys_store s)"
    using valid_take [OF ok, of j] run by (metis sum.inject(2))
  then obtain st where st: "request_effect env (rs ! j) (sys_store s) = Inr st"
    using ds.exec_ready [of env "sys_store s" head' "rs ! j"] unfolding dr by auto
  obtain x where x: "request_execute env av (rs ! j) (sys_store s) = Some x"
    using step peek c q by (cases "request_execute env av (rs ! j) (sys_store s)") (auto simp: writer_execute_def)
  have "x = Inr st" using request_execute_SomeD [OF x] st by simp
  then have s': "s' = s\<lparr>sys_store := st, committed := True\<rparr>"
    using step x peek c q by (simp add: writer_execute_def)
  show ?thesis
    using at c j run st unfolding s' sys_at_def by (simp add: front_def take_Suc_conv_app_nth try_fold_append)
qed

lemma sys_at_pop:
  assumes at: "sys_at env st0 rs s j" and step: "writer_pop s = Some s'"
  shows "sys_at env st0 rs s' j"
proof -
  have c: "committed s" using step by (auto simp: writer_pop_def split: if_splits)
  have q: "bq_ok (queue (sys_queue s))" "running s" and j: "0 < j" "j \<le> length rs" and its: "items (queue (sys_queue s)) = drop (j - 1) rs"
    using at c by (simp_all add: sys_at_def front_def)
  have "drop (j - 1) rs = rs ! (j - 1) # drop j rs" using j Cons_nth_drop_Suc [of "j - 1" rs] by simp
  then obtain bq where bq: "bq_pop (queue (sys_queue s)) = Some (Inr (rs ! (j - 1), bq))" "bq_ok bq" "items bq = drop j rs"
    using bq_pop_ok(2) [OF q(1), of "rs ! (j - 1)" "drop j rs"] its by auto
  then have "s' = s\<lparr>sys_queue := (sys_queue s)\<lparr>queue := bq\<rparr>, committed := False\<rparr>"
    using step c q by (simp add: writer_pop_def)
  then show ?thesis using at bq by (simp add: sys_at_def front_def)
qed

lemma sys_at_steps:
  assumes "(writer_step env)\<^sup>*\<^sup>* s s'" and "sys_at env st0 rs s j" and "sync_ok env st0 head" and "ds.valid env rs st0"
  shows "\<exists>j' \<ge> j. sys_at env st0 rs s' j'"
  using assms(1)
proof (induction rule: rtranclp_induct)
  case base
  then show ?case using assms(2) by blast
next
  case (step s1 s2)
  then obtain j1 where j1: "j \<le> j1" "sys_at env st0 rs s1 j1" by blast
  from step.hyps(2) show ?case
  proof cases
    case (executes av)
    from sys_at_execute [OF j1(2) assms(3,4) this] j1(1) show ?thesis by (intro exI [of _ "Suc j1"]) simp
  next
    case pops
    from sys_at_pop [OF j1(2) this] j1(1) show ?thesis by blast
  qed
qed

lemma sys_at_run:
  assumes "queue_run env (sys_start n st0) rs s" and "sync_ok env st0 head" and "ds.valid env rs st0"
  shows "\<exists>j. sys_at env st0 rs s j"
  using assms(1,3)
proof (induction rule: queue_run.induct)
  case started
  show ?case using sys_at_start by blast
next
  case (push_begun rs s req r s')
  then obtain j where j: "sys_at env st0 rs s j" by blast
  then have "check_err (sys_queue s) = (Inr (), sys_queue s)" by (simp add: sys_at_def check_err_def)
  then have "s' = s\<lparr>caller := Some req\<rparr>" using push_begun.hyps(2) by (auto simp: push_begin_def split: if_splits)
  then show ?case using j by (auto simp: sys_at_def front_def)
next
  case (push_ended rs s req s')
  have "ds.valid env rs st0" using push_ended.prems unfolding ds.valid_append by blast
  then obtain j where j: "sys_at env st0 rs s j" using push_ended.IH by blast
  obtain bq where bq: "bq_push req (queue (sys_queue s)) = Some bq"
      "s' = s\<lparr>sys_queue := (sys_queue s)\<lparr>queue := bq\<rparr>, caller := None\<rparr>"
    using push_ended.hyps(2,3) by (auto simp: push_end_def split: option.splits)
  have "bq_ok (queue (sys_queue s))" using j by (simp add: sys_at_def)
  from bq_push_ok [OF this bq(1)] j show ?case
    by (intro exI [of _ j]) (auto simp: sys_at_def front_def bq(2))
next
  case (flushed rs s r s')
  then obtain j where j: "sys_at env st0 rs s j" by blast
  then have "check_err (sys_queue s) = (Inr (), sys_queue s)" by (simp add: sys_at_def check_err_def)
  then have "s' = s" using flushed.hyps(2) by (auto simp: queue_flush_def split: option.splits)
  then show ?case using j by blast
next
  case (writes rs s s')
  then obtain j where j: "sys_at env st0 rs s j" by blast
  have "(writer_step env)\<^sup>*\<^sup>* s s'" using writes.hyps(2) by (rule r_into_rtranclp)
  from sys_at_steps [OF this j assms(2) writes.prems] show ?case by blast
qed
section \<open>Reading through the queue\<close>

text \<open>Requests that can be executed one after the other, and their execution.\<close>

fun requests_valid :: "sync_env \<Rightarrow> Request list \<Rightarrow> sync_store \<Rightarrow> bool" where
  "requests_valid env [] st = True"
| "requests_valid env (r # rs) st =
     (request_ready env r st \<and> (case request_effect env r st of Inl _ \<Rightarrow> False | Inr st1 \<Rightarrow> requests_valid env rs st1))"

definition execute_all :: "sync_env \<Rightarrow> Request list \<Rightarrow> sync_store \<Rightarrow> (StoreError, sync_store) result" where
  "execute_all env = try_fold (request_effect env)"

lemma requests_valid_iff: "requests_valid env rs st = ds.valid env rs st"
  by (induction rs arbitrary: st) (auto split: sum.splits)

lemma snapshot:
  assumes "sys_at env st0 rs s j" and "sys_at env st0 rs s2 j2" and "j \<le> j2" and "sync_ok env st0 head" and "ds.valid env rs st0"
  obtains st h part final where "sync_ok env st h"
    "ds.valid env (items (queue (sys_queue s))) st" "execute_all env (items (queue (sys_queue s))) st = Inr final"
    "execute_all env rs st0 = Inr final" "items (queue (sys_queue s)) = part @ drop (length part) (items (queue (sys_queue s)))"
    "ds.valid env part st" "execute_all env part st = Inr (sys_store s2)"
proof -
  let ?f = "front s j" and ?items = "items (queue (sys_queue s))"
  have its: "?items = drop ?f rs" and fj: "?f \<le> j2" using assms(1,3) by (auto simp: sys_at_def front_def)
  obtain st h where st: "try_fold (request_effect env) (take ?f rs) st0 = Inr st" "sync_ok env st h" "ds.valid env (drop ?f rs) st"
    using valid_take [OF assms(4,5), of ?f] by metis
  obtain final h' where final: "try_fold (request_effect env) (drop ?f rs) st = Inr final" using ds.valid_runs [OF st(2,3)] by blast
  have "try_fold (request_effect env) (take ?f rs @ drop ?f rs) st0 = Inr final"
    unfolding try_fold_append using st(1) final by simp
  then have all: "try_fold (request_effect env) rs st0 = Inr final" by simp
  define part where "part = take (j2 - ?f) (drop ?f rs)"
  have "take j2 rs = take ?f rs @ part" using fj by (simp add: part_def take_add [symmetric])
  then have part: "try_fold (request_effect env) part st = Inr (sys_store s2)"
    using assms(2) st(1) by (simp add: sys_at_def try_fold_append)
  have "ds.valid env (part @ drop (j2 - ?f) (drop ?f rs)) st" unfolding part_def append_take_drop_id by (rule st(3))
  then have valid: "ds.valid env part st" unfolding ds.valid_append by blast
  have split: "drop ?f rs = part @ drop (length part) (drop ?f rs)"
    unfolding part_def by (metis append_take_drop_id append_eq_conv_conj)
  show thesis
    by (rule that [of st h final part, unfolded its execute_all_def]) (fact st(2) st(3) final all split valid part)+
qed

lemma sync_get_value:
  assumes "sync_ok env st head" and "hm_get (tables (se_layout env)) (entity_type key) \<noteq> None" and "c \<le> BLOCK_NUMBER_MAX" and "av k"
  shows "\<exists>r. sync_get env av st key c = Some (Inr r) \<and> map_option visible r = sync_val env st key c"
proof -
  obtain d where d: "store_ok (se_layout env) (se_site env) (writable st) d head"
    using deployment_at_row [OF assms(1) [unfolded sync_ok_def]] by metis
  have "reads (se_layout env) (entities (writable st)) (entity_type key) (entity_id key) c = Inr (sync_val env st key c)"
    using reads_history [OF store_ok_parts(1) [OF d], of c] assms(2,3) by (simp add: sync_val_def BLOCK_NUMBER_MAX_def)
  then obtain r where "layout_find (se_layout env) (entities (writable st)) (entity_type key) (entity_id key) c = Inr r"
      "map_option visible r = sync_val env st key c"
    unfolding reads_def by (cases "layout_find (se_layout env) (entities (writable st)) (entity_type key) (entity_id key) c") auto
  then show ?thesis using sync_retry_available [of av k "Inr r", OF assms(4)] by (simp add: sync_get_def store_get_def)
qed

text \<open>
  C12: Reading through the write queue is reading the future. However pushes, flushes and the steps of
  the background writer interleave, a lookup that combines the queue with the store finds the
  entity as the store will have it when every request that was accepted has been executed,
  also when the writer goes on between looking at the queue and reading the store.
\<close>

theorem queue_get_reads_final:
  assumes "sync_ok env st0 head" and "queue_run env (sys_start n st0) rs s" and "requests_valid env rs st0"
    and "(writer_step env)\<^sup>*\<^sup>* s s2" and "own_key env key" and "hm_get (tables (se_layout env)) (entity_type key) \<noteq> None" and "av k"
  shows "\<exists>final r. execute_all env rs st0 = Inr final \<and> queue_get env av (sys_queue s) (sys_store s2) key = Some (Inr r) \<and>
    reads (se_layout env) (entities (writable final)) (entity_type key) (entity_id key) BLOCK_NUMBER_MAX = Inr (map_option visible r)"
proof -
  have v: "ds.valid env rs st0" using assms(3) by (simp add: requests_valid_iff)
  obtain j where j: "sys_at env st0 rs s j" using sys_at_run [OF assms(2,1) v] by blast
  obtain j2 where j2: "j \<le> j2" "sys_at env st0 rs s2 j2" using sys_at_steps [OF assms(4) j assms(1) v] by blast
  let ?items = "items (queue (sys_queue s))"
  obtain st h part final where st: "sync_ok env st h" "ds.valid env ?items st"
      "execute_all env ?items st = Inr final" "execute_all env rs st0 = Inr final"
      "?items = part @ drop (length part) ?items" "ds.valid env part st" "execute_all env part st = Inr (sys_store s2)"
    using snapshot [OF j j2(2,1) assms(1) v] by metis
  have val: "sync_val env final key BLOCK_NUMBER_MAX =
      (case lookup_of key ?items of Some e \<Rightarrow> map_option visible e | None \<Rightarrow> sync_val env st key (limit_of ?items))"
    using ds.lookup_correct [OF st(1,2)] st(3) assms(5) by (simp add: execute_all_def)
  obtain h' where "sync_ok env final h'" using ds.valid_runs [OF assms(1) v] st(4) by (auto simp: execute_all_def)
  then obtain d where d: "store_ok (se_layout env) (se_site env) (writable final) d h'"
    using deployment_at_row [unfolded sync_ok_def] by (metis sync_ok_def)
  have rd: "reads (se_layout env) (entities (writable final)) (entity_type key) (entity_id key) BLOCK_NUMBER_MAX =
      Inr (sync_val env final key BLOCK_NUMBER_MAX)"
    using reads_history [OF store_ok_parts(1) [OF d]] assms(6) by (simp add: sync_val_def BLOCK_NUMBER_MAX_def)
  obtain tr where tr: "find_map_state (lookup_request key) (rev ?items) tracker_new = (lookup_of key ?items, tr)"
      "lookup_of key ?items = None \<longrightarrow> tr = tracker_of ?items"
    using lookup_traversal [OF ds.valid_numbers [OF st(1,2)]] by blast
  have "\<exists>r. queue_get env av (sys_queue s) (sys_store s2) key = Some (Inr r) \<and> map_option visible r = sync_val env final key BLOCK_NUMBER_MAX"
  proof (cases "lookup_of key ?items")
    case None
    have "limit_of ?items \<le> limit_of part" using limit_of_append [of part "drop (length part) ?items"] st(5) by simp
    then have "sync_val env (sys_store s2) key (limit_of ?items) = sync_val env st key (limit_of ?items)"
      using ds.prefix_unchanged(1) [OF st(1,6)] st(7) assms(5) by (simp add: execute_all_def)
    moreover obtain h2 where "sync_ok env (sys_store s2) h2" using ds.valid_runs [OF st(1,6)] st(7) by (auto simp: execute_all_def)
    ultimately show ?thesis
      using sync_get_value [of env "sys_store s2" h2 key "limit_of ?items" av k] assms(6,7) limit_of_le [of ?items] val tr None
      by (simp add: queue_get_def bq_find_map_def query_block_def tracker_of_def)
  next
    case (Some e)
    then show ?thesis using val tr(1) by (cases e) (simp_all add: queue_get_def bq_find_map_def)
  qed
  then show ?thesis using st(4) rd by auto
qed
lemma dds_load_at:
  assumes "data_sources_ok m i head"
  shows "dds_load m i b = Inr (map stored_data_source (filter (\<lambda>c. c_deployment c = i \<and> c_block_number c \<le> b) (data_sources m)))"
proof -
  let ?mine = "filter (\<lambda>c. c_deployment c = i) (data_sources m)"
  let ?cs = "filter (\<lambda>c. c_deployment c = i \<and> c_block_number c \<le> b) (data_sources m)"
  have cs: "?cs = filter (\<lambda>c. c_block_number c \<le> b) ?mine" by (simp add: conj_commute)
  have nums: "sorted (map c_block_number ?cs)"
    unfolding cs by (rule sorted_map_filter_key) (use assms in \<open>simp add: data_sources_ok_def\<close>)
  have vids: "sorted (map c_vid ?cs)" using assms by (intro sorted_map_filter_key) (simp add: data_sources_ok_def)
  have "dds_load m i b = try_fold (dds_load_step i) ?cs []"
    unfolding dds_load_def sort_key_sorted [OF vids] sort_key_sorted [OF nums] ..
  also have "\<dots> = Inr ([] @ map stored_data_source ?cs)"
    using assms nums by (intro load_fold) (auto simp: data_sources_ok_def)
  finally show ?thesis by simp
qed

lemma sync_load_value:
  assumes "sync_ok env st head"
  shows "dds_load (meta (writable st)) (s_deployment (se_site env)) c = Inr (sources_at env st c)"
    and "av k \<Longrightarrow> sync_load_dynamic_data_sources env av st c = Some (Inr (sources_at env st c))"
proof -
  obtain d where d: "store_ok (se_layout env) (se_site env) (writable st) d head"
    using deployment_at_row [OF assms [unfolded sync_ok_def]] by metis
  show l: "dds_load (meta (writable st)) (s_deployment (se_site env)) c = Inr (sources_at env st c)"
    unfolding sources_at_def by (rule dds_load_at [OF store_ok_parts(4) [OF d]])
  show "sync_load_dynamic_data_sources env av st c = Some (Inr (sources_at env st c))" if "av k"
    unfolding sync_load_dynamic_data_sources_def l by (rule sync_retry_available [of av k, OF that]) simp
qed

lemma created_by_append: "created_by (xs @ ys) \<longleftrightarrow> created_by xs \<and> created_by ys"
  by (induction xs) auto

text \<open>
  C31: The data sources that are loaded through the write queue are, in the same order, the ones that
  will be loaded from the store when every accepted request has been executed, provided that data
  sources carry the number of the block that created them. Reverts that are still queued hide the
  data sources they will remove.
\<close>

theorem queue_load_reads_final:
  assumes "sync_ok env st0 head" and "queue_run env (sys_start n st0) rs s" and "requests_valid env rs st0" and "created_by rs"
    and "(writer_step env)\<^sup>*\<^sup>* s s2" and "av k"
  shows "\<exists>final dss. execute_all env rs st0 = Inr final \<and>
    queue_load_dynamic_data_sources env av (sys_queue s) (sys_store s2) = Some (Inr dss) \<and>
    dds_load (meta (writable final)) (s_deployment (se_site env)) BLOCK_NUMBER_MAX = Inr dss"
proof -
  have v: "ds.valid env rs st0" using assms(3) by (simp add: requests_valid_iff)
  obtain j where j: "sys_at env st0 rs s j" using sys_at_run [OF assms(2,1) v] by blast
  obtain j2 where j2: "j \<le> j2" "sys_at env st0 rs s2 j2" using sys_at_steps [OF assms(5) j assms(1) v] by blast
  let ?items = "items (queue (sys_queue s))"
  obtain st h part final where st: "sync_ok env st h" "ds.valid env ?items st"
      "execute_all env ?items st = Inr final" "execute_all env rs st0 = Inr final"
      "?items = part @ drop (length part) ?items" "ds.valid env part st" "execute_all env part st = Inr (sys_store s2)"
    using snapshot [OF j j2(2,1) assms(1) v] by metis
  have "?items = drop (front s j) rs" using j by (simp add: sys_at_def)
  then have cr: "created_by ?items" using assms(4) created_by_append [of "take (front s j) rs" "drop (front s j) rs"] by simp
  obtain h' where ok: "sync_ok env final h'" using ds.valid_runs [OF assms(1) v] st(4) by (auto simp: execute_all_def)
  have "sources_at env final BLOCK_NUMBER_MAX = sources_at env st (limit_of ?items) @ concat (sources_of ?items)"
    using ds.sources_correct [OF st(1,2) _ cr] st(3) by (simp add: execute_all_def)
  moreover have "limit_of ?items \<le> limit_of part" using limit_of_append [of part "drop (length part) ?items"] st(5) by simp
  then have "sources_at env (sys_store s2) (limit_of ?items) = sources_at env st (limit_of ?items)"
    using ds.prefix_unchanged(2) [OF st(1,6)] st(7) by (simp add: execute_all_def)
  moreover obtain h2 where ok2: "sync_ok env (sys_store s2) h2" using ds.valid_runs [OF st(1,6)] st(7) by (auto simp: execute_all_def)
  have "sort_key sds_creation_block (concat (rev (sources_of ?items))) = concat (sources_of ?items)"
    using ds.sources_increasing [OF st(1,2) cr] by (intro sort_groups) blast+
  ultimately have "queue_load_dynamic_data_sources env av (sys_queue s) (sys_store s2) = Some (Inr (sources_at env final BLOCK_NUMBER_MAX))"
    using sources_traversal [OF ds.valid_numbers [OF st(1,2)]] sync_load_value(2) [where av = av and k = k, OF ok2 assms(6)]
    by (simp add: queue_load_dynamic_data_sources_def bq_fold_def query_block_def tracker_of_def)
  then show ?thesis using st(4) sync_load_value(1) [OF ok] by blast
qed
section \<open>An example run\<close>

definition ex_env :: sync_env where
  "ex_env = \<lparr>se_hash = (\<lambda>_. []), se_tag = 0, se_info = ex_info, se_layout = ex_layout, se_site = ex_site,
     disable_subscription_notifications = False\<rparr>"

definition ex_sync :: sync_store where
  "ex_sync = \<lparr>writable = ex_store, sent = []\<rparr>"

text \<open>Block 4 is written and reverted again.\<close>

definition ex_requests :: "Request list" where
  "ex_requests = [Write (ex_ptr 4) None ex_mods [ex_data_source\<lparr>sds_creation_block := Some 4\<rparr>] [], RevertTo (ex_ptr 3) None]"

definition ex_queued :: writer_sys where
  "ex_queued = (sys_start 2 ex_sync)\<lparr>sys_queue := \<lparr>queue = \<lparr>capacity = 2, items = ex_requests, push_permits = 0, pop_permits = 2\<rparr>,
     write_err = None, poisoned = False\<rparr>\<rparr>"

lemma ex_env_simps [simp]:
  "se_info ex_env = ex_info" "se_layout ex_env = ex_layout" "se_site ex_env = ex_site" "writable ex_sync = ex_store"
  "s_deployment ex_site = ''Qm''" "ptr_number (ex_ptr n) = n" "ptr_hash (ex_ptr n) = ex_hash n" "length (ex_hash n) = 32"
  by (simp_all add: ex_env_def ex_sync_def ex_site_def ex_ptr_def ex_hash_def)

lemma ex_sync_ok: "sync_ok ex_env ex_sync 3"
  using deployment_atI [of ex_layout ex_site ex_store ex_deployment "ex_ptr 3"] ex_store_ok by (simp add: sync_ok_def ex_deployment_def)

lemma ex_write_ready: "request_ready ex_env (Write (ex_ptr 4) None ex_mods [ex_data_source\<lparr>sds_creation_block := Some 4\<rparr>] []) ex_sync"
proof -
  have "block_ptr (meta ex_store) ''Qm'' = Inr (Some (ex_ptr 3))"
    using block_ptr_row [OF store_ok_parts(2) [OF ex_store_ok], of 3 "ex_hash 3"] by (simp add: ex_deployment_def ex_ptr_def)
  moreover have "block_input_ok ex_info ex_layout ex_site (ex_ptr 4) ex_mods [ex_data_source\<lparr>sds_creation_block := Some 4\<rparr>] [] ex_store"
    using ex_input by (simp add: block_input_ok_def)
  ultimately show ?thesis by (simp add: BLOCK_NUMBER_MAX_def)
qed

lemma ex_requests_valid: "requests_valid ex_env ex_requests ex_sync"
proof -
  let ?w = "Write (ex_ptr 4) None ex_mods [ex_data_source\<lparr>sds_creation_block := Some 4\<rparr>] []"
  have pre: "3 < ptr_number (ex_ptr 4)" "0 \<le> ptr_number (ex_ptr 4)" "ptr_number (ex_ptr 4) < 2147483647" by simp_all
  have inp: "block_input_ok ex_info ex_layout ex_site (ex_ptr 4) ex_mods [ex_data_source\<lparr>sds_creation_block := Some 4\<rparr>] [] ex_store"
    using ex_write_ready by simp
  obtain s' d' where s': "transact_block_operations (se_hash ex_env) (se_tag ex_env) ex_info ex_layout ex_site (ex_ptr 4) None ex_mods
        [ex_data_source\<lparr>sds_creation_block := Some 4\<rparr>] [] ex_store = Inr (event_from_modifications (se_tag ex_env) ex_mods, s')"
      "store_ok ex_layout ex_site s' d' 4" "d_latest_number d' = Some 4" "d_latest_hash d' = Some (ex_hash 4)"
      "d_reorg_count d' = d_reorg_count ex_deployment" "d_current_reorg_depth d' = 0"
    using transact_spec [OF ex_store_ok pre inp, of "se_hash ex_env" "se_tag ex_env" None] unfolding ex_env_simps by blast
  have row: "site_row (meta s') ex_site d'" by (rule store_ok_parts(2) [OF s'(2)])
  have "same_subgraph ex_mods ''Qm''" by (simp add: same_subgraph_def ex_mods_def ex_key_def)
  then obtain st where st: "request_effect ex_env ?w ex_sync = Inr st" "writable st = s'"
    using s'(1) by (simp add: transact_once_def)
  have "block_ptr (meta s') ''Qm'' = Inr (Some \<lparr>ptr_hash = ex_hash 4, ptr_number = 4\<rparr>)"
    using block_ptr_row [OF row s'(3,4)] by simp
  moreover have "find_deployment (meta s') ''Qm'' = Some d'" using find_site_row [OF row] by simp
  ultimately have "request_ready ex_env (RevertTo (ex_ptr 3) None) st"
    using s'(5,6) st(2) by (simp add: ex_info_def ex_deployment_def is_i32_def)
  moreover have "sync_ok ex_env st 4"
    unfolding sync_ok_def st(2) using deployment_atI [of ex_layout ex_site s' d' "ex_ptr 4"] s'(2-4) by simp
  ultimately obtain st2 where "request_effect ex_env (RevertTo (ex_ptr 3) None) st = Inr st2" using ds.revert_step by metis
  then show ?thesis
    using st(1) ex_write_ready \<open>request_ready ex_env (RevertTo (ex_ptr 3) None) st\<close>
    by (simp add: ex_requests_def del: request_ready.simps request_effect.simps)
qed

lemma ex_run: "queue_run ex_env (sys_start 2 ex_sync) ex_requests ex_queued"
proof -
  let ?w = "ex_requests ! 0" and ?r = "ex_requests ! 1" and ?s = "sys_start 2 ex_sync"
  have rs: "ex_requests = [?w, ?r]" by (simp add: ex_requests_def)
  define q1 where "q1 = ?s\<lparr>sys_queue := \<lparr>queue = \<lparr>capacity = 2, items = [?w], push_permits = 1, pop_permits = 1\<rparr>, write_err = None, poisoned = False\<rparr>\<rparr>"
  have 0: "queue_run ex_env ?s [] (?s\<lparr>caller := Some ?w\<rparr>)"
    by (rule push_begun [OF started, where req = ?w and r = "Inr ()"]) (simp add: push_begin_def check_err_def sys_start_def queue_start_def)
  have 1: "queue_run ex_env ?s ([] @ [?w]) q1"
    by (rule push_ended [OF 0]) (simp_all add: push_end_def bq_push_def sys_start_def queue_start_def bq_with_capacity_def q1_def)
  have 2: "queue_run ex_env ?s [?w] (q1\<lparr>caller := Some ?r\<rparr>)"
    by (rule push_begun [OF 1 [simplified], where req = ?r and r = "Inr ()"]) (simp add: push_begin_def check_err_def sys_start_def q1_def)
  have "queue_run ex_env ?s ([?w] @ [?r]) ex_queued"
    by (rule push_ended [OF 2]) (simp_all add: push_end_def bq_push_def sys_start_def q1_def ex_queued_def ex_requests_def)
  then show ?thesis using rs by simp
qed

lemma ex_created: "created_by ex_requests"
  by (simp add: ex_requests_def)

theorem queue_get_reads_final_witness:
  "\<exists>final r. execute_all ex_env ex_requests ex_sync = Inr final \<and>
     queue_get ex_env (\<lambda>k. k = 2) (sys_queue ex_queued) (sys_store ex_queued) (ex_key ''a'') = Some (Inr r) \<and>
     reads ex_layout (entities (writable final)) ''Foo'' ''a'' BLOCK_NUMBER_MAX = Inr (map_option visible r)"
proof -
  have "own_key ex_env (ex_key ''a'')" by (simp add: own_key_def ex_key_def)
  moreover have "hm_get (tables (se_layout ex_env)) (entity_type (ex_key ''a'')) \<noteq> None" using ex_get by (simp add: ex_key_def)
  ultimately have "\<exists>final r. execute_all ex_env ex_requests ex_sync = Inr final \<and>
      queue_get ex_env (\<lambda>k. k = 2) (sys_queue ex_queued) (sys_store ex_queued) (ex_key ''a'') = Some (Inr r) \<and>
      reads (se_layout ex_env) (entities (writable final)) (entity_type (ex_key ''a'')) (entity_id (ex_key ''a'')) BLOCK_NUMBER_MAX =
        Inr (map_option visible r)"
    by (rule queue_get_reads_final [where k = 2, OF ex_sync_ok ex_run ex_requests_valid rtranclp.rtrancl_refl]) simp
  then show ?thesis unfolding ex_env_simps by (simp add: ex_key_def)
qed

theorem queue_load_reads_final_witness:
  "\<exists>final dss. execute_all ex_env ex_requests ex_sync = Inr final \<and>
     queue_load_dynamic_data_sources ex_env (\<lambda>k. k = 2) (sys_queue ex_queued) (sys_store ex_queued) = Some (Inr dss) \<and>
     dds_load (meta (writable final)) ''Qm'' BLOCK_NUMBER_MAX = Inr dss"
  using queue_load_reads_final [where av = "\<lambda>k. k = 2" and k = 2,
      OF ex_sync_ok ex_run ex_requests_valid ex_created rtranclp.rtrancl_refl] by simp
section \<open>Progress and errors\<close>

text \<open>The state of a queue whose task has stopped: a request failed, and none after it was executed.\<close>

definition stopped_at :: "sync_env \<Rightarrow> sync_store \<Rightarrow> Request list \<Rightarrow> writer_sys \<Rightarrow> nat \<Rightarrow> bool" where
  "stopped_at env st0 rs s j \<longleftrightarrow> bq_ok (queue (sys_queue s)) \<and> \<not> running s \<and> poisoned (sys_queue s) \<and> j < length rs \<and>
     try_fold (request_effect env) (take j rs) st0 = Inr (sys_store s) \<and>
     (\<exists>e. request_effect env (rs ! j) (sys_store s) = Inl e \<and> write_err (sys_queue s) \<in> {None, Some (writer_error e)})"

lemma sys_at_writer:
  assumes at: "sys_at env st0 rs s j" and step: "writer_step env s s'"
  shows "sys_at env st0 rs s' j \<or> sys_at env st0 rs s' (Suc j) \<or> stopped_at env st0 rs s' j"
  using step
proof cases
  case pops
  then show ?thesis using sys_at_pop [OF at] by blast
next
  case (executes av)
  then have c: "\<not> committed s" by (auto simp: writer_execute_def split: if_splits)
  have q: "bq_ok (queue (sys_queue s))" "running s" and its: "items (queue (sys_queue s)) = drop j rs"
    and run: "try_fold (request_effect env) (take j rs) st0 = Inr (sys_store s)"
    using at c by (simp_all add: sys_at_def front_def)
  have j: "j < length rs"
  proof (rule ccontr)
    assume "\<not> j < length rs"
    then have "items (queue (sys_queue s)) = []" using its by simp
    with executes q c show False by (simp add: writer_execute_def bq_peek_ok)
  qed
  then have "drop j rs = rs ! j # drop (Suc j) rs" by (simp add: Cons_nth_drop_Suc)
  then have peek: "bq_peek (queue (sys_queue s)) = Some (Inr (rs ! j))" using its q by (simp add: bq_peek_ok)
  obtain x where x: "request_execute env av (rs ! j) (sys_store s) = Some x"
    using executes peek c q by (cases "request_execute env av (rs ! j) (sys_store s)") (auto simp: writer_execute_def)
  show ?thesis
  proof (cases x)
    case (Inr st)
    then have eff: "request_effect env (rs ! j) (sys_store s) = Inr st" using request_execute_SomeD [OF x] by simp
    have s': "s' = s\<lparr>sys_store := st, committed := True\<rparr>"
      using executes x Inr peek c q by (simp add: writer_execute_def)
    have "sys_at env st0 rs s' (Suc j)"
      using at c j run eff unfolding s' sys_at_def by (simp add: front_def take_Suc_conv_app_nth try_fold_append)
    then show ?thesis by blast
  next
    case (Inl e)
    then have eff: "request_effect env (rs ! j) (sys_store s) = Inl e" using request_execute_SomeD [OF x] by simp
    obtain bq where bq: "bq_clear (queue (sys_queue s)) = Inr bq" "bq_ok bq" using bq_clear_ok [OF q(1)] by blast
    have s': "s' = s\<lparr>sys_queue := (sys_queue s)\<lparr>write_err := Some (writer_error e), poisoned := True, queue := bq\<rparr>, running := False\<rparr>"
      using executes x Inl peek c q bq(1) by (simp add: writer_execute_def record_err_def)
    have "stopped_at env st0 rs s' j" using bq(2) j run eff by (simp add: s' stopped_at_def)
    then show ?thesis by blast
  qed
qed

lemma stopped_queue: "stopped_at env st0 rs s j \<Longrightarrow> \<not> writer_step env s s'"
  by (auto simp: stopped_at_def writer_execute_def writer_pop_def elim!: writer_step.cases)

lemma check_err_cases:
  "check_err q = (Inr (), q) \<and> write_err q = None \<and> \<not> poisoned q \<or>
   (\<exists>e. check_err q = (Inl e, q\<lparr>write_err := None\<rparr>)) \<and> (write_err q \<noteq> None \<or> poisoned q)"
  by (cases q) (auto simp: check_err_def split: option.splits)

lemma queue_run_state:
  assumes "queue_run env (sys_start n st0) rs s"
  shows "\<exists>j. sys_at env st0 rs s j \<or> stopped_at env st0 rs s j"
  using assms
proof (induction rule: queue_run.induct)
  case started
  show ?case using sys_at_start by blast
next
  case (push_begun rs s req r s')
  from check_err_cases [of "sys_queue s"] push_begun.hyps(2)
  have s': "s' = s\<lparr>caller := Some req\<rparr> \<or> s' = s\<lparr>sys_queue := (sys_queue s)\<lparr>write_err := None\<rparr>\<rparr>"
    by (auto simp: push_begin_def split: if_splits)
  from push_begun.IH obtain j where "sys_at env st0 rs s j \<or> stopped_at env st0 rs s j" ..
  then have "sys_at env st0 rs s' j \<or> stopped_at env st0 rs s' j"
    using s' by (elim disjE) (auto simp: sys_at_def stopped_at_def front_def)
  then show ?case ..
next
  case (push_ended rs s req s')
  obtain bq where bq: "bq_push req (queue (sys_queue s)) = Some bq"
      "s' = s\<lparr>sys_queue := (sys_queue s)\<lparr>queue := bq\<rparr>, caller := None\<rparr>"
    using push_ended.hyps(2,3) by (auto simp: push_end_def split: option.splits)
  from push_ended.IH obtain j where j: "sys_at env st0 rs s j \<or> stopped_at env st0 rs s j" ..
  then have "bq_ok (queue (sys_queue s))" by (auto simp: sys_at_def stopped_at_def)
  note push = bq_push_ok [OF this bq(1)]
  have "sys_at env st0 (rs @ [req]) s' j \<or> stopped_at env st0 (rs @ [req]) s' j"
    using j push by (elim disjE) (auto simp: sys_at_def stopped_at_def front_def bq(2) nth_append)
  then show ?case ..
next
  case (flushed rs s r s')
  from check_err_cases [of "sys_queue s"] flushed.hyps(2)
  have s': "s' = s \<or> s' = s\<lparr>sys_queue := (sys_queue s)\<lparr>write_err := None\<rparr>\<rparr>"
    by (auto simp: queue_flush_def split: option.splits)
  from flushed.IH obtain j where "sys_at env st0 rs s j \<or> stopped_at env st0 rs s j" ..
  then have "sys_at env st0 rs s' j \<or> stopped_at env st0 rs s' j"
    using s' by (elim disjE) (auto simp: sys_at_def stopped_at_def front_def)
  then show ?case ..
next
  case (writes rs s s')
  then show ?case using sys_at_writer stopped_queue by metis
qed

text \<open>
  C32: Requests are executed in the order in which they were accepted, each at most once and without
  gaps. Whatever the interleaving, the store is the result of executing the first \<open>j\<close> accepted
  requests; either the queue holds the others, or the next one failed, the queue is poisoned
  and refuses further requests.
\<close>

theorem queue_executes_in_order:
  assumes "queue_run env (sys_start n st0) rs s"
  shows "\<exists>j \<le> length rs. execute_all env (take j rs) st0 = Inr (sys_store s) \<and>
    (if running s then items (queue (sys_queue s)) = drop (if committed s then j - 1 else j) rs \<and> check_err (sys_queue s) = (Inr (), sys_queue s)
     else j < length rs \<and> (\<exists>e. request_effect env (rs ! j) (sys_store s) = Inl e) \<and>
       (\<exists>e q. check_err (sys_queue s) = (Inl e, q)))"
proof -
  from queue_run_state [OF assms] obtain j where "sys_at env st0 rs s j \<or> stopped_at env st0 rs s j" ..
  then show ?thesis
  proof
    assume "sys_at env st0 rs s j"
    then show ?thesis by (intro exI [of _ j]) (simp add: sys_at_def front_def execute_all_def check_err_def)
  next
    assume "stopped_at env st0 rs s j"
    then show ?thesis
      by (intro exI [of _ j]) (auto simp: stopped_at_def execute_all_def check_err_def split: option.splits)
  qed
qed

theorem queue_executes_in_order_witness:
  "\<exists>j \<le> 2. execute_all ex_env (take j ex_requests) ex_sync = Inr (sys_store ex_queued) \<and>
     items (queue (sys_queue ex_queued)) = drop j ex_requests"
proof -
  have "running ex_queued" "\<not> committed ex_queued" "length ex_requests = 2"
    by (simp_all add: ex_queued_def sys_start_def ex_requests_def)
  with queue_executes_in_order [OF ex_run] show ?thesis by auto
qed
text \<open>The number of steps the task has to make until the queue is empty.\<close>

definition remaining :: "writer_sys \<Rightarrow> nat" where
  "remaining s = 2 * length (items (queue (sys_queue s))) - (if committed s then 1 else 0)"

lemma writer_progress:
  assumes at: "sys_at env st0 rs s j" and ok: "sync_ok env st0 head" "ds.valid env rs st0"
    and ne: "items (queue (sys_queue s)) \<noteq> []" and av: "av k"
  shows "\<exists>s'. writer_step env s s' \<and> (writer_execute env av s = Some s' \<or> writer_pop s = Some s')"
proof (cases "committed s")
  case True
  obtain x xs where x: "items (queue (sys_queue s)) = x # xs" using ne by (cases "items (queue (sys_queue s))") auto
  have q: "bq_ok (queue (sys_queue s))" "running s" using at by (simp_all add: sys_at_def)
  from bq_pop_ok(2) [OF q(1) x] True q(2) have "\<exists>s'. writer_pop s = Some s'" by (auto simp: writer_pop_def)
  then show ?thesis using pops by blast
next
  case False
  have q: "bq_ok (queue (sys_queue s))" "running s" and its: "items (queue (sys_queue s)) = drop j rs" and j: "j < length rs"
    and run: "try_fold (request_effect env) (take j rs) st0 = Inr (sys_store s)"
    using at False ne by (auto simp: sys_at_def front_def)
  then have dr: "drop j rs = rs ! j # drop (Suc j) rs" by (simp add: Cons_nth_drop_Suc)
  obtain head' where h: "sync_ok env (sys_store s) head'" "ds.valid env (drop j rs) (sys_store s)"
    using valid_take [OF ok, of j] run by (metis sum.inject(2))
  then have rd: "request_ready env (rs ! j) (sys_store s)" unfolding dr by simp
  then obtain st where st: "request_effect env (rs ! j) (sys_store s) = Inr st" using ds.exec_ready [OF h(1)] by metis
  have "request_execute env av (rs ! j) (sys_store s) = Some (Inr st)"
    using st sync_retry_available [of av k "Inr st", OF av]
    by (cases "rs ! j") (auto simp: sync_transact_block_operations_def sync_revert_block_operations_def split: if_splits)
  then have "\<exists>s'. writer_execute env av s = Some s'"
    using False q its dr by (simp add: writer_execute_def bq_peek_ok)
  then show ?thesis using executes by blast
qed

lemma remaining_decreases:
  assumes at: "sys_at env st0 rs s j" and at': "sys_at env st0 rs s' j'" and step: "writer_step env s s'"
  shows "remaining s' < remaining s"
  using step
proof cases
  case (executes av)
  then have c: "\<not> committed s" by (auto simp: writer_execute_def split: if_splits)
  have "items (queue (sys_queue s)) \<noteq> []" using executes c at by (auto simp: writer_execute_def sys_at_def bq_peek_ok)
  moreover have "committed s' \<and> items (queue (sys_queue s')) = items (queue (sys_queue s))"
    using executes at' by (auto simp: writer_execute_def sys_at_def split: if_splits option.splits sum.splits)
  ultimately show ?thesis using c by (cases "items (queue (sys_queue s))") (simp_all add: remaining_def)
next
  case pops
  then have c: "committed s" by (auto simp: writer_pop_def split: if_splits)
  have q: "bq_ok (queue (sys_queue s))" "running s" using at by (simp_all add: sys_at_def)
  obtain x xs where x: "items (queue (sys_queue s)) = x # xs"
    using pops c q bq_pop_ok(1) [OF q(1)] by (cases "items (queue (sys_queue s))") (auto simp: writer_pop_def)
  from bq_pop_ok(2) [OF q(1) x] have "\<not> committed s' \<and> items (queue (sys_queue s')) = xs"
    using pops c q by (auto simp: writer_pop_def)
  then show ?thesis using c x by (simp add: remaining_def)
qed

lemma queue_run_capacity: "queue_run env s0 rs s \<Longrightarrow> bq_ok (queue (sys_queue s0)) \<Longrightarrow>
   bq_ok (queue (sys_queue s)) \<and> capacity (queue (sys_queue s)) = capacity (queue (sys_queue s0))"
proof (induction rule: queue_run.induct)
  case (push_begun rs s req r s')
  then show ?case
    using check_err_cases [of "sys_queue s"] by (auto simp: push_begin_def split: if_splits)
next
  case (push_ended rs s req s')
  obtain bq where bq: "bq_push req (queue (sys_queue s)) = Some bq"
      "s' = s\<lparr>sys_queue := (sys_queue s)\<lparr>queue := bq\<rparr>, caller := None\<rparr>"
    using push_ended.hyps(2,3) by (auto simp: push_end_def split: option.splits)
  from push_ended bq_push_ok [OF _ bq(1)] show ?case by (auto simp: bq(2))
next
  case (flushed rs s r s')
  then show ?case using check_err_cases [of "sys_queue s"] by (auto simp: queue_flush_def split: option.splits)
next
  case (writes rs s s')
  then have ok: "bq_ok (queue (sys_queue s))" "capacity (queue (sys_queue s)) = capacity (queue (sys_queue s0))" by auto
  from writes.hyps(2) show ?case
  proof cases
    case (executes av)
    then show ?thesis
      using ok bq_clear_ok [OF ok(1)]
      by (auto simp: writer_execute_def record_err_def split: if_splits option.splits sum.splits)
  next
    case pops
    then show ?thesis
      using ok bq_pop_ok [OF ok(1)]
      by (cases "items (queue (sys_queue s))") (auto simp: writer_pop_def split: if_splits option.splits sum.splits)
  qed
qed simp

text \<open>
  C33: The background writer never gets stuck. While requests are queued that can be executed, it can
  make a step whenever the database is available at some attempt, and every step brings the queue
  closer to being empty; once it is empty, waiting for it returns without an error and the store is
  the result of executing all accepted requests.
\<close>

theorem flush_completes:
  assumes "sync_ok env st0 head" and "queue_run env (sys_start n st0) rs s" and "requests_valid env rs st0"
    and "0 < n" and "n < 2 ^ 32" and "av k"
  shows "if items (queue (sys_queue s)) = []
    then queue_flush s = Some (Inr (), s) \<and> execute_all env rs st0 = Inr (sys_store s)
    else (writer_execute env av s \<noteq> None \<or> writer_pop s \<noteq> None) \<and> (\<forall>s'. writer_step env s s' \<longrightarrow> remaining s' < remaining s)"
proof -
  have v: "ds.valid env rs st0" using assms(3) by (simp add: requests_valid_iff)
  obtain j where j: "sys_at env st0 rs s j" using sys_at_run [OF assms(2,1) v] by blast
  show ?thesis
  proof (cases "items (queue (sys_queue s)) = []")
    case True
    have "capacity (queue (sys_queue s)) = n" using queue_run_capacity [OF assms(2)] by (simp add: sys_start_def queue_start_def)
    then have "bq_wait_empty (queue (sys_queue s)) = Some ()"
      using bq_wait_empty_ok [of "queue (sys_queue s)"] j assms(4,5) True by (simp add: sys_at_def)
    then have "queue_flush s = Some (Inr (), s)" using j by (simp add: queue_flush_def check_err_def sys_at_def)
    moreover have "\<not> committed s \<and> length rs \<le> j"
      using j True by (auto simp: sys_at_def front_def split: if_splits)
    then have "execute_all env rs st0 = Inr (sys_store s)" using j by (simp add: sys_at_def execute_all_def)
    ultimately show ?thesis using True by simp
  next
    case False
    obtain s1 where "writer_execute env av s = Some s1 \<or> writer_pop s = Some s1"
      using writer_progress [where av = av and k = k, OF j assms(1) v False assms(6)] by blast
    moreover have "remaining s' < remaining s" if step: "writer_step env s s'" for s'
    proof -
      obtain j' where "sys_at env st0 rs s' j'" using sys_at_steps [OF r_into_rtranclp [of "writer_step env", OF step] j assms(1) v] by blast
      from remaining_decreases [OF j this step] show ?thesis .
    qed
    ultimately show ?thesis using False by auto
  qed
qed

theorem flush_completes_witness:
  "\<exists>s'. writer_step ex_env ex_queued s' \<and> remaining s' < 4"
proof -
  have "items (queue (sys_queue ex_queued)) \<noteq> []" "remaining ex_queued = 4"
    by (simp_all add: ex_queued_def ex_requests_def remaining_def sys_start_def)
  then have c: "writer_execute ex_env (\<lambda>k. k = 2) ex_queued \<noteq> None \<or> writer_pop ex_queued \<noteq> None"
      "\<forall>s'. writer_step ex_env ex_queued s' \<longrightarrow> remaining s' < 4"
    using flush_completes [where av = "\<lambda>k. k = 2" and k = 2, OF ex_sync_ok ex_run ex_requests_valid] by simp_all
  from c(1) obtain s' where "writer_step ex_env ex_queued s'" using executes pops by fast
  with c(2) show ?thesis by blast
qed

lemma stopped_queue_grows:
  assumes "queue_run env s rs s'" and "\<not> running s" and "bq_ok (queue (sys_queue s))"
  shows "\<not> running s' \<and> bq_ok (queue (sys_queue s')) \<and> (\<exists>more. items (queue (sys_queue s')) = items (queue (sys_queue s)) @ more)"
  using assms(1)
proof (induction rule: queue_run.induct)
  case started
  then show ?case using assms(2,3) by simp
next
  case (push_begun rs s1 req r s2)
  then show ?case using check_err_cases [of "sys_queue s1"] by (auto simp: push_begin_def split: if_splits)
next
  case (push_ended rs s1 req s2)
  obtain bq where bq: "bq_push req (queue (sys_queue s1)) = Some bq"
      "s2 = s1\<lparr>sys_queue := (sys_queue s1)\<lparr>queue := bq\<rparr>, caller := None\<rparr>"
    using push_ended.hyps(2,3) by (auto simp: push_end_def split: option.splits)
  from push_ended.IH bq_push_ok [OF _ bq(1)] show ?case by (auto simp: bq(2))
next
  case (flushed rs s1 r s2)
  then show ?case using check_err_cases [of "sys_queue s1"] by (auto simp: queue_flush_def split: option.splits)
next
  case (writes rs s1 s2)
  then have "\<not> writer_step env s1 s2" by (auto simp: writer_execute_def writer_pop_def elim!: writer_step.cases)
  with writes.hyps(2) show ?case by blast
qed

text \<open>
  C34: A push that passed its check for errors before the background writer failed adds its request
  after the writer has cleared the queue and stopped. Nothing ever removes the request: whatever
  happens afterwards, waiting for the queue to be empty never returns.
\<close>

theorem flush_never_returns:
  assumes "queue_run env (sys_start n st0) rs s" and "0 < n" and "n < 2 ^ 32" and "\<not> running s" and "items (queue (sys_queue s)) \<noteq> []"
    and "queue_run env s rs' s'"
  shows "queue_flush s' = None"
proof -
  have ok: "bq_ok (queue (sys_queue s))" and cap: "capacity (queue (sys_queue s)) = n"
    using queue_run_capacity [OF assms(1)] by (simp_all add: sys_start_def queue_start_def)
  obtain more where s': "bq_ok (queue (sys_queue s'))" "items (queue (sys_queue s')) = items (queue (sys_queue s)) @ more"
    using stopped_queue_grows [OF assms(6,4) ok] by blast
  moreover have "capacity (queue (sys_queue s')) = n" using queue_run_capacity [OF assms(6) ok] cap by simp
  ultimately have "bq_wait_empty (queue (sys_queue s')) \<noteq> Some ()"
    using bq_wait_empty_ok [of "queue (sys_queue s')"] assms(2,3,5) by simp
  then show ?thesis by (cases "bq_wait_empty (queue (sys_queue s'))") (simp_all add: queue_flush_def)
qed

text \<open>
  The example: the queue has one place, which a block takes that was processed before. The push of
  block 4 passes its check and waits; then the writer fails.
\<close>

definition ex_old :: Request where
  "ex_old = Write (ex_ptr 3) None [] [] []"

definition ex_new :: Request where
  "ex_new = Write (ex_ptr 4) None [] [] []"

definition ex_full :: writer_sys where
  "ex_full = (sys_start 1 ex_sync)\<lparr>sys_queue := \<lparr>queue = \<lparr>capacity = 1, items = [ex_old], push_permits = 0, pop_permits = 1\<rparr>,
     write_err = None, poisoned = False\<rparr>, caller := Some ex_new\<rparr>"

definition ex_failed_queue :: writer_sys where
  "ex_failed_queue = (sys_start 1 ex_sync)\<lparr>sys_queue := \<lparr>queue = \<lparr>capacity = 1, items = [ex_new], push_permits = 0, pop_permits = 1\<rparr>,
     write_err = Some (DuplicateBlockProcessing ''Qm'' 3), poisoned = True\<rparr>, running := False\<rparr>"

lemma ex_old_fails: "request_execute ex_env (\<lambda>_. True) ex_old ex_sync = Some (Inl (DuplicateBlockProcessing ''Qm'' 3))"
proof -
  have row: "site_row (meta ex_store) ex_site ex_deployment" by (rule store_ok_parts(2) [OF ex_store_ok])
  have bp: "block_ptr (meta ex_store) (s_deployment ex_site) = Inr (Some (ex_ptr 3))"
    using block_ptr_row [OF row, of 3 "ex_hash 3"] by (simp add: ex_deployment_def ex_ptr_def)
  have "\<not> is_behind ex_deployment (ptr_number (ex_ptr 3))" by (simp add: is_behind_def ex_deployment_def)
  from transact_block_duplicate [OF row this bp]
  have "transact_block ex_site (ex_ptr 3) cursor full count (meta ex_store) = Inl (DuplicateBlockProcessing ''Qm'' 3)" for cursor full count
    by (simp add: ex_deployment_def)
  then have "transact_once ex_env (ex_ptr 3) None [] [] [] ex_sync = Inl (DuplicateBlockProcessing ''Qm'' 3)"
    by (simp add: transact_once_def transact_block_operations_def apply_entity_modifications_def group_modifications_def dds_insert_def Let_def)
  then show ?thesis
    using sync_retry_available [of "\<lambda>_. True" 0 "Inl (DuplicateBlockProcessing ''Qm'' 3)"]
    by (simp add: ex_old_def sync_transact_block_operations_def same_subgraph_def)
qed

lemma ex_race: "queue_run ex_env (sys_start 1 ex_sync) [ex_old, ex_new] ex_failed_queue"
proof -
  let ?s = "sys_start 1 ex_sync"
  define q1 where "q1 = ?s\<lparr>sys_queue := \<lparr>queue = \<lparr>capacity = 1, items = [ex_old], push_permits = 0, pop_permits = 1\<rparr>, write_err = None, poisoned = False\<rparr>\<rparr>"
  define q2 where "q2 = ?s\<lparr>sys_queue := \<lparr>queue = \<lparr>capacity = 1, items = [], push_permits = 1, pop_permits = 0\<rparr>,
     write_err = Some (DuplicateBlockProcessing ''Qm'' 3), poisoned = True\<rparr>, running := False, caller := Some ex_new\<rparr>"
  have 0: "queue_run ex_env ?s [] (?s\<lparr>caller := Some ex_old\<rparr>)"
    by (rule push_begun [OF started, where req = ex_old and r = "Inr ()"])
      (simp add: push_begin_def check_err_def sys_start_def queue_start_def)
  have 1: "queue_run ex_env ?s ([] @ [ex_old]) q1"
    by (rule push_ended [OF 0]) (simp_all add: push_end_def bq_push_def sys_start_def queue_start_def bq_with_capacity_def q1_def)
  have 2: "queue_run ex_env ?s ([] @ [ex_old]) ex_full"
    by (rule push_begun [OF 1, where req = ex_new and r = "Inr ()"])
      (simp add: push_begin_def check_err_def sys_start_def q1_def ex_full_def)
  have clear: "bq_clear \<lparr>capacity = 1, items = [ex_old], push_permits = 0, pop_permits = 1\<rparr> =
      Inr \<lparr>capacity = 1, items = [], push_permits = 1, pop_permits = 0\<rparr>"
    by (simp add: bq_clear.simps bq_try_pop_def bq_pop_def)
  have "writer_execute ex_env (\<lambda>_. True) ex_full = Some q2"
    using ex_old_fails clear
    by (simp add: writer_execute_def ex_full_def q2_def bq_peek_def record_err_def writer_error_def sys_start_def)
  then have 3: "queue_run ex_env ?s ([] @ [ex_old]) q2" by (intro writes [OF 2] executes)
  have "queue_run ex_env ?s (([] @ [ex_old]) @ [ex_new]) ex_failed_queue"
    by (rule push_ended [OF 3]) (simp_all add: push_end_def bq_push_def q2_def ex_failed_queue_def sys_start_def)
  then show ?thesis by simp
qed

theorem flush_never_returns_witness:
  "queue_run ex_env (sys_start 1 ex_sync) [ex_old, ex_new] ex_failed_queue \<and> queue_flush ex_failed_queue = None"
proof -
  have "\<not> running ex_failed_queue" "items (queue (sys_queue ex_failed_queue)) \<noteq> []"
    by (simp_all add: ex_failed_queue_def)
  from flush_never_returns [OF ex_race _ _ this started] ex_race show ?thesis by simp
qed

end
