(* ===== verification/Gas.thy ===== *)
theory Gas
  imports Values
begin

text \<open>
  Gas (\<^verbatim>\<open>graph/src/runtime/gas\<close>): what a handler of a mapping is charged for host functions. Gas is a
  \<open>u64\<close> whose operations saturate; sizes of \<open>usize\<close> have 64 bits. The number of bits of a big integer, which
  a library computes, is the argument \<open>bits\<close>.
\<close>

section \<open>Operators\<close>

type_synonym gas = "64 word"

definition gas_add :: "gas \<Rightarrow> gas \<Rightarrow> gas" where
  "gas_add a b = saturating_add a b"

definition gas_mul :: "gas \<Rightarrow> 64 word \<Rightarrow> gas" where
  "gas_mul a n = saturating_mul a n"

text \<open>\<open>MulAssign\<close>, as it is implemented.\<close>

definition gas_mul_assign :: "gas \<Rightarrow> 64 word \<Rightarrow> gas" where
  "gas_mul_assign a n = saturating_add a n"

definition gas_add_assign :: "gas \<Rightarrow> gas \<Rightarrow> gas" where
  "gas_add_assign a b = saturating_add a b"

definition gas_sum :: "gas list \<Rightarrow> gas" where
  "gas_sum xs = fold (\<lambda>x s. gas_add_assign s x) xs 0"

text \<open>A length as gas: \<open>usize\<close> fits into \<open>u64\<close>.\<close>

definition saturating_from_usize :: "nat \<Rightarrow> gas" where
  "saturating_from_usize n = (if n < 2 ^ 64 then of_nat n else - 1)"

fun saturating_pow :: "gas \<Rightarrow> nat \<Rightarrow> gas" where
  "saturating_pow a 0 = 1"
| "saturating_pow a (Suc n) = saturating_mul (saturating_pow a n) a"

section \<open>Combinators\<close>

datatype complexity = Linear | Mul | Min | Max

fun combine :: "complexity \<Rightarrow> gas \<Rightarrow> gas \<Rightarrow> gas" where
  "combine Linear lhs rhs = gas_add lhs rhs"
| "combine Mul lhs rhs = saturating_mul lhs rhs"
| "combine Min lhs rhs = min lhs rhs"
| "combine Max lhs rhs = max lhs rhs"

definition combine3 :: "complexity \<Rightarrow> gas \<Rightarrow> gas \<Rightarrow> gas \<Rightarrow> gas" where
  "combine3 c a b d = combine c (combine c a b) d"

definition combine_exponential :: "gas \<Rightarrow> u8 \<Rightarrow> gas" where
  "combine_exponential a b = saturating_pow a (unat b)"

section \<open>Sizes\<close>

definition string_gas_size :: "string \<Rightarrow> gas" where
  "string_gas_size s = saturating_from_usize (length s)"

definition big_int_gas_size :: "(int \<Rightarrow> nat) \<Rightarrow> int \<Rightarrow> gas" where
  "big_int_gas_size bits n = saturating_from_usize (bits n div 8 + 1)"

definition bytes_gas_size :: "u8 list \<Rightarrow> gas" where
  "bytes_gas_size bs = gas_mul 1 (saturating_from_usize (length bs))"

text \<open>A list has the overhead of a \<open>Vec\<close>; every value has an overhead of its own.\<close>

fun value_gas_size :: "(int \<Rightarrow> nat) \<Rightarrow> Value \<Rightarrow> gas" where
  "value_gas_size bits (V_BigDecimal (BigDecimal n _)) = gas_add 4 (big_int_gas_size bits n)"
| "value_gas_size bits (V_String s) = gas_add 4 (string_gas_size s)"
| "value_gas_size bits V_Null = gas_add 4 1"
| "value_gas_size bits (V_List vs) =
     gas_add 4 (gas_add (gas_add (gas_sum (map (value_gas_size bits) vs)) 16) (saturating_from_usize (length vs)))"
| "value_gas_size bits (V_Int _) = gas_add 4 4"
| "value_gas_size bits (V_Bytes bs) = gas_add 4 (bytes_gas_size bs)"
| "value_gas_size bits (V_Bool _) = gas_add 4 1"
| "value_gas_size bits (V_BigInt n) = gas_add 4 (big_int_gas_size bits n)"

definition option_gas_size :: "('a \<Rightarrow> gas) \<Rightarrow> 'a option \<Rightarrow> gas" where
  "option_gas_size f x = (case x of Some v \<Rightarrow> gas_add 1 (f v) | None \<Rightarrow> 1)"

text \<open>A map from strings to values; neither keys nor values have a constant size.\<close>

definition entity_gas_size :: "(int \<Rightarrow> nat) \<Rightarrow> Entity \<Rightarrow> gas" where
  "entity_gas_size bits e =
     gas_add (gas_add (gas_sum (map (\<lambda>(k, v). gas_add (string_gas_size k) (value_gas_size bits v)) e)) 32)
       (gas_mul 8 (saturating_from_usize (length e)))"

definition key_gas_size :: "EntityKey \<Rightarrow> gas" where
  "key_gas_size key =
     gas_add (gas_add (string_gas_size (subgraph_id key)) (string_gas_size (entity_type key))) (string_gas_size (entity_id key))"

section \<open>Costs\<close>

record GasOp =
  base_cost :: "64 word"
  size_mult :: "64 word"

definition with_args :: "GasOp \<Rightarrow> gas \<Rightarrow> gas" where
  "with_args op sz = gas_add (base_cost op) (gas_mul sz (size_mult op))"

definition GAS_PER_SECOND :: "64 word" where
  "GAS_PER_SECOND = 10000000000"

definition CONST_MAX_GAS_PER_HANDLER :: "64 word" where
  "CONST_MAX_GAS_PER_HANDLER = 1000 * GAS_PER_SECOND"

definition HOST_EXPORT_GAS :: gas where
  "HOST_EXPORT_GAS = 10000"

definition DEFAULT_GAS_PER_BYTE :: "64 word" where
  "DEFAULT_GAS_PER_BYTE = GAS_PER_SECOND div 10000000"

definition DEFAULT_BASE_COST :: "64 word" where
  "DEFAULT_BASE_COST = 100000"

definition DEFAULT_GAS_OP :: GasOp where
  "DEFAULT_GAS_OP = \<lparr>base_cost = DEFAULT_BASE_COST, size_mult = DEFAULT_GAS_PER_BYTE\<rparr>"

definition BIG_MATH_GAS_PER_BYTE :: "64 word" where
  "BIG_MATH_GAS_PER_BYTE = GAS_PER_SECOND div 100000000"

definition BIG_MATH_GAS_OP :: GasOp where
  "BIG_MATH_GAS_OP = \<lparr>base_cost = DEFAULT_BASE_COST, size_mult = BIG_MATH_GAS_PER_BYTE\<rparr>"

definition CREATE_DATA_SOURCE :: gas where
  "CREATE_DATA_SOURCE = CONST_MAX_GAS_PER_HANDLER div 100000"

definition LOG_OP :: GasOp where
  "LOG_OP = \<lparr>base_cost = CONST_MAX_GAS_PER_HANDLER div 100000, size_mult = DEFAULT_GAS_PER_BYTE\<rparr>"

definition STORE_SET :: GasOp where
  "STORE_SET = \<lparr>base_cost = CONST_MAX_GAS_PER_HANDLER div 250000, size_mult = CONST_MAX_GAS_PER_HANDLER div 1000000000\<rparr>"

definition STORE_GET :: GasOp where
  "STORE_GET = \<lparr>base_cost = CONST_MAX_GAS_PER_HANDLER div 10000000, size_mult = CONST_MAX_GAS_PER_HANDLER div 10000000000\<rparr>"

definition STORE_REMOVE :: GasOp where
  "STORE_REMOVE = STORE_SET"

section \<open>The counter\<close>

text \<open>The counter of a handler; an error carries the gas that was used.\<close>

definition consume_host_fn :: "64 word \<Rightarrow> gas \<Rightarrow> gas \<Rightarrow> (gas, unit) result \<times> gas" where
  "consume_host_fn max_gas_per_handler amount counter =
     (let amount1 = gas_add_assign amount HOST_EXPORT_GAS;
          new = saturating_add counter amount1
      in (if max_gas_per_handler \<le> new then Inl new else Inr (), new))"

text \<open>A handler makes calls until one of them fails.\<close>

fun run_calls :: "64 word \<Rightarrow> gas list \<Rightarrow> gas \<Rightarrow> (gas, unit) result \<times> gas" where
  "run_calls limit [] counter = (Inr (), counter)"
| "run_calls limit (amount # amounts) counter =
     (case consume_host_fn limit amount counter of
        (Inl e, c) \<Rightarrow> (Inl e, c)
      | (Inr _, c) \<Rightarrow> run_calls limit amounts c)"

definition charged :: "gas list \<Rightarrow> nat" where
  "charged amounts = (\<Sum>a \<leftarrow> amounts. unat a + 10000)"

lemma charged_simps [simp]: "charged [] = 0" "charged (a # as) = unat a + 10000 + charged as"
    "charged (as @ bs) = charged as + charged bs"
  by (simp_all add: charged_def)

lemma unat_host_export: "unat HOST_EXPORT_GAS = 10000"
  by (simp add: HOST_EXPORT_GAS_def)

lemma consume_counter:
  "unat (snd (consume_host_fn limit amount counter)) = min (unat counter + unat amount + 10000) (2 ^ 64 - 1)"
  using unat_host_export
  by (simp add: consume_host_fn_def Let_def gas_add_assign_def sat_simps min_def)

lemma consume_result:
  "fst (consume_host_fn limit amount counter) = (if unat limit \<le> unat (snd (consume_host_fn limit amount counter))
     then Inl (snd (consume_host_fn limit amount counter)) else Inr ())"
  by (simp add: consume_host_fn_def Let_def word_le_nat_alt)

lemma run_calls_ok:
  assumes "unat limit \<le> 2 ^ 64 - 1" and "unat counter < unat limit"
  shows "fst (run_calls limit amounts counter) = Inr () \<longleftrightarrow> unat counter + charged amounts < unat limit"
    and "unat counter + charged amounts < unat limit \<Longrightarrow> unat (snd (run_calls limit amounts counter)) = unat counter + charged amounts"
proof -
  have "(fst (run_calls limit amounts counter) = Inr () \<longleftrightarrow> unat counter + charged amounts < unat limit) \<and>
    (unat counter + charged amounts < unat limit \<longrightarrow> unat (snd (run_calls limit amounts counter)) = unat counter + charged amounts)"
    using assms(2)
  proof (induction amounts arbitrary: counter)
    case (Cons a as)
    let ?c = "consume_host_fn limit a counter"
    have c: "unat (snd ?c) = min (unat counter + unat a + 10000) (2 ^ 64 - 1)" by (rule consume_counter)
    obtain r c' where rc: "?c = (r, c')" by (cases ?c)
    show ?case
    proof (cases "unat limit \<le> unat c'")
      case True
      then have "r = Inl c'" using consume_result [of limit a counter] rc by simp
      moreover have "\<not> unat counter + charged (a # as) < unat limit" using True c rc by simp
      ultimately show ?thesis using rc by simp
    next
      case False
      then have r: "r = Inr ()" using consume_result [of limit a counter] rc by simp
      have "unat c' = unat counter + unat a + 10000" using False c rc assms(1) by (simp add: min_def split: if_splits)
      moreover have "unat c' < unat limit" using False by simp
      ultimately show ?thesis using Cons.IH [of c'] rc r by (simp add: add.assoc)
    qed
  qed simp
  then show "fst (run_calls limit amounts counter) = Inr () \<longleftrightarrow> unat counter + charged amounts < unat limit"
    and "unat counter + charged amounts < unat limit \<Longrightarrow> unat (snd (run_calls limit amounts counter)) = unat counter + charged amounts"
    by blast+
qed

text \<open>
  The gas limit is exact and cannot be evaded by overflow. The calls of a handler all succeed
  exactly when what they are charged, the amounts and the fixed cost of each call summed without any
  rounding, stays below the limit; so a handler makes fewer than a ten thousandth of the limit in
  calls.
\<close>

theorem gas_limit_exact:
  assumes "0 < limit"
  shows "(fst (run_calls limit amounts 0) = Inr () \<longleftrightarrow> (\<Sum>a \<leftarrow> amounts. unat a + 10000) < unat limit) \<and>
    (fst (run_calls limit amounts 0) = Inr () \<longrightarrow> length amounts * 10000 < unat limit)"
proof -
  have "unat limit \<le> 2 ^ 64 - 1" using unat_le_max [of limit] by simp
  moreover have "unat (0 :: gas) < unat limit" using assms by (simp add: word_less_nat_alt)
  ultimately have iff: "fst (run_calls limit amounts 0) = Inr () \<longleftrightarrow> charged amounts < unat limit"
    using run_calls_ok(1) [of limit 0 amounts] by simp
  have "length amounts * 10000 \<le> charged amounts" by (induction amounts) simp_all
  with iff show ?thesis unfolding charged_def by auto
qed

theorem gas_limit_exact_witness:
  "fst (run_calls 30000 [5000, 4999] 0) = Inr () \<and> fst (run_calls 30000 [5000, 5000] 0) \<noteq> Inr ()"
proof -
  have l: "(0 :: gas) < 30000" by simp
  show ?thesis using gas_limit_exact [OF l, of "[5000, 4999]"] gas_limit_exact [OF l, of "[5000, 5000]"] by simp
qed

text \<open>
  Multiplying gas in place adds: the operator computes the saturating sum, not the saturating product.
\<close>

theorem gas_mul_assign_adds:
  "unat (gas_mul_assign a n) = min (unat a + unat n) (2 ^ 64 - 1) \<and> unat (gas_mul a n) = min (unat a * unat n) (2 ^ 64 - 1) \<and>
   gas_mul_assign 3 2 = 5 \<and> gas_mul 3 2 = 6"
  by (simp add: gas_mul_assign_def gas_mul_def sat_simps) (simp add: saturating_add_def saturating_mul_def)

end
