(* ===== verification/Block_State.thy ===== *)
theory Block_State
  imports Deployment Entity_Cache
begin

text \<open>
  The state of the block that is being processed (\<^verbatim>\<open>graph/src/components/subgraph/instance.rs\<close>): the
  entity cache, the deterministic errors and the data sources that handlers created. The
  assertions of the code are results: \<open>Inl AssertFailed\<close> is a panic.
\<close>

record 't DataSourceTemplateInfo =
  template :: 't
  ti_params :: "string list"
  ti_context :: "Entity option"
  creation_block :: int

record ('q, 'd, 't) BlockState =
  entity_cache :: "('q, 'd) EntityCache"
  deterministic_errors :: "SubgraphError list"
  created_data_sources :: "'t DataSourceTemplateInfo list"
  handler_created_data_sources :: "'t DataSourceTemplateInfo list"
  bs_in_handler :: bool

definition bs_new :: "'q LfuCache \<Rightarrow> ('q, 'd, 't) BlockState" where
  "bs_new lfu =
     \<lparr>entity_cache = with_current lfu, deterministic_errors = [], created_data_sources = [],
      handler_created_data_sources = [], bs_in_handler = False\<rparr>"

definition bs_extend ::
  "('e, 'q) cache_env \<Rightarrow> ('q, 'd, 't) BlockState \<Rightarrow> ('q, 'd, 't) BlockState \<Rightarrow>
   (cache_panic, ('q, 'd, 't) BlockState) result" where
  "bs_extend env other s =
     (if bs_in_handler other then Inl AssertFailed
      else
        (let s1 = (if bs_in_handler s
                   then s\<lparr>handler_created_data_sources := handler_created_data_sources s @ created_data_sources other\<rparr>
                   else s\<lparr>created_data_sources := created_data_sources s @ created_data_sources other\<rparr>)
         in and_then (cache_extend env (entity_cache other) (entity_cache s)) (\<lambda>c.
              Inr (s1\<lparr>deterministic_errors := deterministic_errors s @ deterministic_errors other, entity_cache := c\<rparr>))))"

definition has_errors :: "('q, 'd, 't) BlockState \<Rightarrow> bool" where
  "has_errors s \<longleftrightarrow> deterministic_errors s \<noteq> []"

definition has_created_data_sources :: "('q, 'd, 't) BlockState \<Rightarrow> (cache_panic, bool) result" where
  "has_created_data_sources s = (if bs_in_handler s then Inl AssertFailed else Inr (created_data_sources s \<noteq> []))"

definition drain_created_data_sources ::
  "('q, 'd, 't) BlockState \<Rightarrow> (cache_panic, 't DataSourceTemplateInfo list \<times> ('q, 'd, 't) BlockState) result" where
  "drain_created_data_sources s =
     (if bs_in_handler s then Inl AssertFailed
      else Inr (created_data_sources s, s\<lparr>created_data_sources := []\<rparr>))"

definition bs_enter_handler :: "('q, 'd, 't) BlockState \<Rightarrow> (cache_panic, ('q, 'd, 't) BlockState) result" where
  "bs_enter_handler s =
     (if bs_in_handler s then Inl AssertFailed
      else and_then (enter_handler (entity_cache s)) (\<lambda>c. Inr (s\<lparr>bs_in_handler := True, entity_cache := c\<rparr>)))"

definition bs_exit_handler :: "('q, 'd, 't) BlockState \<Rightarrow> (cache_panic, ('q, 'd, 't) BlockState) result" where
  "bs_exit_handler s =
     (if \<not> bs_in_handler s then Inl AssertFailed
      else and_then (exit_handler (entity_cache s)) (\<lambda>c.
        Inr (s\<lparr>bs_in_handler := False,
               created_data_sources := created_data_sources s @ handler_created_data_sources s,
               handler_created_data_sources := [], entity_cache := c\<rparr>)))"

definition bs_exit_handler_and_discard_changes_due_to_error ::
  "SubgraphError \<Rightarrow> ('q, 'd, 't) BlockState \<Rightarrow> (cache_panic, ('q, 'd, 't) BlockState) result" where
  "bs_exit_handler_and_discard_changes_due_to_error e s =
     (if \<not> bs_in_handler s then Inl AssertFailed
      else and_then (exit_handler_and_discard_changes (entity_cache s)) (\<lambda>c.
        Inr (s\<lparr>bs_in_handler := False, handler_created_data_sources := [], entity_cache := c,
               deterministic_errors := deterministic_errors s @ [e]\<rparr>)))"

definition push_created_data_source ::
  "'t DataSourceTemplateInfo \<Rightarrow> ('q, 'd, 't) BlockState \<Rightarrow> (cache_panic, ('q, 'd, 't) BlockState) result" where
  "push_created_data_source ds s =
     (if \<not> bs_in_handler s then Inl AssertFailed
      else Inr (s\<lparr>handler_created_data_sources := handler_created_data_sources s @ [ds]\<rparr>))"

section \<open>Well-formed block states\<close>

text \<open>The flags of the state and of its cache agree, and between handlers nothing is pending.\<close>

definition bs_ok ::
  "('q \<Rightarrow> EntityKey \<Rightarrow> ((EntityKey, Entity option) CacheEntry \<times> Priority) option) \<Rightarrow>
   (EntityKey \<Rightarrow> Entity option) \<Rightarrow> ('q, 'd, 't) BlockState \<Rightarrow> bool" where
  "bs_ok items S s \<longleftrightarrow>
     cache_ok items S (entity_cache s) \<and> in_handler (entity_cache s) = bs_in_handler s \<and>
     (\<not> bs_in_handler s \<longrightarrow> handler_created_data_sources s = [])"

lemma bs_new_ok: "coherent items S lfu \<Longrightarrow> bs_ok items S (bs_new lfu)"
  by (simp add: bs_ok_def bs_new_def with_current_def cache_ok_def)

lemma bs_enter_handler_ok:
  assumes "bs_ok items S s" and "\<not> bs_in_handler s"
  shows "bs_enter_handler s = Inr (s\<lparr>bs_in_handler := True, entity_cache := (entity_cache s)\<lparr>in_handler := True\<rparr>\<rparr>)"
    and "bs_ok items S (s\<lparr>bs_in_handler := True, entity_cache := (entity_cache s)\<lparr>in_handler := True\<rparr>\<rparr>)"
  using assms by (simp_all add: bs_enter_handler_def enter_handler_def bs_ok_def cache_ok_def)

end
