(* ===== verification/Proof_Of_Indexing.thy ===== *)
theory Proof_Of_Indexing
  imports Values
begin

text \<open>
  The proof of indexing (\<^verbatim>\<open>graph/src/components/subgraph/proof_of_indexing\<close>): while a block is
  processed, every change of an entity is added as an event to the digest of its causality region.
  The hash function is a library; \<open>stable_hash\<close> collects what the code uses of it. A digest is
  computed while the events arrive, so the events themselves are not kept; the predicate
  \<open>records\<close> says which events a digest stands for.
\<close>

section \<open>Events\<close>

datatype ProofOfIndexingEvent =
    RemoveEntity string string
  | SetEntity string string Entity
  | DeterministicError "64 word"

text \<open>
  Sequence numbers, which identify a field in a structure, and the hasher. \<open>seq_next_child\<close> returns
  the child and the advanced sequence number.
\<close>

record ('s, 'h) stable_hash =
  seq_root :: 's
  seq_skip :: "nat \<Rightarrow> 's \<Rightarrow> 's"
  seq_next_child :: "'s \<Rightarrow> 's \<times> 's"
  hash_string :: "string \<Rightarrow> 's \<Rightarrow> 'h \<Rightarrow> 'h"
  hash_data :: "Entity \<Rightarrow> 's \<Rightarrow> 'h \<Rightarrow> 'h"
  hash_u64 :: "64 word \<Rightarrow> 's \<Rightarrow> 'h \<Rightarrow> 'h"
  hasher_new :: 'h
  hasher_to_bytes :: "'h \<Rightarrow> u8 list"
  hasher_from_bytes :: "u8 list \<Rightarrow> 'h"
  hasher_finish_unordered :: "'h \<Rightarrow> 's \<Rightarrow> 'h \<Rightarrow> 'h"

fun event_name :: "ProofOfIndexingEvent \<Rightarrow> string" where
  "event_name (RemoveEntity _ _) = ''RemoveEntity''"
| "event_name (SetEntity _ _ _) = ''SetEntity''"
| "event_name (DeterministicError _) = ''DeterministicError''"

definition event_stable_hash ::
  "('s, 'h) stable_hash \<Rightarrow> ProofOfIndexingEvent \<Rightarrow> 's \<Rightarrow> 'h \<Rightarrow> 'h" where
  "event_stable_hash lib event seq h =
     (let (c0, s0) = seq_next_child lib seq;
          h0 = hash_string lib (event_name event) c0 h
      in case event of
           RemoveEntity ty i \<Rightarrow>
             (let (c1, s1) = seq_next_child lib s0; h1 = hash_string lib ty c1 h0;
                  (c2, _) = seq_next_child lib s1
              in hash_string lib i c2 h1)
         | SetEntity ty i data \<Rightarrow>
             (let (c1, s1) = seq_next_child lib s0; h1 = hash_string lib ty c1 h0;
                  (c2, s2) = seq_next_child lib s1; h2 = hash_string lib i c2 h1;
                  (c3, _) = seq_next_child lib s2
              in hash_data lib data c3 h2)
         | DeterministicError n \<Rightarrow>
             (let (c1, _) = seq_next_child lib s0 in hash_u64 lib n c1 h0))"

section \<open>The events of a block\<close>

record ('s, 'h) BlockEventStream =
  vec_length :: "64 word"
  handler_start :: "64 word"
  seq_no :: 's
  digest :: 'h

definition traverse_seq_no :: "('s, 'h) stable_hash \<Rightarrow> nat list \<Rightarrow> 's" where
  "traverse_seq_no lib counts =
     fold (\<lambda>i s. fst (seq_next_child lib (seq_skip lib i s))) counts (seq_root lib)"

text \<open>The conversion of the block number to \<open>usize\<close> is unwrapped: \<open>None\<close> is a panic.\<close>

definition stream_new :: "('s, 'h) stable_hash \<Rightarrow> int \<Rightarrow> ('s, 'h) BlockEventStream option" where
  "stream_new lib block_number =
     (if block_number < 0 then None
      else Some \<lparr>vec_length = 0, handler_start = 0,
                 seq_no = traverse_seq_no lib [1, 0, nat block_number, 0], digest = hasher_new lib\<rparr>)"

definition stream_pause :: "('s, 'h) stable_hash \<Rightarrow> u8 list option \<Rightarrow> ('s, 'h) BlockEventStream \<Rightarrow> u8 list" where
  "stream_pause lib prev s =
     (let state = hash_u64 lib (vec_length s) (seq_no s) (digest s)
      in hasher_to_bytes lib
           (case prev of
              None \<Rightarrow> state
            | Some p \<Rightarrow> hasher_finish_unordered lib (hasher_from_bytes lib p) (seq_root lib) state))"

definition stream_write ::
  "('s, 'h) stable_hash \<Rightarrow> ProofOfIndexingEvent \<Rightarrow> ('s, 'h) BlockEventStream \<Rightarrow> ('s, 'h) BlockEventStream" where
  "stream_write lib event s =
     (let (c, seq) = seq_next_child lib (seq_no s)
      in s\<lparr>vec_length := vec_length s + 1, seq_no := seq, digest := event_stable_hash lib event c (digest s)\<rparr>)"

definition stream_start_handler :: "('s, 'h) BlockEventStream \<Rightarrow> ('s, 'h) BlockEventStream" where
  "stream_start_handler s = s\<lparr>handler_start := vec_length s\<rparr>"

record ('s, 'h) ProofOfIndexing =
  poi_block_number :: int
  per_causality_region :: "(string, ('s, 'h) BlockEventStream) hash_map"

definition poi_new :: "int \<Rightarrow> ('s, 'h) ProofOfIndexing" where
  "poi_new block_number = \<lparr>poi_block_number = block_number, per_causality_region = []\<rparr>"

definition with_causality_region ::
  "('s, 'h) stable_hash \<Rightarrow> string \<Rightarrow> (('s, 'h) BlockEventStream \<Rightarrow> 'a \<times> ('s, 'h) BlockEventStream) \<Rightarrow>
   ('s, 'h) ProofOfIndexing \<Rightarrow> ('a \<times> ('s, 'h) ProofOfIndexing) option" where
  "with_causality_region lib region f poi =
     (case hm_get (per_causality_region poi) region of
        Some entry \<Rightarrow>
          (let (r, e) = f entry
           in Some (r, poi\<lparr>per_causality_region := hm_insert region e (per_causality_region poi)\<rparr>))
      | None \<Rightarrow>
          (case stream_new lib (poi_block_number poi) of
             None \<Rightarrow> None
           | Some entry \<Rightarrow>
               (let (r, e) = f entry
                in Some (r, poi\<lparr>per_causality_region := hm_insert region e (per_causality_region poi)\<rparr>))))"

definition poi_write ::
  "('s, 'h) stable_hash \<Rightarrow> string \<Rightarrow> ProofOfIndexingEvent \<Rightarrow> ('s, 'h) ProofOfIndexing \<Rightarrow>
   ('s, 'h) ProofOfIndexing option" where
  "poi_write lib region event poi =
     map_option snd (with_causality_region lib region (\<lambda>entry. ((), stream_write lib event entry)) poi)"

definition poi_start_handler ::
  "('s, 'h) stable_hash \<Rightarrow> string \<Rightarrow> ('s, 'h) ProofOfIndexing \<Rightarrow> ('s, 'h) ProofOfIndexing option" where
  "poi_start_handler lib region poi =
     map_option snd (with_causality_region lib region (\<lambda>entry. ((), stream_start_handler entry)) poi)"

definition write_deterministic_error ::
  "('s, 'h) stable_hash \<Rightarrow> string \<Rightarrow> ('s, 'h) ProofOfIndexing \<Rightarrow> ('s, 'h) ProofOfIndexing option" where
  "write_deterministic_error lib region poi =
     (case with_causality_region lib region (\<lambda>entry. (vec_length entry - handler_start entry, entry)) poi of
        None \<Rightarrow> None
      | Some (redacted_events, poi1) \<Rightarrow> poi_write lib region (DeterministicError redacted_events) poi1)"

text \<open>The region of a network.\<close>

definition from_network :: "string \<Rightarrow> string" where
  "from_network network = ''ethereum/'' @ network"

section \<open>What a digest stands for\<close>

text \<open>
  \<open>records lib n poi region es hs\<close>: the digest of the region is that of the events \<open>es\<close>, and the
  current handler started after the first \<open>hs\<close> of them.
\<close>

definition stream_of :: "('s, 'h) stable_hash \<Rightarrow> int \<Rightarrow> ProofOfIndexingEvent list \<Rightarrow> nat \<Rightarrow> ('s, 'h) BlockEventStream" where
  "stream_of lib n es hs = (fold (stream_write lib) es (the (stream_new lib n)))\<lparr>handler_start := of_nat hs\<rparr>"

definition records ::
  "('s, 'h) stable_hash \<Rightarrow> int \<Rightarrow> ('s, 'h) ProofOfIndexing \<Rightarrow> string \<Rightarrow> ProofOfIndexingEvent list \<Rightarrow> nat \<Rightarrow> bool" where
  "records lib n poi region es hs \<longleftrightarrow>
     0 \<le> n \<and> poi_block_number poi = n \<and> hs \<le> length es \<and> hm_wf (per_causality_region poi) \<and>
     (case hm_get (per_causality_region poi) region of
        None \<Rightarrow> es = []
      | Some s \<Rightarrow> s = stream_of lib n es hs)"

text \<open>
  The events that count. An error redacts as many events before it as it says; the events of a
  stream keep their positions, so redacted ones are marked.
\<close>

fun mark :: "ProofOfIndexingEvent \<Rightarrow> ProofOfIndexingEvent option list \<Rightarrow> ProofOfIndexingEvent option list" where
  "mark (DeterministicError n) ms = take (length ms - unat n) ms @ replicate (min (unat n) (length ms)) None @ [None]"
| "mark e ms = ms @ [Some e]"

definition marks :: "ProofOfIndexingEvent list \<Rightarrow> ProofOfIndexingEvent option list" where
  "marks es = fold mark es []"

definition effective :: "ProofOfIndexingEvent list \<Rightarrow> ProofOfIndexingEvent list" where
  "effective es = List.map_filter (\<lambda>m. m) (marks es)"

fun is_change :: "ProofOfIndexingEvent \<Rightarrow> bool" where
  "is_change (DeterministicError _) = False"
| "is_change _ = True"

lemma stream_of_write:
  "stream_write lib e (stream_of lib n es hs) = stream_of lib n (es @ [e]) hs"
  by (simp add: stream_of_def stream_write_def split: prod.splits)

lemma vec_length_fold: "vec_length (fold (stream_write lib) es s) = vec_length s + of_nat (length es)"
  by (induction es arbitrary: s) (simp_all add: stream_write_def split: prod.splits)

lemma stream_of_fields [simp]:
  assumes "0 \<le> n"
  shows "vec_length (stream_of lib n es hs) = of_nat (length es)"
    and "handler_start (stream_of lib n es hs) = of_nat hs"
  using assms by (simp_all add: stream_of_def vec_length_fold stream_new_def)

lemma stream_of_start:
  "0 \<le> n \<Longrightarrow> stream_start_handler (stream_of lib n es hs) = stream_of lib n es (length es)"
  by (simp add: stream_start_handler_def) (simp add: stream_of_def)

lemma stream_of_Nil: "0 \<le> n \<Longrightarrow> stream_new lib n = Some (stream_of lib n [] 0)"
  by (simp add: stream_of_def stream_new_def)

lemma records_new [simp]: "0 \<le> n \<Longrightarrow> records lib n (poi_new n) region [] 0"
  by (simp add: records_def poi_new_def)

lemma with_causality_region_records:
  assumes "records lib n poi region es hs"
  obtains s where "s = stream_of lib n es hs"
    and "\<And>f. with_causality_region lib region f poi =
      Some (fst (f s), poi\<lparr>per_causality_region := hm_insert region (snd (f s)) (per_causality_region poi)\<rparr>)"
proof
  let ?s = "stream_of lib n es hs"
  show "?s = stream_of lib n es hs" by simp
  show "with_causality_region lib region f poi =
      Some (fst (f ?s), poi\<lparr>per_causality_region := hm_insert region (snd (f ?s)) (per_causality_region poi)\<rparr>)" for f
  proof (cases "hm_get (per_causality_region poi) region")
    case None
    then have "es = []" "hs = 0" "0 \<le> n" "poi_block_number poi = n" using assms by (auto simp: records_def)
    then have "stream_new lib (poi_block_number poi) = Some ?s" by (simp add: stream_of_Nil)
    then show ?thesis using None by (cases "f ?s") (simp add: with_causality_region_def)
  next
    case (Some s)
    then have "s = ?s" using assms by (simp add: records_def)
    then show ?thesis using Some by (cases "f ?s") (simp add: with_causality_region_def)
  qed
qed

lemma poi_write_records:
  assumes "records lib n poi region es hs"
  shows "\<exists>poi'. poi_write lib region e poi = Some poi' \<and> records lib n poi' region (es @ [e]) hs"
proof -
  obtain s where s: "s = stream_of lib n es hs"
    "\<And>f :: _ \<Rightarrow> unit \<times> _. with_causality_region lib region f poi =
      Some (fst (f s), poi\<lparr>per_causality_region := hm_insert region (snd (f s)) (per_causality_region poi)\<rparr>)"
    using with_causality_region_records [OF assms] by metis
  then show ?thesis
    using assms by (simp add: poi_write_def records_def stream_of_write)
qed

lemma poi_start_handler_records:
  assumes "records lib n poi region es hs"
  shows "\<exists>poi'. poi_start_handler lib region poi = Some poi' \<and> records lib n poi' region es (length es)"
proof -
  obtain s where s: "s = stream_of lib n es hs"
    "\<And>f :: _ \<Rightarrow> unit \<times> _. with_causality_region lib region f poi =
      Some (fst (f s), poi\<lparr>per_causality_region := hm_insert region (snd (f s)) (per_causality_region poi)\<rparr>)"
    using with_causality_region_records [OF assms] by metis
  then show ?thesis
    using assms by (simp add: poi_start_handler_def records_def stream_of_start)
qed

lemma write_deterministic_error_records:
  assumes "records lib n poi region es hs"
  shows "\<exists>poi'. write_deterministic_error lib region poi = Some poi' \<and>
    records lib n poi' region (es @ [DeterministicError (of_nat (length es - hs))]) hs"
proof -
  obtain s where s: "s = stream_of lib n es hs"
    "\<And>f :: _ \<Rightarrow> 64 word \<times> _. with_causality_region lib region f poi =
      Some (fst (f s), poi\<lparr>per_causality_region := hm_insert region (snd (f s)) (per_causality_region poi)\<rparr>)"
    using with_causality_region_records [OF assms] by metis
  let ?poi = "poi\<lparr>per_causality_region := hm_insert region s (per_causality_region poi)\<rparr>"
  have n: "0 \<le> n" "poi_block_number poi = n" "hs \<le> length es" "hm_wf (per_causality_region poi)" using assms by (auto simp: records_def)
  then have "records lib n ?poi region es hs" by (simp add: records_def s(1))
  moreover have "vec_length s - handler_start s = of_nat (length es - hs)"
    using n by (simp add: s(1) of_nat_diff)
  ultimately show ?thesis
    using poi_write_records [of lib n ?poi region es hs] by (simp add: write_deterministic_error_def s(2))
qed

lemma length_marks_fold: "length (fold mark es ms) = length ms + length es"
proof (induction es arbitrary: ms)
  case (Cons e es)
  then show ?case by (cases e) (auto simp: min_def)
qed simp

lemma length_marks [simp]: "length (marks es) = length es"
  by (simp add: marks_def length_marks_fold)

lemma fold_mark_changes: "list_all is_change cs \<Longrightarrow> fold mark cs ms = ms @ map Some cs"
proof (induction cs arbitrary: ms)
  case (Cons c cs)
  then show ?case by (cases c) simp_all
qed simp

lemma effective_Nil [simp]: "effective [] = []"
  by (simp add: effective_def marks_def map_filter_simps)

lemma map_filter_append: "List.map_filter f (xs @ ys) = List.map_filter f xs @ List.map_filter f ys"
  by (simp add: List.map_filter_def)

lemma map_filter_marked: "List.map_filter (\<lambda>m. m) (map Some cs) = cs" "List.map_filter (\<lambda>m. m) (replicate n None) = []"
  by (induction cs) (simp_all add: map_filter_simps List.map_filter_def)

lemma effective_changes:
  "list_all is_change cs \<Longrightarrow> effective (es @ cs) = effective es @ cs"
  by (simp add: effective_def marks_def fold_mark_changes map_filter_append map_filter_marked)

lemma effective_redacted:
  assumes "list_all is_change cs" and "length cs < 2 ^ 64"
  shows "effective (es @ cs @ [DeterministicError (of_nat (length cs))]) = effective es"
proof -
  have "unat (of_nat (length cs) :: 64 word) = length cs" using assms(2) by (simp add: unsigned_of_nat take_bit_nat_eq_self)
  then have "marks (es @ cs @ [DeterministicError (of_nat (length cs))]) = marks es @ replicate (length cs) None @ [None]"
    using assms(1) by (simp add: marks_def fold_mark_changes)
  then show ?thesis
    using map_filter_marked(2) [of "length cs"] map_filter_marked(2) [of 1]
    by (simp add: effective_def map_filter_append)
qed

end
