(* ===== verification/Host_Exports.thy ===== *)
theory Host_Exports
  imports Block_State Gas Proof_Of_Indexing
begin

text \<open>
  The functions that the host exports to mappings (\<^verbatim>\<open>runtime/wasm/src/host_exports.rs\<close>), and the
  errors they return (\<^verbatim>\<open>graph/src/runtime/mod.rs\<close>). A function takes the block state, the proof of
  indexing and the gas counter and returns them changed together with its result; \<open>None\<close> is a
  panic. The arithmetic of big integers is a library, apart from addition, subtraction and
  multiplication, which are those of the integers.
\<close>

section \<open>Errors\<close>

datatype abort_location =
    Unknown_location
  | In_file string
  | On_line string "32 word"
  | At_column string "32 word" "32 word"

text \<open>An \<open>anyhow\<close> error, by its cause.\<close>

datatype 'e failure =
    GasExceeded gas
  | CacheFailed "'e cache_error"
  | NoTemplate string
  | CriticalLog
  | Aborted abort_location "string option"
  | DividedByZero
  | HeapOutOfBounds
  | ChainFailed string

datatype 'e DeterministicHostError = DHE_Gas "'e failure" | DHE_Other "'e failure"

datatype 'e HostExportError =
    HEE_Unknown "'e failure"
  | HEE_PossibleReorg "'e failure"
  | HEE_Deterministic "'e failure"

fun dhe_inner :: "'e DeterministicHostError \<Rightarrow> 'e failure" where
  "dhe_inner (DHE_Gas e) = e"
| "dhe_inner (DHE_Other e) = e"

text \<open>The conversions that \<open>?\<close> performs.\<close>

definition host_error_from_anyhow :: "'e failure \<Rightarrow> 'e HostExportError" where
  "host_error_from_anyhow e = HEE_Unknown e"

fun host_error_from_deterministic :: "'e DeterministicHostError \<Rightarrow> 'e HostExportError" where
  "host_error_from_deterministic (DHE_Gas e) = HEE_Unknown e"
| "host_error_from_deterministic (DHE_Other e) = HEE_Deterministic e"

datatype DeterminismLevel = Level_Deterministic | Level_NonDeterministic | Level_PossibleReorg | Level_Unimplemented

fun determinism_level :: "'e HostExportError \<Rightarrow> DeterminismLevel" where
  "determinism_level (HEE_Deterministic _) = Level_Deterministic"
| "determinism_level (HEE_Unknown _) = Level_Unimplemented"
| "determinism_level (HEE_PossibleReorg _) = Level_PossibleReorg"

definition dhe_determinism_level :: "'e DeterministicHostError \<Rightarrow> DeterminismLevel" where
  "dhe_determinism_level e = Level_Deterministic"

section \<open>State\<close>

record big_num =
  bn_div :: "int \<Rightarrow> int \<Rightarrow> int"
  bn_rem :: "int \<Rightarrow> int \<Rightarrow> int"
  bn_or :: "int \<Rightarrow> int \<Rightarrow> int"
  bn_and :: "int \<Rightarrow> int \<Rightarrow> int"
  bn_shr :: "int \<Rightarrow> u8 \<Rightarrow> int"

text \<open>The store, the libraries and the configuration.\<close>

record ('e, 'q, 't, 's, 'h) runtime =
  rt_cache :: "('e, 'q) cache_env"
  rt_hash :: "('s, 'h) stable_hash"
  rt_bits :: "int \<Rightarrow> nat"
  rt_big :: big_num
  rt_max_gas :: "64 word"
  rt_template_name :: "'t \<Rightarrow> string"
  rt_message :: "'e failure \<Rightarrow> string"

record 't HostExports =
  he_subgraph_id :: string
  he_data_source_name :: string
  he_data_source_address :: "u8 list"
  he_data_source_network :: string
  he_data_source_context :: "Entity option"
  he_causality_region :: string
  he_templates :: "'t list"

text \<open>The part of a mapping context that changes, with the gas counter of the handler.\<close>

record ('q, 'd, 't, 's, 'h) host_ctx =
  hc_state :: "('q, 'd, 't) BlockState"
  hc_poi :: "('s, 'h) ProofOfIndexing option"
  hc_gas :: gas

definition he_new ::
  "string \<Rightarrow> string \<Rightarrow> u8 list option \<Rightarrow> Entity option \<Rightarrow> string \<Rightarrow> 't list \<Rightarrow> 't HostExports" where
  "he_new subgraph name address context network templates =
     \<lparr>he_subgraph_id = subgraph, he_data_source_name = name,
      he_data_source_address = (case address of None \<Rightarrow> [] | Some a \<Rightarrow> a),
      he_data_source_network = network, he_data_source_context = context,
      he_causality_region = from_network network, he_templates = templates\<rparr>"

text \<open>Consume gas, then continue with the given result.\<close>

definition charge ::
  "('e, 'q, 't, 's, 'h) runtime \<Rightarrow> gas \<Rightarrow> ('e DeterministicHostError, 'a) result \<Rightarrow> gas \<Rightarrow>
   ('e DeterministicHostError, 'a) result \<times> gas" where
  "charge rt amount r counter =
     (case consume_host_fn (rt_max_gas rt) amount counter of
        (Inl used, c) \<Rightarrow> (Inl (DHE_Gas (GasExceeded used)), c)
      | (Inr _, c) \<Rightarrow> (r, c))"

section \<open>Entities\<close>

definition write_poi_event ::
  "('e, 'q, 't, 's, 'h) runtime \<Rightarrow> ProofOfIndexingEvent \<Rightarrow> string \<Rightarrow> ('s, 'h) ProofOfIndexing option \<Rightarrow>
   ('s, 'h) ProofOfIndexing option option" where
  "write_poi_event rt event region poi =
     (case poi of None \<Rightarrow> Some None | Some p \<Rightarrow> map_option Some (poi_write (rt_hash rt) region event p))"

definition he_key :: "'t HostExports \<Rightarrow> string \<Rightarrow> string \<Rightarrow> EntityKey" where
  "he_key he ty i = \<lparr>subgraph_id = he_subgraph_id he, entity_type = ty, entity_id = i\<rparr>"

definition set_gas :: "('e, 'q, 't, 's, 'h) runtime \<Rightarrow> EntityKey \<Rightarrow> Entity \<Rightarrow> gas" where
  "set_gas rt key data = with_args STORE_SET (combine Linear (key_gas_size key) (entity_gas_size (rt_bits rt) data))"

definition store_set ::
  "('e, 'q, 't, 's, 'h) runtime \<Rightarrow> 't HostExports \<Rightarrow> string \<Rightarrow> string \<Rightarrow> Entity \<Rightarrow>
   ('q, 'd, 't, 's, 'h) host_ctx \<Rightarrow> (('e failure, unit) result \<times> ('q, 'd, 't, 's, 'h) host_ctx) option" where
  "store_set rt he ty i data ctx =
     (case write_poi_event rt (SetEntity ty i data) (he_causality_region he) (hc_poi ctx) of
        None \<Rightarrow> None
      | Some poi \<Rightarrow>
          (let key = he_key he ty i in
           case charge rt (set_gas rt key data) (Inr ()) (hc_gas ctx) of
             (Inl e, g) \<Rightarrow> Some (Inl (dhe_inner e), ctx\<lparr>hc_poi := poi, hc_gas := g\<rparr>)
           | (Inr _, g) \<Rightarrow>
               (case cache_set (rt_cache rt) key data (entity_cache (hc_state ctx)) of
                  (r, c) \<Rightarrow>
                    Some (case r of Inl e \<Rightarrow> Inl (CacheFailed e) | Inr _ \<Rightarrow> Inr (),
                          ctx\<lparr>hc_poi := poi, hc_gas := g, hc_state := (hc_state ctx)\<lparr>entity_cache := c\<rparr>\<rparr>))))"

definition store_remove ::
  "('e, 'q, 't, 's, 'h) runtime \<Rightarrow> 't HostExports \<Rightarrow> string \<Rightarrow> string \<Rightarrow>
   ('q, 'd, 't, 's, 'h) host_ctx \<Rightarrow> (('e HostExportError, unit) result \<times> ('q, 'd, 't, 's, 'h) host_ctx) option" where
  "store_remove rt he ty i ctx =
     (case write_poi_event rt (RemoveEntity ty i) (he_causality_region he) (hc_poi ctx) of
        None \<Rightarrow> None
      | Some poi \<Rightarrow>
          (let key = he_key he ty i in
           case charge rt (with_args STORE_REMOVE (key_gas_size key)) (Inr ()) (hc_gas ctx) of
             (Inl e, g) \<Rightarrow> Some (Inl (host_error_from_deterministic e), ctx\<lparr>hc_poi := poi, hc_gas := g\<rparr>)
           | (Inr _, g) \<Rightarrow>
               Some (Inr (), ctx\<lparr>hc_poi := poi, hc_gas := g,
                 hc_state := (hc_state ctx)\<lparr>entity_cache := cache_remove key (entity_cache (hc_state ctx))\<rparr>\<rparr>)))"

definition host_store_get ::
  "('e, 'q, 't, 's, 'h) runtime \<Rightarrow> 't HostExports \<Rightarrow> string \<Rightarrow> string \<Rightarrow>
   ('q, 'd, 't, 's, 'h) host_ctx \<Rightarrow> ('e failure, Entity option) result \<times> ('q, 'd, 't, 's, 'h) host_ctx" where
  "host_store_get rt he ty i ctx =
     (let key = he_key he ty i in
      case cache_get (rt_cache rt) key (entity_cache (hc_state ctx)) of
        (Inl e, c) \<Rightarrow> (Inl (CacheFailed e), ctx\<lparr>hc_state := (hc_state ctx)\<lparr>entity_cache := c\<rparr>\<rparr>)
      | (Inr entity, c) \<Rightarrow>
          (let ctx1 = ctx\<lparr>hc_state := (hc_state ctx)\<lparr>entity_cache := c\<rparr>\<rparr> in
           case charge rt (with_args STORE_GET (combine Linear (key_gas_size key)
                  (option_gas_size (entity_gas_size (rt_bits rt)) entity))) (Inr entity) (hc_gas ctx) of
             (Inl e, g) \<Rightarrow> (Inl (dhe_inner e), ctx1\<lparr>hc_gas := g\<rparr>)
           | (Inr v, g) \<Rightarrow> (Inr v, ctx1\<lparr>hc_gas := g\<rparr>)))"

section \<open>Data sources, logging, aborting\<close>

definition data_source_create ::
  "('e, 'q, 't, 's, 'h) runtime \<Rightarrow> 't HostExports \<Rightarrow> string \<Rightarrow> string list \<Rightarrow> Entity option \<Rightarrow> int \<Rightarrow>
   ('q, 'd, 't, 's, 'h) host_ctx \<Rightarrow> (('e HostExportError, unit) result \<times> ('q, 'd, 't, 's, 'h) host_ctx) option" where
  "data_source_create rt he name params context block ctx =
     (case charge rt CREATE_DATA_SOURCE (Inr ()) (hc_gas ctx) of
        (Inl e, g) \<Rightarrow> Some (Inl (host_error_from_deterministic e), ctx\<lparr>hc_gas := g\<rparr>)
      | (Inr _, g) \<Rightarrow>
          (case List.find (\<lambda>t. rt_template_name rt t = name) (he_templates he) of
             None \<Rightarrow> Some (Inl (host_error_from_deterministic (DHE_Other (NoTemplate name))), ctx\<lparr>hc_gas := g\<rparr>)
           | Some t \<Rightarrow>
               (case push_created_data_source
                       \<lparr>template = t, ti_params = params, ti_context = context, creation_block = block\<rparr> (hc_state ctx) of
                  Inl _ \<Rightarrow> None
                | Inr s \<Rightarrow> Some (Inr (), ctx\<lparr>hc_gas := g, hc_state := s\<rparr>))))"

datatype log_level = Critical | Error_Level | Warning | Info | Debug | Trace

definition log_log ::
  "('e, 'q, 't, 's, 'h) runtime \<Rightarrow> log_level \<Rightarrow> string \<Rightarrow> gas \<Rightarrow> ('e DeterministicHostError, unit) result \<times> gas" where
  "log_log rt level msg g =
     charge rt (with_args LOG_OP (string_gas_size msg))
       (if level = Critical then Inl (DHE_Other CriticalLog) else Inr ()) g"

text \<open>The location of an abort; \<open>None\<close> is \<open>unreachable!\<close>.\<close>

fun abort_at :: "string option \<Rightarrow> 32 word option \<Rightarrow> 32 word option \<Rightarrow> abort_location option" where
  "abort_at None None None = Some Unknown_location"
| "abort_at (Some f) None None = Some (In_file f)"
| "abort_at (Some f) (Some l) None = Some (On_line f l)"
| "abort_at (Some f) (Some l) (Some c) = Some (At_column f l c)"
| "abort_at _ _ _ = None"

definition abort ::
  "('e, 'q, 't, 's, 'h) runtime \<Rightarrow> string option \<Rightarrow> string option \<Rightarrow> 32 word option \<Rightarrow> 32 word option \<Rightarrow> gas \<Rightarrow>
   ('e DeterministicHostError \<times> gas) option" where
  "abort rt message file_name line_number column_number g =
     (case charge rt DEFAULT_BASE_COST (Inr ()) g of
        (Inl e, g1) \<Rightarrow> Some (e, g1)
      | (Inr _, g1) \<Rightarrow>
          (case abort_at file_name line_number column_number of
             None \<Rightarrow> None
           | Some location \<Rightarrow> Some (DHE_Other (Aborted location message), g1)))"

definition data_source_address ::
  "('e, 'q, 't, 's, 'h) runtime \<Rightarrow> 't HostExports \<Rightarrow> gas \<Rightarrow> ('e DeterministicHostError, u8 list) result \<times> gas" where
  "data_source_address rt he = charge rt DEFAULT_BASE_COST (Inr (he_data_source_address he))"

definition data_source_network ::
  "('e, 'q, 't, 's, 'h) runtime \<Rightarrow> 't HostExports \<Rightarrow> gas \<Rightarrow> ('e DeterministicHostError, string) result \<times> gas" where
  "data_source_network rt he = charge rt DEFAULT_BASE_COST (Inr (he_data_source_network he))"

definition data_source_context ::
  "('e, 'q, 't, 's, 'h) runtime \<Rightarrow> 't HostExports \<Rightarrow> gas \<Rightarrow> ('e DeterministicHostError, Entity) result \<times> gas" where
  "data_source_context rt he =
     charge rt DEFAULT_BASE_COST (Inr (case he_data_source_context he of None \<Rightarrow> [] | Some e \<Rightarrow> e))"

section \<open>Big integers\<close>

definition big_gas :: "('e, 'q, 't, 's, 'h) runtime \<Rightarrow> complexity \<Rightarrow> int \<Rightarrow> int \<Rightarrow> gas" where
  "big_gas rt c x y = with_args BIG_MATH_GAS_OP (combine c (big_int_gas_size (rt_bits rt) x) (big_int_gas_size (rt_bits rt) y))"

definition big_int_plus ::
  "('e, 'q, 't, 's, 'h) runtime \<Rightarrow> int \<Rightarrow> int \<Rightarrow> gas \<Rightarrow> ('e DeterministicHostError, int) result \<times> gas" where
  "big_int_plus rt x y = charge rt (big_gas rt Max x y) (Inr (x + y))"

definition big_int_minus ::
  "('e, 'q, 't, 's, 'h) runtime \<Rightarrow> int \<Rightarrow> int \<Rightarrow> gas \<Rightarrow> ('e DeterministicHostError, int) result \<times> gas" where
  "big_int_minus rt x y = charge rt (big_gas rt Max x y) (Inr (x - y))"

definition big_int_times ::
  "('e, 'q, 't, 's, 'h) runtime \<Rightarrow> int \<Rightarrow> int \<Rightarrow> gas \<Rightarrow> ('e DeterministicHostError, int) result \<times> gas" where
  "big_int_times rt x y = charge rt (big_gas rt Mul x y) (Inr (x * y))"

definition big_int_divided_by ::
  "('e, 'q, 't, 's, 'h) runtime \<Rightarrow> int \<Rightarrow> int \<Rightarrow> gas \<Rightarrow> ('e DeterministicHostError, int) result \<times> gas" where
  "big_int_divided_by rt x y =
     charge rt (big_gas rt Mul x y) (if y = 0 then Inl (DHE_Other DividedByZero) else Inr (bn_div (rt_big rt) x y))"

definition big_int_mod ::
  "('e, 'q, 't, 's, 'h) runtime \<Rightarrow> int \<Rightarrow> int \<Rightarrow> gas \<Rightarrow> ('e DeterministicHostError, int) result \<times> gas" where
  "big_int_mod rt x y =
     charge rt (big_gas rt Mul x y) (if y = 0 then Inl (DHE_Other DividedByZero) else Inr (bn_rem (rt_big rt) x y))"

text \<open>\<open>(exp as f32).log2() as u8\<close>: the logarithm of zero is minus infinity, which becomes zero.\<close>

fun floor_log2 :: "nat \<Rightarrow> nat" where
  "floor_log2 n = (if n < 2 then 0 else Suc (floor_log2 (n div 2)))"

declare floor_log2.simps [simp del]

definition big_int_pow ::
  "('e, 'q, 't, 's, 'h) runtime \<Rightarrow> int \<Rightarrow> u8 \<Rightarrow> gas \<Rightarrow> ('e DeterministicHostError, int) result \<times> gas" where
  "big_int_pow rt x e =
     charge rt (with_args BIG_MATH_GAS_OP
       (combine_exponential (big_int_gas_size (rt_bits rt) x) (of_nat (floor_log2 (unat e))))) (Inr (x ^ unat e))"

definition big_int_bit_or ::
  "('e, 'q, 't, 's, 'h) runtime \<Rightarrow> int \<Rightarrow> int \<Rightarrow> gas \<Rightarrow> ('e DeterministicHostError, int) result \<times> gas" where
  "big_int_bit_or rt x y = charge rt (big_gas rt Max x y) (Inr (bn_or (rt_big rt) x y))"

definition big_int_bit_and ::
  "('e, 'q, 't, 's, 'h) runtime \<Rightarrow> int \<Rightarrow> int \<Rightarrow> gas \<Rightarrow> ('e DeterministicHostError, int) result \<times> gas" where
  "big_int_bit_and rt x y = charge rt (big_gas rt Min x y) (Inr (bn_and (rt_big rt) x y))"

text \<open>The number of bits is a \<open>u8\<close>, whose size is one.\<close>

definition shift_gas :: "('e, 'q, 't, 's, 'h) runtime \<Rightarrow> int \<Rightarrow> gas" where
  "shift_gas rt x = with_args BIG_MATH_GAS_OP (combine Linear (big_int_gas_size (rt_bits rt) x) 1)"

definition big_int_left_shift ::
  "('e, 'q, 't, 's, 'h) runtime \<Rightarrow> int \<Rightarrow> u8 \<Rightarrow> gas \<Rightarrow> ('e DeterministicHostError, int) result \<times> gas" where
  "big_int_left_shift rt x bits = charge rt (shift_gas rt x) (Inr (x * 2 ^ unat bits))"

definition big_int_right_shift ::
  "('e, 'q, 't, 's, 'h) runtime \<Rightarrow> int \<Rightarrow> u8 \<Rightarrow> gas \<Rightarrow> ('e DeterministicHostError, int) result \<times> gas" where
  "big_int_right_shift rt x bits = charge rt (shift_gas rt x) (Inr (bn_shr (rt_big rt) x bits))"

text \<open>The exact cost of a call, for a counter that does not saturate.\<close>

lemma charge_cases:
  obtains (ok) g where "charge rt amount r counter = (r, g)" "unat g = unat counter + unat amount + 10000"
      "unat g < unat (rt_max_gas rt)"
  | (fail) used g where "charge rt amount r counter = (Inl (DHE_Gas (GasExceeded used)), g)"
      "unat (rt_max_gas rt) \<le> unat counter + unat amount + 10000" "unat counter \<le> unat g"
proof -
  let ?c = "consume_host_fn (rt_max_gas rt) amount counter"
  have c: "unat (snd ?c) = min (unat counter + unat amount + 10000) (2 ^ 64 - 1)" by (rule consume_counter)
  have r: "fst ?c = (if unat (rt_max_gas rt) \<le> unat (snd ?c) then Inl (snd ?c) else Inr ())" by (rule consume_result)
  have max: "unat (rt_max_gas rt) \<le> 2 ^ 64 - 1" using unat_le_max [of "rt_max_gas rt"] by simp
  show thesis
  proof (cases "unat (rt_max_gas rt) \<le> unat (snd ?c)")
    case True
    then have "charge rt amount r counter = (Inl (DHE_Gas (GasExceeded (snd ?c))), snd ?c)"
      using r by (cases ?c) (simp add: charge_def)
    moreover have "unat counter \<le> 2 ^ 64 - 1" using unat_le_max [of counter] by simp
    ultimately show thesis using True c by (intro fail) auto
  next
    case False
    then have "charge rt amount r counter = (r, snd ?c)"
      using r by (cases ?c) (simp add: charge_def)
    moreover have "unat (snd ?c) = unat counter + unat amount + 10000"
      using False c max by (simp add: min_def split: if_splits)
    ultimately show thesis using False by (intro ok) auto
  qed
qed

end
