(* ===== verification/Wasm_Instance.thy ===== *)
theory Wasm_Instance
  imports Host_Exports
begin

text \<open>
  Running a handler (\<^verbatim>\<open>runtime/wasm/src/module/mod.rs\<close>, \<^verbatim>\<open>runtime/wasm/src/mapping.rs\<close>). The WebAssembly code of a
  mapping is arbitrary: a function of the context in which it is called to the host functions it
  calls, in order, and the way it ends. A host function that fails ends it with a trap. The heap of
  the instance appears through what it charges and where it allocates; its contents do not matter
  here. \<open>None\<close> is a panic.
\<close>

section \<open>Calls\<close>

datatype trap_code =
    StackOverflow | MemoryOutOfBounds | HeapMisaligned | TableOutOfBounds | IndirectCallToNull | BadSignature
  | IntegerOverflow | IntegerDivisionByZero | BadConversionToInteger | UnreachableCodeReached | Interrupt

text \<open>A trap has a code when the engine raised it, and a message.\<close>

datatype trap = Trap "trap_code option" string

text \<open>
  A function of the module either returns \<open>HostExportError\<close> or \<open>DeterministicHostError\<close>, which
  decides how an error of a heap access is treated in it.
\<close>

datatype export_error = Host_Error | Deterministic_Error

datatype big_op =
    Big_plus int int | Big_minus int int | Big_times int int | Big_divided_by int int | Big_mod int int
  | Big_pow int u8 | Big_bit_or int int | Big_bit_and int int | Big_left_shift int u8 | Big_right_shift int u8

datatype 'e host_call =
    Call_store_set string string Entity
  | Call_store_remove string string
  | Call_store_get string string
  | Call_data_source_create string "string list" "Entity option"
  | Call_data_source_address
  | Call_data_source_network
  | Call_data_source_context
  | Call_log_log log_level string
  | Call_abort "string option" "string option" "32 word" "32 word"
  | Call_big_int big_op
  | Call_host_fn gas "('e HostExportError, unit) result"
  | Call_gas "32 word"
  | Heap_new export_error nat int int
  | Heap_get export_error nat bool

record ('q, 'd, 't, 's, 'h) WasmInstanceContext =
  wi_ctx :: "('q, 'd, 't, 's, 'h) host_ctx"
  possible_reorg :: bool
  deterministic_host_trap :: bool
  arena_start_ptr :: int
  arena_free_size :: int

text \<open>The exports, the block, and whether the \<open>apiVersion\<close> is greater than 0.0.4.\<close>

record ('e, 'q, 't, 's, 'h) mapping_env =
  me_rt :: "('e, 'q, 't, 's, 'h) runtime"
  me_he :: "'t HostExports"
  me_block_ptr :: BlockPtr
  me_new_api :: bool

section \<open>The heap\<close>

definition GAS_COST_STORE :: "64 word" where
  "GAS_COST_STORE = 2263"

definition GAS_COST_LOAD :: "64 word" where
  "GAS_COST_LOAD = 1573"

definition MIN_ARENA_SIZE :: int where
  "MIN_ARENA_SIZE = 10000"

text \<open>
  A new arena when the current one is too small: \<open>allocated\<close> is the pointer that the allocator of the
  module returns for it. Newer modules have a header at the start of the arena.
\<close>

definition new_arena :: "bool \<Rightarrow> int \<Rightarrow> int \<Rightarrow> int \<times> int \<Rightarrow> int \<times> int" where
  "new_arena new_api allocated sz = (\<lambda>(start, free).
     (if free < sz
      then (let arena_size = max sz MIN_ARENA_SIZE
            in if new_api then (i32 (allocated + 12), i32 (arena_size - 12)) else (allocated, arena_size))
      else (start, free)))"

text \<open>
  Writing \<open>n\<close> bytes; \<open>memory\<close> is the size of the memory of the instance. The length is converted to
  \<open>i32\<close> and the write is unwrapped.
\<close>

definition raw_new ::
  "('e, 'q, 't, 's, 'h) mapping_env \<Rightarrow> nat \<Rightarrow> int \<Rightarrow> int \<Rightarrow> ('q, 'd, 't, 's, 'h) WasmInstanceContext \<Rightarrow>
   (('e DeterministicHostError, int) result \<times> ('q, 'd, 't, 's, 'h) WasmInstanceContext) option" where
  "raw_new env n allocated memory w =
     (case charge (me_rt env) (GAS_COST_STORE * of_nat n) (Inr ()) (hc_gas (wi_ctx w)) of
        (Inl e, g) \<Rightarrow> Some (Inl e, w\<lparr>wi_ctx := (wi_ctx w)\<lparr>hc_gas := g\<rparr>\<rparr>)
      | (Inr _, g) \<Rightarrow>
          (if \<not> is_i32 (int n) then None
           else
             (let (start, free) = new_arena (me_new_api env) allocated (int n) (arena_start_ptr w, arena_free_size w)
              in if start < 0 \<or> memory < start + int n then None
                 else Some (Inr start, w\<lparr>wi_ctx := (wi_ctx w)\<lparr>hc_gas := g\<rparr>,
                        arena_start_ptr := i32 (start + int n), arena_free_size := i32 (free - int n)\<rparr>))))"

definition heap_get ::
  "('e, 'q, 't, 's, 'h) mapping_env \<Rightarrow> nat \<Rightarrow> bool \<Rightarrow> ('q, 'd, 't, 's, 'h) WasmInstanceContext \<Rightarrow>
   ('e DeterministicHostError, unit) result \<times> ('q, 'd, 't, 's, 'h) WasmInstanceContext" where
  "heap_get env n in_bounds w =
     (case charge (me_rt env) (GAS_COST_LOAD * of_nat n)
             (if in_bounds then Inr () else Inl (DHE_Other HeapOutOfBounds)) (hc_gas (wi_ctx w)) of
        (r, g) \<Rightarrow> (r, w\<lparr>wi_ctx := (wi_ctx w)\<lparr>hc_gas := g\<rparr>\<rparr>))"

section \<open>Linked functions\<close>

definition link_error ::
  "DeterminismLevel \<Rightarrow> string \<Rightarrow> ('q, 'd, 't, 's, 'h) WasmInstanceContext \<Rightarrow>
   trap option \<times> ('q, 'd, 't, 's, 'h) WasmInstanceContext" where
  "link_error level message w =
     (Some (Trap None message),
      case level of
        Level_Deterministic \<Rightarrow> w\<lparr>deterministic_host_trap := True\<rparr>
      | Level_PossibleReorg \<Rightarrow> w\<lparr>possible_reorg := True\<rparr>
      | Level_NonDeterministic \<Rightarrow> w
      | Level_Unimplemented \<Rightarrow> w)"

fun host_error_inner :: "'e HostExportError \<Rightarrow> 'e failure" where
  "host_error_inner (HEE_Unknown e) = e"
| "host_error_inner (HEE_PossibleReorg e) = e"
| "host_error_inner (HEE_Deterministic e) = e"

definition link_host ::
  "('e, 'q, 't, 's, 'h) mapping_env \<Rightarrow> ('e HostExportError, 'a) result \<Rightarrow> ('q, 'd, 't, 's, 'h) WasmInstanceContext \<Rightarrow>
   trap option \<times> ('q, 'd, 't, 's, 'h) WasmInstanceContext" where
  "link_host env r w =
     (case r of
        Inl e \<Rightarrow> link_error (determinism_level e) (rt_message (me_rt env) (host_error_inner e)) w
      | Inr _ \<Rightarrow> (None, w))"

definition link_deterministic ::
  "('e, 'q, 't, 's, 'h) mapping_env \<Rightarrow> ('e DeterministicHostError, 'a) result \<Rightarrow> ('q, 'd, 't, 's, 'h) WasmInstanceContext \<Rightarrow>
   trap option \<times> ('q, 'd, 't, 's, 'h) WasmInstanceContext" where
  "link_deterministic env r w =
     (case r of
        Inl e \<Rightarrow> link_error (dhe_determinism_level e) (rt_message (me_rt env) (dhe_inner e)) w
      | Inr _ \<Rightarrow> (None, w))"

fun link_heap ::
  "('e, 'q, 't, 's, 'h) mapping_env \<Rightarrow> export_error \<Rightarrow> ('e DeterministicHostError, 'a) result \<Rightarrow>
   ('q, 'd, 't, 's, 'h) WasmInstanceContext \<Rightarrow> trap option \<times> ('q, 'd, 't, 's, 'h) WasmInstanceContext" where
  "link_heap env Host_Error r w =
     link_host env (case r of Inl e \<Rightarrow> Inl (host_error_from_deterministic e) | Inr a \<Rightarrow> Inr a) w"
| "link_heap env Deterministic_Error r w = link_deterministic env r w"

text \<open>
  The gas function that is called for every metered block of instructions. Its flag is a variable of
  its own, not the one of the instance, which therefore stays as it is.
\<close>

definition gas_function ::
  "('e, 'q, 't, 's, 'h) mapping_env \<Rightarrow> 32 word \<Rightarrow> ('q, 'd, 't, 's, 'h) WasmInstanceContext \<Rightarrow>
   trap option \<times> ('q, 'd, 't, 's, 'h) WasmInstanceContext" where
  "gas_function env gas_used w =
     (case charge (me_rt env) (of_nat (unat gas_used)) (Inr ()) (hc_gas (wi_ctx w)) of
        (r, g) \<Rightarrow>
          (case r of Inl e \<Rightarrow> Some (Trap None (rt_message (me_rt env) (dhe_inner e))) | Inr _ \<Rightarrow> None,
           w\<lparr>wi_ctx := (wi_ctx w)\<lparr>hc_gas := g\<rparr>\<rparr>))"

fun big_int_call ::
  "('e, 'q, 't, 's, 'h) runtime \<Rightarrow> big_op \<Rightarrow> gas \<Rightarrow> ('e DeterministicHostError, int) result \<times> gas" where
  "big_int_call rt (Big_plus x y) = big_int_plus rt x y"
| "big_int_call rt (Big_minus x y) = big_int_minus rt x y"
| "big_int_call rt (Big_times x y) = big_int_times rt x y"
| "big_int_call rt (Big_divided_by x y) = big_int_divided_by rt x y"
| "big_int_call rt (Big_mod x y) = big_int_mod rt x y"
| "big_int_call rt (Big_pow x e) = big_int_pow rt x e"
| "big_int_call rt (Big_bit_or x y) = big_int_bit_or rt x y"
| "big_int_call rt (Big_bit_and x y) = big_int_bit_and rt x y"
| "big_int_call rt (Big_left_shift x b) = big_int_left_shift rt x b"
| "big_int_call rt (Big_right_shift x b) = big_int_right_shift rt x b"

text \<open>A function that only uses the gas counter.\<close>

definition with_gas ::
  "('e, 'q, 't, 's, 'h) mapping_env \<Rightarrow> (gas \<Rightarrow> ('e DeterministicHostError, 'a) result \<times> gas) \<Rightarrow>
   ('q, 'd, 't, 's, 'h) WasmInstanceContext \<Rightarrow> trap option \<times> ('q, 'd, 't, 's, 'h) WasmInstanceContext" where
  "with_gas env f w =
     (case f (hc_gas (wi_ctx w)) of (r, g) \<Rightarrow> link_deterministic env r (w\<lparr>wi_ctx := (wi_ctx w)\<lparr>hc_gas := g\<rparr>\<rparr>))"

definition zero_none :: "32 word \<Rightarrow> 32 word option" where
  "zero_none n = (if n = 0 then None else Some n)"

fun exec_call ::
  "('e, 'q, 't, 's, 'h) mapping_env \<Rightarrow> 'e host_call \<Rightarrow> ('q, 'd, 't, 's, 'h) WasmInstanceContext \<Rightarrow>
   (trap option \<times> ('q, 'd, 't, 's, 'h) WasmInstanceContext) option" where
  "exec_call env (Call_store_set ty i data) w =
     (case store_set (me_rt env) (me_he env) ty i data (wi_ctx w) of
        None \<Rightarrow> None
      | Some (r, c) \<Rightarrow>
          Some (link_host env (case r of Inl e \<Rightarrow> Inl (host_error_from_anyhow e) | Inr u \<Rightarrow> Inr u) (w\<lparr>wi_ctx := c\<rparr>)))"
| "exec_call env (Call_store_remove ty i) w =
     (case store_remove (me_rt env) (me_he env) ty i (wi_ctx w) of
        None \<Rightarrow> None
      | Some (r, c) \<Rightarrow> Some (link_host env r (w\<lparr>wi_ctx := c\<rparr>)))"
| "exec_call env (Call_store_get ty i) w =
     (case host_store_get (me_rt env) (me_he env) ty i (wi_ctx w) of
        (r, c) \<Rightarrow>
          Some (link_host env (case r of Inl e \<Rightarrow> Inl (host_error_from_anyhow e) | Inr v \<Rightarrow> Inr v) (w\<lparr>wi_ctx := c\<rparr>)))"
| "exec_call env (Call_data_source_create name params context) w =
     (case data_source_create (me_rt env) (me_he env) name params context (ptr_number (me_block_ptr env)) (wi_ctx w) of
        None \<Rightarrow> None
      | Some (r, c) \<Rightarrow> Some (link_host env r (w\<lparr>wi_ctx := c\<rparr>)))"
| "exec_call env Call_data_source_address w = Some (with_gas env (data_source_address (me_rt env) (me_he env)) w)"
| "exec_call env Call_data_source_network w = Some (with_gas env (data_source_network (me_rt env) (me_he env)) w)"
| "exec_call env Call_data_source_context w = Some (with_gas env (data_source_context (me_rt env) (me_he env)) w)"
| "exec_call env (Call_log_log level msg) w = Some (with_gas env (log_log (me_rt env) level msg) w)"
| "exec_call env (Call_abort message file line column) w =
     (case abort (me_rt env) message file (zero_none line) (zero_none column) (hc_gas (wi_ctx w)) of
        None \<Rightarrow> None
      | Some (e, g) \<Rightarrow>
          Some (link_deterministic env (Inl e :: ('e DeterministicHostError, unit) result) (w\<lparr>wi_ctx := (wi_ctx w)\<lparr>hc_gas := g\<rparr>\<rparr>)))"
| "exec_call env (Call_big_int op) w = Some (with_gas env (big_int_call (me_rt env) op) w)"
| "exec_call env (Call_host_fn amount r) w =
     (case charge (me_rt env) amount (Inr ()) (hc_gas (wi_ctx w)) of
        (Inl e, g) \<Rightarrow>
          Some (link_host env (Inl (host_error_from_deterministic e) :: ('e HostExportError, unit) result)
                  (w\<lparr>wi_ctx := (wi_ctx w)\<lparr>hc_gas := g\<rparr>\<rparr>))
      | (Inr _, g) \<Rightarrow> Some (link_host env r (w\<lparr>wi_ctx := (wi_ctx w)\<lparr>hc_gas := g\<rparr>\<rparr>)))"
| "exec_call env (Call_gas used) w = Some (gas_function env used w)"
| "exec_call env (Heap_new k n allocated memory) w =
     (case raw_new env n allocated memory w of None \<Rightarrow> None | Some (r, w1) \<Rightarrow> Some (link_heap env k r w1))"
| "exec_call env (Heap_get k n in_bounds) w =
     (case heap_get env n in_bounds w of (r, w1) \<Rightarrow> Some (link_heap env k r w1))"

section \<open>Handlers\<close>

text \<open>What a function of the module does: the host functions it calls and the trap it ends with, if any.\<close>

type_synonym ('e, 'q, 'd, 't, 's, 'h) wasm_code =
  "('q, 'd, 't, 's, 'h) host_ctx \<Rightarrow> 'e host_call list \<times> trap option"

fun run_code ::
  "('e, 'q, 't, 's, 'h) mapping_env \<Rightarrow> 'e host_call list \<Rightarrow> trap option \<Rightarrow> ('q, 'd, 't, 's, 'h) WasmInstanceContext \<Rightarrow>
   (trap option \<times> ('q, 'd, 't, 's, 'h) WasmInstanceContext) option" where
  "run_code env [] fin w = Some (fin, w)"
| "run_code env (c # cs) fin w =
     (case exec_call env c w of
        None \<Rightarrow> None
      | Some (Some t, w1) \<Rightarrow> Some (Some t, w1)
      | Some (None, w1) \<Rightarrow> run_code env cs fin w1)"

datatype MappingError = PossibleReorg string | Unknown string

text \<open>The handlers a module exports; a function may not have the type of a handler.\<close>

datatype ('e, 'q, 'd, 't, 's, 'h) handler = Bad_Type | Handler "('e, 'q, 'd, 't, 's, 'h) wasm_code"

record ('e, 'q, 'd, 't, 's, 'h) wasm_module =
  wm_start :: "('e, 'q, 'd, 't, 's, 'h) wasm_code option"
  wm_handler :: "string \<Rightarrow> ('e, 'q, 'd, 't, 's, 'h) handler option"

text \<open>A trigger that was decoded for a handler, with the allocations for its argument.\<close>

record TriggerWithHandler =
  handler_name :: string
  tr_allocations :: "(nat \<times> int \<times> int) list"

definition TRAP_TIMEOUT :: string where
  "TRAP_TIMEOUT = ''trap: interrupt''"

fun str_contains :: "string \<Rightarrow> string \<Rightarrow> bool" where
  "str_contains sub [] = (sub = [])"
| "str_contains sub (c # cs) = (take (length sub) (c # cs) = sub \<or> str_contains sub cs)"

definition deterministic_trap_code :: "trap_code option \<Rightarrow> bool" where
  "deterministic_trap_code c =
     (case c of None \<Rightarrow> False | Some k \<Rightarrow>
        k \<in> {MemoryOutOfBounds, HeapMisaligned, TableOutOfBounds, IndirectCallToNull, BadSignature,
             IntegerOverflow, IntegerDivisionByZero, BadConversionToInteger, UnreachableCodeReached})"

text \<open>How a call ended: without a trap, with a deterministic error, or with an error of the mapping.\<close>

datatype ending = Finished | Failed_With string | Aborted_With MappingError

fun classify :: "trap option \<Rightarrow> ('q, 'd, 't, 's, 'h) WasmInstanceContext \<Rightarrow> ending" where
  "classify None w = Finished"
| "classify (Some (Trap code message)) w =
     (if possible_reorg w then Aborted_With (PossibleReorg message)
      else if str_contains TRAP_TIMEOUT message then Aborted_With (Unknown message)
      else if deterministic_trap_code code \<or> deterministic_host_trap w then Failed_With message
      else Aborted_With (Unknown message))"

definition handler_error :: "('e, 'q, 't, 's, 'h) mapping_env \<Rightarrow> string \<Rightarrow> string \<Rightarrow> SubgraphError" where
  "handler_error env handler message =
     \<lparr>err_subgraph_id = he_subgraph_id (me_he env),
      err_message = map (\<lambda>c. if c = CHR 0x0A then CHR 0x09 else c) message,
      err_block_ptr = Some (me_block_ptr env), err_handler = Some handler, err_deterministic = True\<rparr>"

text \<open>The proof of indexing is shared, so it keeps its changes when an error is returned.\<close>

type_synonym ('q, 'd, 't, 's, 'h) mapping_result =
  "((MappingError, ('q, 'd, 't) BlockState \<times> gas) result \<times> ('s, 'h) ProofOfIndexing option) option"

definition invoke_handler ::
  "('e, 'q, 't, 's, 'h) mapping_env \<Rightarrow> ('e, 'q, 'd, 't, 's, 'h) wasm_module \<Rightarrow> string \<Rightarrow>
   ('q, 'd, 't, 's, 'h) WasmInstanceContext \<Rightarrow> ('q, 'd, 't, 's, 'h) mapping_result" where
  "invoke_handler env m handler w =
     (case wm_handler m handler of
        None \<Rightarrow> Some (Inl (Unknown (''function '' @ handler @ '' not found'')), hc_poi (wi_ctx w))
      | Some h \<Rightarrow>
          (case bs_enter_handler (hc_state (wi_ctx w)) of
             Inl _ \<Rightarrow> None
           | Inr s \<Rightarrow>
               (let w1 = w\<lparr>wi_ctx := (wi_ctx w)\<lparr>hc_state := s\<rparr>\<rparr> in
                case h of
                  Bad_Type \<Rightarrow> Some (Inl (Unknown ''type mismatch''), hc_poi (wi_ctx w))
                | Handler code \<Rightarrow>
                    (case run_code env (fst (code (wi_ctx w1))) (snd (code (wi_ctx w1))) w1 of
                       None \<Rightarrow> None
                     | Some (t, w2) \<Rightarrow>
                         (let c = wi_ctx w2 in
                          case classify t w2 of
                            Finished \<Rightarrow>
                              (case bs_exit_handler (hc_state c) of
                                 Inl _ \<Rightarrow> None
                               | Inr s2 \<Rightarrow> Some (Inr (s2, hc_gas c), hc_poi c))
                          | Failed_With message \<Rightarrow>
                              (case bs_exit_handler_and_discard_changes_due_to_error
                                      (handler_error env handler message) (hc_state c) of
                                 Inl _ \<Rightarrow> None
                               | Inr s2 \<Rightarrow> Some (Inr (s2, hc_gas c), hc_poi c))
                          | Aborted_With e \<Rightarrow>
                              (case bs_exit_handler (hc_state c) of
                                 Inl _ \<Rightarrow> None
                               | Inr _ \<Rightarrow> Some (Inl e, hc_poi c)))))))"

fun allocate_argument ::
  "('e, 'q, 't, 's, 'h) mapping_env \<Rightarrow> (nat \<times> int \<times> int) list \<Rightarrow> ('q, 'd, 't, 's, 'h) WasmInstanceContext \<Rightarrow>
   (('e DeterministicHostError, unit) result \<times> ('q, 'd, 't, 's, 'h) WasmInstanceContext) option" where
  "allocate_argument env [] w = Some (Inr (), w)"
| "allocate_argument env ((n, allocated, memory) # as) w =
     (case raw_new env n allocated memory w of
        None \<Rightarrow> None
      | Some (Inl e, w1) \<Rightarrow> Some (Inl e, w1)
      | Some (Inr _, w1) \<Rightarrow> allocate_argument env as w1)"

definition handle_trigger ::
  "('e, 'q, 't, 's, 'h) mapping_env \<Rightarrow> ('e, 'q, 'd, 't, 's, 'h) wasm_module \<Rightarrow> TriggerWithHandler \<Rightarrow>
   ('q, 'd, 't, 's, 'h) WasmInstanceContext \<Rightarrow> ('q, 'd, 't, 's, 'h) mapping_result" where
  "handle_trigger env m trigger w =
     (case allocate_argument env (tr_allocations trigger) w of
        None \<Rightarrow> None
      | Some (Inl e, w1) \<Rightarrow> Some (Inl (Unknown (rt_message (me_rt env) (dhe_inner e))), hc_poi (wi_ctx w1))
      | Some (Inr _, w1) \<Rightarrow> invoke_handler env m (handler_name trigger) w1)"

text \<open>
  A fresh instance with a fresh gas counter. The start function of the module runs outside of any
  handler; a module of a newer \<open>apiVersion\<close> without one cannot be instantiated.
\<close>

definition from_valid_module_with_ctx ::
  "('e, 'q, 't, 's, 'h) mapping_env \<Rightarrow> ('e, 'q, 'd, 't, 's, 'h) wasm_module \<Rightarrow> ('q, 'd, 't) BlockState \<Rightarrow>
   ('s, 'h) ProofOfIndexing option \<Rightarrow> ((string, unit) result \<times> ('q, 'd, 't, 's, 'h) WasmInstanceContext) option" where
  "from_valid_module_with_ctx env m s poi =
     (let w = \<lparr>wi_ctx = \<lparr>hc_state = s, hc_poi = poi, hc_gas = 0\<rparr>, possible_reorg = False,
               deterministic_host_trap = False, arena_start_ptr = 0, arena_free_size = 0\<rparr>
      in case wm_start m of
           None \<Rightarrow> Some (if me_new_api env then Inl ''_start function not found'' else Inr (), w)
         | Some code \<Rightarrow>
             (case run_code env (fst (code (wi_ctx w))) (snd (code (wi_ctx w))) w of
                None \<Rightarrow> None
              | Some (Some (Trap _ message), w1) \<Rightarrow> Some (Inl message, w1)
              | Some (None, w1) \<Rightarrow> Some (Inr (), w1)))"

definition instantiate_module_and_handle_trigger ::
  "('e, 'q, 't, 's, 'h) mapping_env \<Rightarrow> ('e, 'q, 'd, 't, 's, 'h) wasm_module \<Rightarrow> TriggerWithHandler \<Rightarrow>
   ('q, 'd, 't) BlockState \<Rightarrow> ('s, 'h) ProofOfIndexing option \<Rightarrow> ('q, 'd, 't, 's, 'h) mapping_result" where
  "instantiate_module_and_handle_trigger env m trigger s poi =
     (case from_valid_module_with_ctx env m s poi of
        None \<Rightarrow> None
      | Some (Inl message, w) \<Rightarrow> Some (Inl (Unknown message), hc_poi (wi_ctx w))
      | Some (Inr _, w) \<Rightarrow> handle_trigger env m trigger w)"

end
