(* ===== verification/Handler_Runs.thy ===== *)
theory Handler_Runs
  imports Wasm_Instance
begin

text \<open>
  What a run of a handler does to the block state and to the proof of indexing: the events it adds
  to the proof of indexing describe its changes of the entities.
\<close>

section \<open>The effect of an event\<close>

text \<open>The change of the entities of a subgraph that an event of the proof of indexing stands for.\<close>

fun apply_event ::
  "('e, 'q) cache_env \<Rightarrow> string \<Rightarrow> ProofOfIndexingEvent \<Rightarrow> (EntityKey \<Rightarrow> Entity option) \<Rightarrow> EntityKey \<Rightarrow> Entity option" where
  "apply_event env sid (SetEntity ty i data) V =
     (let key = \<lparr>subgraph_id = sid, entity_type = ty, entity_id = i\<rparr>
      in case with_id env key data of
           Inl _ \<Rightarrow> V
         | Inr e \<Rightarrow> V(key := apply_to (Op_Update e) (V key)))"
| "apply_event env sid (RemoveEntity ty i) V = V(\<lparr>subgraph_id = sid, entity_type = ty, entity_id = i\<rparr> := None)"
| "apply_event env sid (DeterministicError _) V = V"

fun event_wf :: "ProofOfIndexingEvent \<Rightarrow> bool" where
  "event_wf (SetEntity ty i data) = hm_wf data"
| "event_wf _ = True"

definition same_values :: "(EntityKey \<Rightarrow> Entity option) \<Rightarrow> (EntityKey \<Rightarrow> Entity option) \<Rightarrow> bool" where
  "same_values U V \<longleftrightarrow> (\<forall>k. same_entity (U k) (V k))"

lemma same_values_refl [simp]: "same_values U U"
  by (simp add: same_values_def)

lemma same_values_trans [trans]: "same_values U V \<Longrightarrow> same_values V W \<Longrightarrow> same_values U W"
  unfolding same_values_def using same_entity_trans by blast

lemma apply_event_cong:
  assumes "event_wf e" and "same_values U V"
  shows "same_values (apply_event env sid e U) (apply_event env sid e V)"
proof (cases e)
  case (SetEntity ty i data)
  let ?key = "\<lparr>subgraph_id = sid, entity_type = ty, entity_id = i\<rparr>"
  show ?thesis
  proof (cases "with_id env ?key data")
    case (Inr e1)
    have "op_wf (Op_Update e1)" using with_id_wf [OF _ Inr] assms(1) SetEntity by simp
    then have "same_entity (apply_to (Op_Update e1) (U ?key)) (apply_to (Op_Update e1) (V ?key))"
      using assms(2) by (intro apply_to_cong) (simp_all add: same_values_def)
    then show ?thesis using SetEntity Inr assms(2) by (simp add: same_values_def Let_def)
  qed (use SetEntity assms in \<open>simp add: Let_def\<close>)
qed (use assms in \<open>simp_all add: same_values_def\<close>)

lemma fold_apply_event_cong:
  "list_all event_wf es \<Longrightarrow> same_values U V \<Longrightarrow>
   same_values (fold (apply_event env sid) es U) (fold (apply_event env sid) es V)"
  by (induction es arbitrary: U V) (simp_all add: apply_event_cong)

section \<open>One call\<close>

fun call_wf :: "'e host_call \<Rightarrow> bool" where
  "call_wf (Call_store_set ty i data) = hm_wf data"
| "call_wf _ = True"

text \<open>Calls that do not change entities.\<close>

fun reads_only :: "'e host_call \<Rightarrow> bool" where
  "reads_only (Call_store_set _ _ _) = False"
| "reads_only (Call_store_remove _ _) = False"
| "reads_only _ = True"

definition poi_records ::
  "('s, 'h) stable_hash \<Rightarrow> int \<Rightarrow> ('s, 'h) ProofOfIndexing option \<Rightarrow> string \<Rightarrow> ProofOfIndexingEvent list \<Rightarrow> nat \<Rightarrow> bool" where
  "poi_records lib n poi region es hs \<longleftrightarrow> (case poi of None \<Rightarrow> True | Some p \<Rightarrow> records lib n p region es hs)"

text \<open>What calls inside a handler leave as it is.\<close>

definition frame :: "('q, 'd, 't) BlockState \<Rightarrow> ('q, 'd, 't) BlockState \<Rightarrow> bool" where
  "frame s s' \<longleftrightarrow>
     bs_in_handler s' = bs_in_handler s \<and> deterministic_errors s' = deterministic_errors s \<and>
     created_data_sources s' = created_data_sources s \<and>
     EntityCache.data_sources (entity_cache s') = EntityCache.data_sources (entity_cache s)"

lemma frame_refl [simp]: "frame s s"
  by (simp add: frame_def)

lemma frame_trans: "frame s t \<Longrightarrow> frame t u \<Longrightarrow> frame s u"
  by (simp add: frame_def)

definition values_of :: "(EntityKey \<Rightarrow> Entity option) \<Rightarrow> ('q, 'd, 't) BlockState \<Rightarrow> EntityKey \<Rightarrow> Entity option" where
  "values_of S s = cache_value S (entity_cache s)"

text \<open>
  The effect of calls with the events \<open>es\<close>: the proof of indexing gets the events, the state stays
  well-formed, and unless a call failed the values are those after the events. A call that fails may
  have added an event before it failed.
\<close>

definition effect ::
  "('e, 'q, 't, 's, 'h) mapping_env \<Rightarrow> _ \<Rightarrow> (EntityKey \<Rightarrow> Entity option) \<Rightarrow> ('q, 'd, 't, 's, 'h) host_ctx \<Rightarrow>
   ProofOfIndexingEvent list \<Rightarrow> bool \<Rightarrow> ('q, 'd, 't, 's, 'h) host_ctx \<Rightarrow> bool" where
  "effect env items S c es ok c' \<longleftrightarrow>
     list_all is_change es \<and> list_all event_wf es \<and>
     (\<forall>n es0 hs. poi_records (rt_hash (me_rt env)) n (hc_poi c) (he_causality_region (me_he env)) es0 hs \<longrightarrow>
        poi_records (rt_hash (me_rt env)) n (hc_poi c') (he_causality_region (me_he env)) (es0 @ es) hs) \<and>
     (hc_poi c' = None \<longleftrightarrow> hc_poi c = None) \<and>
     bs_ok items S (hc_state c') \<and> frame (hc_state c) (hc_state c') \<and>
     (bs_in_handler (hc_state c) \<or> es = [] \<longrightarrow> updates (entity_cache (hc_state c')) = updates (entity_cache (hc_state c))) \<and>
     unat (hc_gas c) + 10000 * length es \<le> unat (hc_gas c') + (if ok then 0 else 10000) \<and>
     (ok \<longrightarrow> same_values (values_of S (hc_state c'))
        (fold (apply_event (rt_cache (me_rt env)) (he_subgraph_id (me_he env))) es (values_of S (hc_state c))))"

lemma effect_refl: "bs_ok items S (hc_state c) \<Longrightarrow> effect env items S c [] True c"
  by (simp add: effect_def)

lemma effectD:
  assumes "effect env items S c es ok c'"
  shows "list_all is_change es" and "list_all event_wf es"
    and "poi_records (rt_hash (me_rt env)) n (hc_poi c) (he_causality_region (me_he env)) es0 hs \<Longrightarrow>
        poi_records (rt_hash (me_rt env)) n (hc_poi c') (he_causality_region (me_he env)) (es0 @ es) hs"
    and "hc_poi c' = None \<longleftrightarrow> hc_poi c = None"
    and "bs_ok items S (hc_state c')" and "frame (hc_state c) (hc_state c')"
    and "bs_in_handler (hc_state c) \<or> es = [] \<Longrightarrow> updates (entity_cache (hc_state c')) = updates (entity_cache (hc_state c))"
    and "unat (hc_gas c) + 10000 * length es \<le> unat (hc_gas c') + (if ok then 0 else 10000)"
    and "ok \<Longrightarrow> same_values (values_of S (hc_state c'))
        (fold (apply_event (rt_cache (me_rt env)) (he_subgraph_id (me_he env))) es (values_of S (hc_state c)))"
  using assms unfolding effect_def by blast+

lemma effect_trans:
  assumes "effect env items S c es True c1" and "effect env items S c1 es' ok c2"
  shows "effect env items S c (es @ es') ok c2"
  unfolding effect_def
proof (intro conjI allI impI)
  note d = effectD [OF assms(1)] effectD [OF assms(2)]
  let ?f = "apply_event (rt_cache (me_rt env)) (he_subgraph_id (me_he env))"
  show "list_all is_change (es @ es')" "list_all event_wf (es @ es')" using d by simp_all
  show "poi_records (rt_hash (me_rt env)) n (hc_poi c2) (he_causality_region (me_he env)) (es0 @ es @ es') hs"
    if "poi_records (rt_hash (me_rt env)) n (hc_poi c) (he_causality_region (me_he env)) es0 hs" for n es0 hs
    using d(12) [OF d(3) [OF that]] by simp
  show "hc_poi c2 = None \<longleftrightarrow> hc_poi c = None" using d by simp
  show "bs_ok items S (hc_state c2)" by (rule d)
  show "frame (hc_state c) (hc_state c2)" using d(6,15) by (rule frame_trans)
  have "bs_in_handler (hc_state c1) = bs_in_handler (hc_state c)" using d(6) by (simp add: frame_def)
  then show "updates (entity_cache (hc_state c2)) = updates (entity_cache (hc_state c))"
    if "bs_in_handler (hc_state c) \<or> es @ es' = []"
    using d(7,16) that by auto
  show "unat (hc_gas c) + 10000 * length (es @ es') \<le> unat (hc_gas c2) + (if ok then 0 else 10000)"
    using d(8,17) by simp
  show "same_values (values_of S (hc_state c2)) (fold ?f (es @ es') (values_of S (hc_state c)))" if ok
    using same_values_trans [OF d(18) [OF that] fold_apply_event_cong [OF d(11) d(9)]] by simp
qed

text \<open>A call that changes neither the block state nor the proof of indexing.\<close>

lemma effect_gas:
  assumes "bs_ok items S (hc_state c)" and "hc_state c' = hc_state c" and "hc_poi c' = hc_poi c"
    and "unat (hc_gas c) \<le> unat (hc_gas c')"
  shows "effect env items S c [] ok c'"
  using assms by (simp add: effect_def)

lemma charge_gas: "charge rt amount r counter = (r', g) \<Longrightarrow> unat counter \<le> unat g"
  by (rule charge_cases [of rt amount r counter]) auto

lemma write_poi_event_records:
  assumes "write_poi_event rt e region poi = Some poi'"
  shows "poi_records (rt_hash rt) n poi region es hs \<Longrightarrow> poi_records (rt_hash rt) n poi' region (es @ [e]) hs"
    and "poi' = None \<longleftrightarrow> poi = None"
proof -
  show "poi' = None \<longleftrightarrow> poi = None"
    using assms by (auto simp: write_poi_event_def split: option.splits)
  show "poi_records (rt_hash rt) n poi' region (es @ [e]) hs" if "poi_records (rt_hash rt) n poi region es hs"
  proof (cases poi)
    case (Some p)
    with that have "records (rt_hash rt) n p region es hs" by (simp add: poi_records_def)
    then obtain p' where "poi_write (rt_hash rt) region e p = Some p'" "records (rt_hash rt) n p' region (es @ [e]) hs"
      using poi_write_records by blast
    moreover from this have "poi' = Some p'" using assms Some by (simp add: write_poi_event_def)
    ultimately show ?thesis by (simp add: poi_records_def)
  qed (use assms in \<open>simp add: write_poi_event_def poi_records_def\<close>)
qed

lemma entity_op_values:
  assumes "cache_ok items S c" and "op_wf op"
  shows "same_values (cache_value S (entity_op key op c)) ((cache_value S c)(key := apply_to op (cache_value S c key)))"
  unfolding same_values_def
proof
  show "same_entity (cache_value S (entity_op key op c) k) (((cache_value S c)(key := apply_to op (cache_value S c key))) k)" for k
    using entity_op_value [OF assms, of key k] by (cases "k = key") simp_all
qed

text \<open>The linking of a function changes only the flags.\<close>

lemma link_simps [simp]:
  "wi_ctx (snd (link_error l m w)) = wi_ctx w"
  "fst (link_error l m w) \<noteq> None"
  "wi_ctx (snd (link_host env r w)) = wi_ctx w"
  "fst (link_host env r w) = None \<longleftrightarrow> (\<exists>a. r = Inr a)"
  "wi_ctx (snd (link_deterministic env r' w)) = wi_ctx w"
  "fst (link_deterministic env r' w) = None \<longleftrightarrow> (\<exists>a. r' = Inr a)"
  "wi_ctx (snd (link_heap env k r' w)) = wi_ctx w"
  by (cases k; auto simp: link_error_def link_host_def link_deterministic_def split: DeterminismLevel.splits sum.splits)+

lemma entity_op_frame [simp]:
  "in_handler (entity_op key op c) = in_handler c"
  "in_handler c \<Longrightarrow> updates (entity_op key op c) = updates c"
  "EntityCache.data_sources (entity_op key op c) = EntityCache.data_sources c"
  by (simp_all add: entity_op_def)

text \<open>A call that adds one event.\<close>

lemma effect_event:
  assumes poi: "write_poi_event (me_rt env) e (he_causality_region (me_he env)) (hc_poi c) = Some (hc_poi c')"
    and "is_change e" "event_wf e" and "bs_ok items S (hc_state c')" and "frame (hc_state c) (hc_state c')"
    and "bs_in_handler (hc_state c) \<Longrightarrow> updates (entity_cache (hc_state c')) = updates (entity_cache (hc_state c))"
    and "unat (hc_gas c) + 10000 \<le> unat (hc_gas c') + (if ok then 0 else 10000)"
    and "ok \<Longrightarrow> same_values (values_of S (hc_state c'))
        (apply_event (rt_cache (me_rt env)) (he_subgraph_id (me_he env)) e (values_of S (hc_state c)))"
  shows "effect env items S c [e] ok c'"
  unfolding effect_def
  using assms(2-8) write_poi_event_records(1) [OF poi] write_poi_event_records(2) [OF poi]
  by (intro conjI allI impI) simp_all

lemma event_failed:
  assumes "write_poi_event (me_rt env) e (he_causality_region (me_he env)) (hc_poi c) = Some poi"
    and "is_change e" "event_wf e" and "bs_ok items S (hc_state c)" and "unat (hc_gas c) \<le> unat g"
  shows "effect env items S c [e] False (c\<lparr>hc_poi := poi, hc_gas := g\<rparr>)"
  using assms by (intro effect_event) simp_all

text \<open>A call that adds one event and changes the cache.\<close>

lemma event_applied:
  assumes "write_poi_event (me_rt env) e (he_causality_region (me_he env)) (hc_poi c) = Some poi"
    and "is_change e" "event_wf e" and "bs_ok items S (hc_state c)" and "unat (hc_gas c) + 10000 \<le> unat g"
    and "cache_ok items S cc" and "in_handler cc = in_handler (entity_cache (hc_state c))"
    and "in_handler (entity_cache (hc_state c)) \<Longrightarrow> updates cc = updates (entity_cache (hc_state c))"
    and "EntityCache.data_sources cc = EntityCache.data_sources (entity_cache (hc_state c))"
    and "same_values (cache_value S cc)
      (apply_event (rt_cache (me_rt env)) (he_subgraph_id (me_he env)) e (cache_value S (entity_cache (hc_state c))))"
  shows "effect env items S c [e] ok
    (c\<lparr>hc_poi := poi, hc_gas := g, hc_state := (hc_state c)\<lparr>entity_cache := cc\<rparr>\<rparr>)"
  using assms by (intro effect_event) (simp_all add: bs_ok_def frame_def values_of_def)

lemma store_set_effect:
  assumes R: "entity_reader (rt_cache (me_rt env)) items S" and ok: "bs_ok items S (hc_state c)"
    and wf: "hm_wf data" and run: "store_set (me_rt env) (me_he env) ty i data c = Some (r, c')"
  shows "effect env items S c [SetEntity ty i data] (r = Inr ()) c'"
proof -
  let ?rt = "me_rt env" and ?key = "he_key (me_he env) ty i"
  obtain poi where poi: "write_poi_event ?rt (SetEntity ty i data) (he_causality_region (me_he env)) (hc_poi c) = Some poi"
    using run by (auto simp: store_set_def split: option.splits)
  show ?thesis
  proof (rule charge_cases [of ?rt "set_gas ?rt ?key data" "Inr ()" "hc_gas c"])
    fix used g assume g: "charge ?rt (set_gas ?rt ?key data) (Inr ()) (hc_gas c) = (Inl (DHE_Gas (GasExceeded used)), g)"
      and mono: "unat (hc_gas c) \<le> unat g"
    then have r: "r = Inl (GasExceeded used)" "c' = c\<lparr>hc_poi := poi, hc_gas := g\<rparr>"
      using run poi by (auto simp: store_set_def Let_def)
    show ?thesis using event_failed [OF poi _ _ ok mono] wf by (simp add: r)
  next
    fix g assume g: "charge ?rt (set_gas ?rt ?key data) (Inr ()) (hc_gas c) = (Inr (), g)"
      and gas: "unat g = unat (hc_gas c) + unat (set_gas ?rt ?key data) + 10000"
    let ?s = "hc_state c"
    obtain q cc where set: "cache_set (rt_cache ?rt) ?key data (entity_cache ?s) = (q, cc)" by fastforce
    have r: "r = (case q of Inl e \<Rightarrow> Inl (CacheFailed e) | Inr _ \<Rightarrow> Inr ())"
      and c': "c' = c\<lparr>hc_poi := poi, hc_gas := g, hc_state := ?s\<lparr>entity_cache := cc\<rparr>\<rparr>"
      using run poi g set by (auto simp: store_set_def Let_def)
    have cok: "cache_ok items S (entity_cache ?s)" using ok by (simp add: bs_ok_def)
    from entity_reader.cache_set_cases [OF R cok wf, of ?key] consider
        err where "q = Inl err" "cc = entity_cache ?s"
      | e1 cur where "with_id (rt_cache ?rt) ?key data = Inr e1"
          "cc = (entity_op ?key (Op_Update e1) (entity_cache ?s))\<lparr>current := cur\<rparr>" "cache_ok items S cc"
      using set by auto
    then show ?thesis
    proof cases
      case 1
      then have "c' = c\<lparr>hc_poi := poi, hc_gas := g\<rparr>" "r \<noteq> Inr ()" by (simp_all add: c' r)
      then show ?thesis using event_failed [OF poi _ _ ok, of g] wf gas by simp
    next
      case (2 e1 cur)
      have val: "cache_value S cc = cache_value S (entity_op ?key (Op_Update e1) (entity_cache ?s))"
        by (simp add: 2(2) cache_value_def fun_eq_iff)
      have "op_wf (Op_Update e1)" using with_id_wf [OF wf 2(1)] by simp
      then have "same_values (cache_value S cc)
          (apply_event (rt_cache ?rt) (he_subgraph_id (me_he env)) (SetEntity ty i data) (cache_value S (entity_cache ?s)))"
        unfolding val using entity_op_values [OF cok, of "Op_Update e1" ?key] 2(1)
        by (simp add: Let_def he_key_def)
      moreover have "in_handler cc = in_handler (entity_cache ?s)"
          "in_handler (entity_cache ?s) \<Longrightarrow> updates cc = updates (entity_cache ?s)"
          "EntityCache.data_sources cc = EntityCache.data_sources (entity_cache ?s)"
        by (simp_all add: 2(2))
      ultimately show ?thesis
        unfolding c' using wf gas by (intro event_applied [OF poi _ _ ok _ 2(3)]) simp_all
    qed
  qed
qed

lemma store_remove_effect:
  assumes ok: "bs_ok items S (hc_state c)"
    and run: "store_remove (me_rt env) (me_he env) ty i c = Some (r, c')"
  shows "effect env items S c [RemoveEntity ty i] (r = Inr ()) c'"
proof -
  let ?rt = "me_rt env" and ?key = "he_key (me_he env) ty i"
  obtain poi where poi: "write_poi_event ?rt (RemoveEntity ty i) (he_causality_region (me_he env)) (hc_poi c) = Some poi"
    using run by (auto simp: store_remove_def split: option.splits)
  let ?amount = "with_args STORE_REMOVE (key_gas_size ?key)"
  show ?thesis
  proof (rule charge_cases [of ?rt ?amount "Inr ()" "hc_gas c"])
    fix used g assume "charge ?rt ?amount (Inr ()) (hc_gas c) = (Inl (DHE_Gas (GasExceeded used)), g)"
      and mono: "unat (hc_gas c) \<le> unat g"
    then have r: "r = Inl (HEE_Unknown (GasExceeded used))" "c' = c\<lparr>hc_poi := poi, hc_gas := g\<rparr>"
      using run poi by (auto simp: store_remove_def Let_def)
    show ?thesis using event_failed [OF poi _ _ ok mono] by (simp add: r)
  next
    fix g assume g: "charge ?rt ?amount (Inr ()) (hc_gas c) = (Inr (), g)"
      and gas: "unat g = unat (hc_gas c) + unat ?amount + 10000"
    let ?s = "hc_state c" and ?cc = "cache_remove ?key (entity_cache (hc_state c))"
    have c': "c' = c\<lparr>hc_poi := poi, hc_gas := g, hc_state := ?s\<lparr>entity_cache := ?cc\<rparr>\<rparr>"
      using run poi g by (auto simp: store_remove_def Let_def)
    have cok: "cache_ok items S (entity_cache ?s)" using ok by (simp add: bs_ok_def)
    have v: "cache_ok items S ?cc" "same_values (cache_value S ?cc)
        (apply_event (rt_cache ?rt) (he_subgraph_id (me_he env)) (RemoveEntity ty i) (cache_value S (entity_cache ?s)))"
      using entity_op_value [OF cok, of Op_Remove ?key] entity_op_values [OF cok, of Op_Remove ?key]
      by (simp_all add: cache_remove_def he_key_def)
    show ?thesis
      unfolding c' using gas v(2)
      by (intro event_applied [OF poi _ _ ok _ v(1)]) (simp_all add: cache_remove_def)
  qed
qed

lemma store_get_effect:
  assumes R: "entity_reader (rt_cache (me_rt env)) items S" and ok: "bs_ok items S (hc_state c)"
    and run: "host_store_get (me_rt env) (me_he env) ty i c = (r, c')"
  shows "effect env items S c [] (\<exists>v. r = Inr v) c'"
proof -
  let ?rt = "me_rt env" and ?key = "he_key (me_he env) ty i" and ?s = "hc_state c"
  have cok: "cache_ok items S (entity_cache ?s)" using ok by (simp add: bs_ok_def)
  obtain v cur where get: "cache_get (rt_cache ?rt) ?key (entity_cache ?s) = (Inr v, (entity_cache ?s)\<lparr>current := cur\<rparr>)"
      "cache_ok items S ((entity_cache ?s)\<lparr>current := cur\<rparr>)"
    using entity_reader.cache_get_spec [OF R cok, of ?key] by blast
  let ?amount = "with_args STORE_GET (combine Linear (key_gas_size ?key) (option_gas_size (entity_gas_size (rt_bits ?rt)) v))"
  let ?s' = "?s\<lparr>entity_cache := (entity_cache ?s)\<lparr>current := cur\<rparr>\<rparr>"
  obtain r' g where g: "charge ?rt ?amount (Inr v) (hc_gas c) = (r', g)" by fastforce
  have "c' = c\<lparr>hc_state := ?s', hc_gas := g\<rparr>"
    using run get(1) g by (auto simp: host_store_get_def Let_def split: sum.splits)
  moreover have "bs_ok items S ?s'" "frame ?s ?s'" "values_of S ?s' = values_of S ?s"
    using ok get(2) by (simp_all add: bs_ok_def frame_def values_of_def cache_value_def fun_eq_iff)
  ultimately show ?thesis using charge_gas [OF g] by (simp add: effect_def)
qed
lemma data_source_create_effect:
  assumes ok: "bs_ok items S (hc_state c)"
    and run: "data_source_create (me_rt env) (me_he env) name params context block c = Some (r, c')"
  shows "effect env items S c [] ok' c'"
proof -
  obtain q g where g: "charge (me_rt env) CREATE_DATA_SOURCE (Inr ()) (hc_gas c) = (q, g)" by fastforce
  note mono = charge_gas [OF g]
  consider "c' = c\<lparr>hc_gas := g\<rparr>"
    | ds where "bs_in_handler (hc_state c)"
        "c' = c\<lparr>hc_gas := g, hc_state := (hc_state c)\<lparr>handler_created_data_sources := handler_created_data_sources (hc_state c) @ [ds]\<rparr>\<rparr>"
    using run g by (auto simp: data_source_create_def push_created_data_source_def split: sum.splits option.splits if_splits)
  then show ?thesis
  proof cases
    case 1
    then show ?thesis using ok mono by (intro effect_gas) simp_all
  next
    case 2
    then show ?thesis using ok mono by (simp add: effect_def bs_ok_def frame_def values_of_def)
  qed
qed

lemma with_gas_effect:
  assumes ok: "bs_ok items S (hc_state (wi_ctx w))" and "with_gas env f w = (t, w')"
    and "\<And>g r g'. f g = (r, g') \<Longrightarrow> unat g \<le> unat g'"
  shows "effect env items S (wi_ctx w) [] ok' (wi_ctx w')"
proof -
  obtain r g where f: "f (hc_gas (wi_ctx w)) = (r, g)" by fastforce
  then have "w' = snd (link_deterministic env r (w\<lparr>wi_ctx := (wi_ctx w)\<lparr>hc_gas := g\<rparr>\<rparr>))"
    using assms(2) by (simp add: with_gas_def)
  then show ?thesis using ok assms(3) [OF f] by (intro effect_gas) simp_all
qed

lemma big_int_call_gas: "big_int_call rt op g = (r, g') \<Longrightarrow> unat g \<le> unat g'"
  by (cases op)
    (auto simp: big_int_plus_def big_int_minus_def big_int_times_def big_int_divided_by_def big_int_mod_def
      big_int_pow_def big_int_bit_or_def big_int_bit_and_def big_int_left_shift_def big_int_right_shift_def
      dest: charge_gas)

lemma log_log_gas: "log_log rt l m g = (r, g') \<Longrightarrow> unat g \<le> unat g'"
  and data_source_address_gas: "data_source_address rt he g = (r1, g') \<Longrightarrow> unat g \<le> unat g'"
  and data_source_network_gas: "data_source_network rt he g = (r2, g') \<Longrightarrow> unat g \<le> unat g'"
  and data_source_context_gas: "data_source_context rt he g = (r3, g') \<Longrightarrow> unat g \<le> unat g'"
  by (auto simp: log_log_def data_source_address_def data_source_network_def data_source_context_def dest: charge_gas)

lemma raw_new_effect:
  assumes ok: "bs_ok items S (hc_state (wi_ctx w))" and run: "raw_new env n a m w = Some (r, w')"
  shows "effect env items S (wi_ctx w) [] ok' (wi_ctx w')"
proof -
  obtain q g where g: "charge (me_rt env) (GAS_COST_STORE * of_nat n) (Inr ()) (hc_gas (wi_ctx w)) = (q, g)" by fastforce
  have "wi_ctx w' = (wi_ctx w)\<lparr>hc_gas := g\<rparr>"
    using run g by (auto simp: raw_new_def Let_def split: sum.splits if_splits prod.splits)
  then show ?thesis using ok charge_gas [OF g] by (intro effect_gas) simp_all
qed

lemma heap_get_effect:
  assumes ok: "bs_ok items S (hc_state (wi_ctx w))" and run: "heap_get env n b w = (r, w')"
  shows "effect env items S (wi_ctx w) [] ok' (wi_ctx w')"
proof -
  obtain q g where g: "charge (me_rt env) (GAS_COST_LOAD * of_nat n)
      (if b then Inr () else Inl (DHE_Other HeapOutOfBounds)) (hc_gas (wi_ctx w)) = (q, g)" by fastforce
  have "wi_ctx w' = (wi_ctx w)\<lparr>hc_gas := g\<rparr>" using run g by (auto simp: heap_get_def)
  then show ?thesis using ok charge_gas [OF g] by (intro effect_gas) simp_all
qed

lemma gas_function_effect:
  assumes ok: "bs_ok items S (hc_state (wi_ctx w))" and run: "gas_function env n w = (t, w')"
  shows "effect env items S (wi_ctx w) [] ok' (wi_ctx w')"
proof -
  obtain q g where g: "charge (me_rt env) (of_nat (unat n)) (Inr ()) (hc_gas (wi_ctx w)) = (q, g)" by fastforce
  have "wi_ctx w' = (wi_ctx w)\<lparr>hc_gas := g\<rparr>" using run g by (auto simp: gas_function_def)
  then show ?thesis using ok charge_gas [OF g] by (intro effect_gas) simp_all
qed

text \<open>A linked function has the effect of the function.\<close>

lemma link_host_result: "link_host env r w1 = (t, w') \<Longrightarrow> wi_ctx w' = wi_ctx w1 \<and> (t = None \<longleftrightarrow> (\<exists>a. r = Inr a))"
  by (metis fst_conv snd_conv link_simps(3,4))

lemma link_det_result: "link_deterministic env r w1 = (t, w') \<Longrightarrow> wi_ctx w' = wi_ctx w1"
  by (metis snd_conv link_simps(5))

lemma link_heap_result: "link_heap env k r w1 = (t, w') \<Longrightarrow> wi_ctx w' = wi_ctx w1"
  by (metis snd_conv link_simps(7))

lemma exec_call_effect:
  assumes R: "entity_reader (rt_cache (me_rt env)) items S" and ok: "bs_ok items S (hc_state (wi_ctx w))"
    and wf: "call_wf c" and run: "exec_call env c w = Some (t, w')"
  shows "\<exists>es. effect env items S (wi_ctx w) es (t = None) (wi_ctx w') \<and> (reads_only c \<longrightarrow> es = []) \<and> length es \<le> 1"
proof (cases c)
  case (Call_store_set ty i data)
  then obtain r ctx where s: "store_set (me_rt env) (me_he env) ty i data (wi_ctx w) = Some (r, ctx)"
    and l: "link_host env (case r of Inl e \<Rightarrow> Inl (host_error_from_anyhow e) | Inr u \<Rightarrow> Inr u) (w\<lparr>wi_ctx := ctx\<rparr>) = (t, w')"
    using run by (auto split: option.splits)
  have "wi_ctx w' = ctx" "t = None \<longleftrightarrow> r = Inr ()"
    using link_host_result [OF l] by (auto split: sum.splits)
  then show ?thesis
    using store_set_effect [OF R ok _ s] wf Call_store_set by (intro exI [of _ "[SetEntity ty i data]"]) simp
next
  case (Call_store_remove ty i)
  then obtain r ctx where s: "store_remove (me_rt env) (me_he env) ty i (wi_ctx w) = Some (r, ctx)"
    and l: "link_host env r (w\<lparr>wi_ctx := ctx\<rparr>) = (t, w')"
    using run by (auto split: option.splits)
  have "wi_ctx w' = ctx" "t = None \<longleftrightarrow> r = Inr ()" using link_host_result [OF l] by auto
  then show ?thesis
    using store_remove_effect [OF ok s] Call_store_remove by (intro exI [of _ "[RemoveEntity ty i]"]) simp
next
  case (Call_store_get ty i)
  obtain r ctx where s: "host_store_get (me_rt env) (me_he env) ty i (wi_ctx w) = (r, ctx)" by fastforce
  with Call_store_get run have l: "link_host env (case r of Inl e \<Rightarrow> Inl (host_error_from_anyhow e) | Inr v \<Rightarrow> Inr v) (w\<lparr>wi_ctx := ctx\<rparr>) = (t, w')"
    by simp
  have "wi_ctx w' = ctx" "t = None \<longleftrightarrow> (\<exists>v. r = Inr v)"
    using link_host_result [OF l] by (auto split: sum.splits)
  then show ?thesis using store_get_effect [OF R ok s] by (intro exI [of _ "[]"]) simp
next
  case (Call_data_source_create name params ctxt)
  then obtain r ctx where s: "data_source_create (me_rt env) (me_he env) name params ctxt (ptr_number (me_block_ptr env)) (wi_ctx w) = Some (r, ctx)"
    and l: "link_host env r (w\<lparr>wi_ctx := ctx\<rparr>) = (t, w')"
    using run by (auto split: option.splits)
  then show ?thesis
    using data_source_create_effect [OF ok s] link_host_result [OF l] by (intro exI [of _ "[]"]) simp
next
  case (Call_abort message fname line column)
  then obtain e g where a: "abort (me_rt env) message fname (zero_none line) (zero_none column) (hc_gas (wi_ctx w)) = Some (e, g)"
    and l: "link_deterministic env (Inl e :: (_, unit) result) (w\<lparr>wi_ctx := (wi_ctx w)\<lparr>hc_gas := g\<rparr>\<rparr>) = (t, w')"
    using run by (auto split: option.splits)
  obtain q g1 where g1: "charge (me_rt env) DEFAULT_BASE_COST (Inr ()) (hc_gas (wi_ctx w)) = (q, g1)" by fastforce
  then have "g = g1" using a by (auto simp: abort_def split: sum.splits option.splits)
  then show ?thesis
    using charge_gas [OF g1] link_det_result [OF l] ok by (intro exI [of _ "[]"]) (simp add: effect_gas)
next
  case (Call_host_fn amount r)
  obtain q g where g: "charge (me_rt env) amount (Inr ()) (hc_gas (wi_ctx w)) = (q, g)" by fastforce
  obtain r' :: "(_, unit) result" where l: "link_host env r' (w\<lparr>wi_ctx := (wi_ctx w)\<lparr>hc_gas := g\<rparr>\<rparr>) = (t, w')"
    using run Call_host_fn g by (cases q) auto
  then show ?thesis
    using charge_gas [OF g] link_host_result [OF l] ok by (intro exI [of _ "[]"]) (simp add: effect_gas)
next
  case (Heap_new k n a m)
  then obtain r w1 where n: "raw_new env n a m w = Some (r, w1)" and l: "link_heap env k r w1 = (t, w')"
    using run by (auto split: option.splits)
  then show ?thesis using raw_new_effect [OF ok n] link_heap_result [OF l] by (intro exI [of _ "[]"]) simp
next
  case (Heap_get k n b)
  obtain r w1 where n: "heap_get env n b w = (r, w1)" by fastforce
  then have l: "link_heap env k r w1 = (t, w')" using run Heap_get by simp
  then show ?thesis using heap_get_effect [OF ok n] link_heap_result [OF l] by (intro exI [of _ "[]"]) simp
next
  case (Call_gas n)
  then have "gas_function env n w = (t, w')" using run by simp
  then show ?thesis using gas_function_effect [OF ok] by (intro exI [of _ "[]"]) simp
next
  case (Call_big_int op)
  then have "with_gas env (big_int_call (me_rt env) op) w = (t, w')" using run by simp
  from with_gas_effect [OF ok this big_int_call_gas] show ?thesis by (intro exI [of _ "[]"]) simp
next
  case (Call_log_log l m)
  then have "with_gas env (log_log (me_rt env) l m) w = (t, w')" using run by simp
  from with_gas_effect [OF ok this log_log_gas] show ?thesis by (intro exI [of _ "[]"]) simp
next
  case Call_data_source_address
  then have "with_gas env (data_source_address (me_rt env) (me_he env)) w = (t, w')" using run by simp
  from with_gas_effect [OF ok this data_source_address_gas] show ?thesis by (intro exI [of _ "[]"]) simp
next
  case Call_data_source_network
  then have "with_gas env (data_source_network (me_rt env) (me_he env)) w = (t, w')" using run by simp
  from with_gas_effect [OF ok this data_source_network_gas] show ?thesis by (intro exI [of _ "[]"]) simp
next
  case Call_data_source_context
  then have "with_gas env (data_source_context (me_rt env) (me_he env)) w = (t, w')" using run by simp
  from with_gas_effect [OF ok this data_source_context_gas] show ?thesis by (intro exI [of _ "[]"]) simp
qed

section \<open>A whole run\<close>

lemma run_code_effect:
  assumes R: "entity_reader (rt_cache (me_rt env)) items S" and "bs_ok items S (hc_state (wi_ctx w))"
    and "list_all call_wf cs" and "run_code env cs fin w = Some (t, w')"
  shows "\<exists>es. effect env items S (wi_ctx w) es (t = None) (wi_ctx w') \<and> (list_all reads_only cs \<longrightarrow> es = [])"
  using assms(2-)
proof (induction cs arbitrary: w)
  case Nil
  then show ?case by (intro exI [of _ "[]"]) (simp add: effect_gas)
next
  case (Cons c cs)
  obtain t1 w1 where c: "exec_call env c w = Some (t1, w1)" using Cons.prems(3) by (auto split: option.splits)
  obtain es where es: "effect env items S (wi_ctx w) es (t1 = None) (wi_ctx w1)" "reads_only c \<longrightarrow> es = []"
    using exec_call_effect [OF R Cons.prems(1) _ c] Cons.prems(2) by auto
  show ?case
  proof (cases t1)
    case None
    with c Cons.prems(3) have run: "run_code env cs fin w1 = Some (t, w')" by simp
    have "bs_ok items S (hc_state (wi_ctx w1))" using effectD(5) [OF es(1)] .
    from Cons.IH [OF this _ run] Cons.prems(2) obtain es' where
      es': "effect env items S (wi_ctx w1) es' (t = None) (wi_ctx w')" "list_all reads_only cs \<longrightarrow> es' = []"
      by auto
    have "effect env items S (wi_ctx w) (es @ es') (t = None) (wi_ctx w')"
      using effect_trans [OF _ es'(1)] es(1) None by simp
    with es(2) es'(2) show ?thesis by (intro exI [of _ "es @ es'"]) simp
  next
    case (Some x)
    with c Cons.prems(3) have "t = Some x" "w' = w1" by simp_all
    with es Some show ?thesis by (intro exI [of _ es]) simp
  qed
qed
section \<open>Handlers\<close>

text \<open>
  A module whose start function does not change entities, and whose handlers pass well-formed data
  to the store.
\<close>

definition module_wf :: "('e, 'q, 'd, 't, 's, 'h) wasm_module \<Rightarrow> bool" where
  "module_wf m \<longleftrightarrow>
     (\<forall>code c. wm_start m = Some code \<longrightarrow> list_all reads_only (fst (code c))) \<and>
     (\<forall>n code c. wm_handler m n = Some (Handler code) \<longrightarrow> list_all call_wf (fst (code c)))"

lemma reads_only_wf: "list_all reads_only cs \<Longrightarrow> list_all call_wf cs"
proof -
  have "reads_only c \<Longrightarrow> call_wf c" for c :: "'e host_call" by (cases c) simp_all
  then show "list_all reads_only cs \<Longrightarrow> list_all call_wf cs" by (auto simp: list_all_iff)
qed

text \<open>
  What a trigger does to the block: it adds events to the proof of indexing, and either its changes
  are the ones of the events, or it adds an error and changes nothing.
\<close>

definition handled ::
  "('e, 'q, 't, 's, 'h) mapping_env \<Rightarrow> _ \<Rightarrow> (EntityKey \<Rightarrow> Entity option) \<Rightarrow> ('q, 'd, 't) BlockState \<Rightarrow>
   ('s, 'h) ProofOfIndexing option \<Rightarrow> ProofOfIndexingEvent list \<Rightarrow> ('q, 'd, 't) BlockState \<Rightarrow>
   ('s, 'h) ProofOfIndexing option \<Rightarrow> bool" where
  "handled env items S s poi es s' poi' \<longleftrightarrow>
     list_all is_change es \<and> list_all event_wf es \<and> length es < 2 ^ 64 \<and>
     (\<forall>n es0 hs. poi_records (rt_hash (me_rt env)) n poi (he_causality_region (me_he env)) es0 hs \<longrightarrow>
        poi_records (rt_hash (me_rt env)) n poi' (he_causality_region (me_he env)) (es0 @ es) hs) \<and>
     (poi' = None \<longleftrightarrow> poi = None) \<and>
     bs_ok items S s' \<and> \<not> bs_in_handler s' \<and>
     EntityCache.data_sources (entity_cache s') = EntityCache.data_sources (entity_cache s) \<and>
     (deterministic_errors s' = deterministic_errors s \<and>
        same_values (values_of S s') (fold (apply_event (rt_cache (me_rt env)) (he_subgraph_id (me_he env))) es (values_of S s)) \<or>
      (\<exists>e. deterministic_errors s' = deterministic_errors s @ [e]) \<and> values_of S s' = values_of S s \<and>
        created_data_sources s' = created_data_sources s)"

lemma effect_length:
  assumes "effect env items S c es ok c'"
  shows "length es < 2 ^ 64"
proof -
  have "10000 * length es \<le> unat (hc_gas c') + 10000" using effectD(8) [OF assms] by (cases ok) simp_all
  moreover have "unat (hc_gas c') \<le> 2 ^ 64 - 1" using unat_le_max [of "hc_gas c'"] by simp
  ultimately show ?thesis by simp
qed

lemma effect_updates:
  assumes "effect env items S c es ok c'" and "bs_in_handler (hc_state c) \<or> es = []"
    and "updates (entity_cache (hc_state c)) = ups"
  shows "updates (entity_cache (hc_state c')) = ups"
  using effectD(7) [OF assms(1,2)] assms(3) by simp

lemma bs_exit_handler_values:
  assumes R: "entity_reader env items S" and ok: "bs_ok items S s" and "bs_in_handler s"
  shows "\<exists>s'. bs_exit_handler s = Inr s' \<and> bs_ok items S s' \<and> \<not> bs_in_handler s' \<and>
    deterministic_errors s' = deterministic_errors s \<and> same_values (values_of S s') (values_of S s) \<and>
    EntityCache.data_sources (entity_cache s') = EntityCache.data_sources (entity_cache s)"
proof -
  have c: "cache_ok items S (entity_cache s)" "in_handler (entity_cache s)" using ok assms(3) by (auto simp: bs_ok_def)
  obtain c' where c': "exit_handler (entity_cache s) = Inr c'" "cache_ok items S c'" "\<not> in_handler c'"
      "\<forall>k. same_entity (cache_value S c' k) (cache_value S (entity_cache s) k)"
    using entity_reader.exit_handler_spec [OF R c] by blast
  have "EntityCache.data_sources c' = EntityCache.data_sources (entity_cache s)"
    using c'(1) c(2) by (auto simp: exit_handler_def fold_entity_op_outside)
  with c' assms(3) show ?thesis
    by (simp add: bs_exit_handler_def bs_ok_def values_of_def same_values_def)
qed

lemma bs_discard_values:
  assumes ok: "bs_ok items S s" and "bs_in_handler s"
  shows "\<exists>s'. bs_exit_handler_and_discard_changes_due_to_error e s = Inr s' \<and> bs_ok items S s' \<and> \<not> bs_in_handler s' \<and>
    deterministic_errors s' = deterministic_errors s @ [e] \<and> created_data_sources s' = created_data_sources s \<and>
    updates (entity_cache s') = updates (entity_cache s) \<and> handler_updates (entity_cache s') = [] \<and>
    EntityCache.data_sources (entity_cache s') = EntityCache.data_sources (entity_cache s)"
  using assms
  by (auto simp: bs_exit_handler_and_discard_changes_due_to_error_def exit_handler_and_discard_changes_def bs_ok_def cache_ok_def)

lemma values_of_updates:
  assumes "bs_ok items S s" and "\<not> bs_in_handler s" and "updates (entity_cache s') = updates (entity_cache s)"
    and "handler_updates (entity_cache s') = []"
  shows "values_of S s' = values_of S s"
  using assms by (auto simp: values_of_def cache_value_def bs_ok_def cache_ok_def fun_eq_iff)

lemma classify_Finished: "classify t w = Finished \<longleftrightarrow> t = None"
  by (cases "(t, w)" rule: classify.cases) auto

lemma invoke_handler_handled:
  assumes R: "entity_reader (rt_cache (me_rt env)) items S" and ok: "bs_ok items S (hc_state (wi_ctx w))"
    and out: "\<not> bs_in_handler (hc_state (wi_ctx w))" and wf: "module_wf m"
    and run: "invoke_handler env m handler w = Some (Inr (s', g), poi')"
  shows "\<exists>es. handled env items S (hc_state (wi_ctx w)) (hc_poi (wi_ctx w)) es s' poi'"
proof -
  let ?s = "hc_state (wi_ctx w)"
  let ?s1 = "?s\<lparr>bs_in_handler := True, entity_cache := (entity_cache ?s)\<lparr>in_handler := True\<rparr>\<rparr>"
  let ?w1 = "w\<lparr>wi_ctx := (wi_ctx w)\<lparr>hc_state := ?s1\<rparr>\<rparr>"
  note enter = bs_enter_handler_ok [OF ok out]
  have vals1: "values_of S ?s1 = values_of S ?s" by (simp add: values_of_def cache_value_def fun_eq_iff)
  obtain code where code: "wm_handler m handler = Some (Handler code)"
    using run by (auto simp: invoke_handler_def enter(1) Let_def split: option.splits handler.splits)
  let ?run = "run_code env (fst (code (wi_ctx ?w1))) (snd (code (wi_ctx ?w1))) ?w1"
  obtain t w2 where w2: "?run = Some (t, w2)"
    using run by (auto simp: invoke_handler_def enter(1) Let_def code split: option.splits)
  have "list_all call_wf (fst (code (wi_ctx ?w1)))" using wf code by (simp add: module_wf_def)
  then obtain es where es: "effect env items S (wi_ctx ?w1) es (t = None) (wi_ctx w2)"
    using run_code_effect [OF R _ _ w2] enter(2) by auto
  let ?s2 = "hc_state (wi_ctx w2)"
  note d = effectD [OF es]
  have in2: "bs_in_handler ?s2" "deterministic_errors ?s2 = deterministic_errors ?s"
    "created_data_sources ?s2 = created_data_sources ?s"
    "EntityCache.data_sources (entity_cache ?s2) = EntityCache.data_sources (entity_cache ?s)"
    using d(6) by (simp_all add: frame_def)
  have poi2: "poi_records (rt_hash (me_rt env)) n (hc_poi (wi_ctx w)) (he_causality_region (me_he env)) es0 hs \<Longrightarrow>
      poi_records (rt_hash (me_rt env)) n (hc_poi (wi_ctx w2)) (he_causality_region (me_he env)) (es0 @ es) hs" for n es0 hs
    using d(3) [of n es0 hs] by simp
  have run2: "(case classify t w2 of
        Finished \<Rightarrow> (case bs_exit_handler ?s2 of Inl _ \<Rightarrow> None | Inr s2 \<Rightarrow> Some (Inr (s2, hc_gas (wi_ctx w2)), hc_poi (wi_ctx w2)))
      | Failed_With message \<Rightarrow>
          (case bs_exit_handler_and_discard_changes_due_to_error (handler_error env handler message) ?s2 of
             Inl _ \<Rightarrow> None | Inr s2 \<Rightarrow> Some (Inr (s2, hc_gas (wi_ctx w2)), hc_poi (wi_ctx w2)))
      | Aborted_With e \<Rightarrow> (case bs_exit_handler ?s2 of Inl _ \<Rightarrow> None | Inr _ \<Rightarrow> Some (Inl e, hc_poi (wi_ctx w2)))) =
      Some (Inr (s', g), poi')"
    using run w2 by (simp add: invoke_handler_def enter(1) Let_def code)
  then have "(\<exists>m. classify t w2 = Failed_With m) \<or> (classify t w2 = Finished \<and> t = None)"
    by (cases "classify t w2") (auto simp: classify_Finished split: sum.splits)
  then show ?thesis
  proof
    assume "classify t w2 = Finished \<and> t = None"
    then have t: "t = None" "classify t w2 = Finished" by auto
    obtain s3 where s3: "bs_exit_handler ?s2 = Inr s3" "bs_ok items S s3" "\<not> bs_in_handler s3"
        "deterministic_errors s3 = deterministic_errors ?s2" "same_values (values_of S s3) (values_of S ?s2)"
        "EntityCache.data_sources (entity_cache s3) = EntityCache.data_sources (entity_cache ?s2)"
      using bs_exit_handler_values [OF R d(5) in2(1)] by blast
    have eq: "s' = s3" "poi' = hc_poi (wi_ctx w2)"
      using run2 t s3(1) by simp_all
    have "same_values (values_of S s3)
        (fold (apply_event (rt_cache (me_rt env)) (he_subgraph_id (me_he env))) es (values_of S ?s))"
      using same_values_trans [OF s3(5) d(9)] t(1) vals1 by simp
    then show ?thesis
      using d(1,2,4) effect_length [OF es] poi2 s3 in2 eq unfolding handled_def by (intro exI [of _ es]) simp
  next
    assume "\<exists>m. classify t w2 = Failed_With m"
    then obtain msg where t: "classify t w2 = Failed_With msg" by auto
    let ?e = "handler_error env handler msg"
    obtain s3 where s3: "bs_exit_handler_and_discard_changes_due_to_error ?e ?s2 = Inr s3" "bs_ok items S s3"
        "\<not> bs_in_handler s3" "deterministic_errors s3 = deterministic_errors ?s2 @ [?e]"
        "created_data_sources s3 = created_data_sources ?s2" "updates (entity_cache s3) = updates (entity_cache ?s2)"
        "handler_updates (entity_cache s3) = []"
        "EntityCache.data_sources (entity_cache s3) = EntityCache.data_sources (entity_cache ?s2)"
      using bs_discard_values [OF d(5) in2(1)] by blast
    have eq: "s' = s3" "poi' = hc_poi (wi_ctx w2)"
      using run2 t s3(1) by simp_all
    have "updates (entity_cache ?s2) = updates (entity_cache ?s)" using d(7) by simp
    then have "values_of S s3 = values_of S ?s" using s3 by (intro values_of_updates [OF ok out]) simp_all
    then show ?thesis
      using d(1,2,4) effect_length [OF es] poi2 s3 in2 eq unfolding handled_def by (intro exI [of _ es]) simp
  qed
qed
text \<open>Calls outside of a handler that add no events do not matter.\<close>

lemma handled_after:
  assumes ok: "bs_ok items S (hc_state c)" "\<not> bs_in_handler (hc_state c)"
    and eff: "effect env items S c [] r c1" and h: "handled env items S (hc_state c1) (hc_poi c1) es s' poi'"
  shows "handled env items S (hc_state c) (hc_poi c) es s' poi'"
proof -
  note d = effectD [OF eff]
  have f: "\<not> bs_in_handler (hc_state c1)" "deterministic_errors (hc_state c1) = deterministic_errors (hc_state c)"
    "created_data_sources (hc_state c1) = created_data_sources (hc_state c)"
    "EntityCache.data_sources (entity_cache (hc_state c1)) = EntityCache.data_sources (entity_cache (hc_state c))"
    using d(6) ok(2) by (simp_all add: frame_def)
  have "handler_updates (entity_cache (hc_state c1)) = []" using d(5) f(1) by (simp add: bs_ok_def cache_ok_def)
  then have v: "values_of S (hc_state c1) = values_of S (hc_state c)"
    using d(7) by (intro values_of_updates [OF ok]) simp_all
  have p: "poi_records (rt_hash (me_rt env)) n poi' (he_causality_region (me_he env)) (es0 @ es) hs"
    if "poi_records (rt_hash (me_rt env)) n (hc_poi c) (he_causality_region (me_he env)) es0 hs" for n es0 hs
    using h d(3) [OF that] by (simp add: handled_def)
  show ?thesis
    using h p d(4) unfolding handled_def f v by simp
qed

lemma allocate_argument_effect:
  assumes "bs_ok items S (hc_state (wi_ctx w))" and "allocate_argument env as w = Some (r, w')"
  shows "effect env items S (wi_ctx w) [] True (wi_ctx w')"
  using assms
proof (induction as arbitrary: w)
  case Nil
  then show ?case by (simp add: effect_refl)
next
  case (Cons a as)
  obtain n al m where a: "a = (n, al, m)" by (cases a)
  obtain q w1 where w1: "raw_new env n al m w = Some (q, w1)"
    using Cons.prems(2) a by (auto split: option.splits)
  have e: "effect env items S (wi_ctx w) [] True (wi_ctx w1)" by (rule raw_new_effect [OF Cons.prems(1) w1])
  show ?case
  proof (cases q)
    case (Inl x)
    then show ?thesis using Cons.prems(2) a w1 e by simp
  next
    case (Inr x)
    then have "allocate_argument env as w1 = Some (r, w')" using Cons.prems(2) a w1 by simp
    from effect_trans [OF e Cons.IH [OF effectD(5) [OF e] this]] show ?thesis by simp
  qed
qed

lemma instantiate_handled:
  assumes R: "entity_reader (rt_cache (me_rt env)) items S" and ok: "bs_ok items S s" "\<not> bs_in_handler s"
    and wf: "module_wf m" and run: "instantiate_module_and_handle_trigger env m trigger s poi = Some (Inr (s', g), poi')"
  shows "\<exists>es. handled env items S s poi es s' poi'"
proof -
  let ?w = "\<lparr>wi_ctx = \<lparr>hc_state = s, hc_poi = poi, hc_gas = 0\<rparr>, possible_reorg = False,
    deterministic_host_trap = False, arena_start_ptr = 0, arena_free_size = 0\<rparr>"
  obtain w1 where w1: "from_valid_module_with_ctx env m s poi = Some (Inr (), w1)"
    and run1: "handle_trigger env m trigger w1 = Some (Inr (s', g), poi')"
    using run by (auto simp: instantiate_module_and_handle_trigger_def split: option.splits sum.splits)
  obtain cs fin where reads: "list_all reads_only cs" and start: "run_code env cs fin ?w = Some (None, w1)"
  proof (cases "wm_start m")
    case None
    then have "w1 = ?w" using w1 by (auto simp: from_valid_module_with_ctx_def Let_def split: if_splits)
    then show ?thesis by (intro that [of "[]" None]) simp_all
  next
    case (Some code)
    then have "run_code env (fst (code (wi_ctx ?w))) (snd (code (wi_ctx ?w))) ?w = Some (None, w1)"
      using w1 by (auto simp: from_valid_module_with_ctx_def Let_def split: option.splits trap.splits)
    moreover have "list_all reads_only (fst (code (wi_ctx ?w)))" using wf Some by (simp add: module_wf_def)
    ultimately show ?thesis by (rule that [rotated])
  qed
  have e1: "effect env items S (wi_ctx ?w) [] True (wi_ctx w1)"
    using run_code_effect [OF R _ reads_only_wf [OF reads] start] reads ok(1) by auto
  obtain w2 where w2: "allocate_argument env (tr_allocations trigger) w1 = Some (Inr (), w2)"
    and run2: "invoke_handler env m (handler_name trigger) w2 = Some (Inr (s', g), poi')"
    using run1 by (auto simp: handle_trigger_def split: option.splits sum.splits)
  have e2: "effect env items S (wi_ctx w1) [] True (wi_ctx w2)"
    by (rule allocate_argument_effect [OF effectD(5) [OF e1] w2])
  have e: "effect env items S (wi_ctx ?w) [] True (wi_ctx w2)" using effect_trans [OF e1 e2] by simp
  have "\<not> bs_in_handler (hc_state (wi_ctx w2))" using effectD(6) [OF e] ok(2) by (simp add: frame_def)
  then obtain es where "handled env items S (hc_state (wi_ctx w2)) (hc_poi (wi_ctx w2)) es s' poi'"
    using invoke_handler_handled [OF R effectD(5) [OF e] _ wf run2] by blast
  from handled_after [OF _ _ e this] ok show ?thesis by auto
qed

end
