(* ===== verification/Subgraph_Instance.thy ===== *)
theory Subgraph_Instance
  imports Handler_Runs "HOL-Library.Option_ord"
begin

text \<open>
  The instance of a subgraph (\<^verbatim>\<open>core/src/subgraph/instance.rs\<close>): one runtime host for each data source,
  in the order of their creation, and how a trigger is processed by the hosts that match it
  (\<^verbatim>\<open>runtime/wasm/src/host.rs\<close>). What depends on the blockchain is the record \<open>chain\<close>.
\<close>

section \<open>Hosts\<close>

record ('e, 'q, 'd, 't, 's, 'h, 'ds) RuntimeHost =
  rh_data_source :: 'ds
  rh_exports :: "'t HostExports"
  rh_new_api :: bool
  rh_module :: "('e, 'q, 'd, 't, 's, 'h) wasm_module"

text \<open>
  The methods of the data sources of a chain; \<open>spawn_mapping\<close> compiles the module of a data source and
  \<open>host_fns\<close> are the functions that the chain adds, of which only the failure matters.
\<close>

record ('e, 'q, 'd, 't, 's, 'h, 'ds, 'trigger) chain =
  ds_name :: "'ds \<Rightarrow> string"
  ds_address :: "'ds \<Rightarrow> u8 list option"
  ds_context :: "'ds \<Rightarrow> Entity option"
  ds_new_api :: "'ds \<Rightarrow> bool"
  ds_creation_block :: "'ds \<Rightarrow> int option"
  ds_is_duplicate_of :: "'ds \<Rightarrow> 'ds \<Rightarrow> bool"
  ds_match_and_decode :: "'ds \<Rightarrow> 'trigger \<Rightarrow> (string, TriggerWithHandler option) result"
  spawn_mapping :: "'ds \<Rightarrow> (string, ('e, 'q, 'd, 't, 's, 'h) wasm_module) result"
  host_fns :: "'ds \<Rightarrow> (string, unit) result"

record ('e, 'q, 'd, 't, 's, 'h, 'ds) SubgraphInstance =
  si_subgraph_id :: string
  si_network :: string
  si_hosts :: "('e, 'q, 'd, 't, 's, 'h, 'ds) RuntimeHost list"

definition new_host ::
  "('e, 'q, 'd, 't, 's, 'h, 'ds, 'trigger) chain \<Rightarrow> string \<Rightarrow> string \<Rightarrow> 't list \<Rightarrow> 'ds \<Rightarrow>
   (string, ('e, 'q, 'd, 't, 's, 'h, 'ds) RuntimeHost) result" where
  "new_host ch subgraph network templates ds =
     and_then (spawn_mapping ch ds) (\<lambda>m.
     and_then (host_fns ch ds) (\<lambda>_.
       Inr \<lparr>rh_data_source = ds,
            rh_exports = he_new subgraph (ds_name ch ds) (ds_address ch ds) (ds_context ch ds) network templates,
            rh_new_api = ds_new_api ch ds, rh_module = m\<rparr>))"

definition from_manifest ::
  "('e, 'q, 'd, 't, 's, 'h, 'ds, 'trigger) chain \<Rightarrow> string \<Rightarrow> string \<Rightarrow> 't list \<Rightarrow> 'ds list \<Rightarrow>
   (string, ('e, 'q, 'd, 't, 's, 'h, 'ds) SubgraphInstance) result" where
  "from_manifest ch subgraph network templates dss =
     and_then (try_map (new_host ch subgraph network templates) dss) (\<lambda>hosts.
       Inr \<lparr>si_subgraph_id = subgraph, si_network = network, si_hosts = hosts\<rparr>)"

definition creation_block_number ::
  "('e, 'q, 'd, 't, 's, 'h, 'ds, 'trigger) chain \<Rightarrow> ('e, 'q, 'd, 't, 's, 'h, 'ds) RuntimeHost \<Rightarrow> int option" where
  "creation_block_number ch h = ds_creation_block ch (rh_data_source h)"

section \<open>Triggers\<close>

text \<open>
  The mapping of a host runs in a thread of its own: when it panics, the channel for the result is
  closed, which is an error.
\<close>

definition send_mapping_request ::
  "('e, 'q, 't, 's, 'h) runtime \<Rightarrow> BlockPtr \<Rightarrow> ('e, 'q, 'd, 't, 's, 'h, 'ds) RuntimeHost \<Rightarrow> TriggerWithHandler \<Rightarrow>
   ('q, 'd, 't) BlockState \<Rightarrow> ('s, 'h) ProofOfIndexing option \<Rightarrow>
   (MappingError, ('q, 'd, 't) BlockState) result \<times> ('s, 'h) ProofOfIndexing option" where
  "send_mapping_request rt ptr h trigger s poi =
     (case instantiate_module_and_handle_trigger
             \<lparr>me_rt = rt, me_he = rh_exports h, me_block_ptr = ptr, me_new_api = rh_new_api h\<rparr>
             (rh_module h) trigger s poi of
        None \<Rightarrow> (Inl (Unknown ''Mapping terminated before handling trigger''), poi)
      | Some (Inl e, poi1) \<Rightarrow> (Inl e, poi1)
      | Some (Inr (s1, _), poi1) \<Rightarrow> (Inr s1, poi1))"

fun process_hosts ::
  "('e, 'q, 't, 's, 'h) runtime \<Rightarrow> ('e, 'q, 'd, 't, 's, 'h, 'ds, 'trigger) chain \<Rightarrow> BlockPtr \<Rightarrow> 'trigger \<Rightarrow>
   ('e, 'q, 'd, 't, 's, 'h, 'ds) RuntimeHost list \<Rightarrow> ('q, 'd, 't) BlockState \<Rightarrow> ('s, 'h) ProofOfIndexing option \<Rightarrow>
   (MappingError, ('q, 'd, 't) BlockState) result \<times> ('s, 'h) ProofOfIndexing option" where
  "process_hosts rt ch ptr trigger [] s poi = (Inr s, poi)"
| "process_hosts rt ch ptr trigger (h # hosts) s poi =
     (case ds_match_and_decode ch (rh_data_source h) trigger of
        Inl e \<Rightarrow> (Inl (Unknown e), poi)
      | Inr None \<Rightarrow> process_hosts rt ch ptr trigger hosts s poi
      | Inr (Some mapping_trigger) \<Rightarrow>
          (case send_mapping_request rt ptr h mapping_trigger s poi of
             (Inl e, poi1) \<Rightarrow> (Inl e, poi1)
           | (Inr s1, poi1) \<Rightarrow> process_hosts rt ch ptr trigger hosts s1 poi1))"

text \<open>\<open>None\<close> is a panic: of an assertion, or for a negative block number.\<close>

definition process_trigger_in_runtime_hosts ::
  "('e, 'q, 't, 's, 'h) runtime \<Rightarrow> ('e, 'q, 'd, 't, 's, 'h, 'ds, 'trigger) chain \<Rightarrow> BlockPtr \<Rightarrow> string \<Rightarrow>
   ('e, 'q, 'd, 't, 's, 'h, 'ds) RuntimeHost list \<Rightarrow> 'trigger \<Rightarrow>
   ('q, 'd, 't) BlockState \<Rightarrow> ('s, 'h) ProofOfIndexing option \<Rightarrow>
   ((MappingError, ('q, 'd, 't) BlockState) result \<times> ('s, 'h) ProofOfIndexing option) option" where
  "process_trigger_in_runtime_hosts rt ch ptr region hosts trigger s poi =
     (let error_count = length (deterministic_errors s) in
      case (case poi of None \<Rightarrow> Some None | Some p \<Rightarrow> map_option Some (poi_start_handler (rt_hash rt) region p)) of
        None \<Rightarrow> None
      | Some poi1 \<Rightarrow>
          (case process_hosts rt ch ptr trigger hosts s poi1 of
             (Inl e, poi2) \<Rightarrow> Some (Inl e, poi2)
           | (Inr s1, None) \<Rightarrow> Some (Inr s1, None)
           | (Inr s1, Some p2) \<Rightarrow>
               (if length (deterministic_errors s1) = error_count then Some (Inr s1, Some p2)
                else if length (deterministic_errors s1) \<noteq> error_count + 1 then None
                else
                  (case write_deterministic_error (rt_hash rt) region p2 of
                     None \<Rightarrow> None
                   | Some p3 \<Rightarrow> Some (Inr s1, Some p3)))))"

definition process_trigger ::
  "('e, 'q, 't, 's, 'h) runtime \<Rightarrow> ('e, 'q, 'd, 't, 's, 'h, 'ds, 'trigger) chain \<Rightarrow> BlockPtr \<Rightarrow> string \<Rightarrow>
   ('e, 'q, 'd, 't, 's, 'h, 'ds) SubgraphInstance \<Rightarrow> 'trigger \<Rightarrow>
   ('q, 'd, 't) BlockState \<Rightarrow> ('s, 'h) ProofOfIndexing option \<Rightarrow>
   ((MappingError, ('q, 'd, 't) BlockState) result \<times> ('s, 'h) ProofOfIndexing option) option" where
  "process_trigger rt ch ptr region inst = process_trigger_in_runtime_hosts rt ch ptr region (si_hosts inst)"

section \<open>Dynamic data sources\<close>

datatype add_error = Add_Failed string | Add_Panic

definition last_creation_block ::
  "('e, 'q, 'd, 't, 's, 'h, 'ds, 'trigger) chain \<Rightarrow> ('e, 'q, 'd, 't, 's, 'h, 'ds) RuntimeHost list \<Rightarrow> int option" where
  "last_creation_block ch hosts = (if hosts = [] then None else creation_block_number ch (last hosts))"

definition add_dynamic_data_source ::
  "('e, 'q, 'd, 't, 's, 'h, 'ds, 'trigger) chain \<Rightarrow> nat option \<Rightarrow> 't list \<Rightarrow> 'ds \<Rightarrow>
   ('e, 'q, 'd, 't, 's, 'h, 'ds) SubgraphInstance \<Rightarrow>
   (add_error, ('e, 'q, 'd, 't, 's, 'h, 'ds) RuntimeHost option \<times> ('e, 'q, 'd, 't, 's, 'h, 'ds) SubgraphInstance) result" where
  "add_dynamic_data_source ch max_data_sources templates ds inst =
     (if (case max_data_sources of None \<Rightarrow> False | Some n \<Rightarrow> n \<le> length (si_hosts inst))
      then Inl (Add_Failed ''Limit of data sources per subgraph exceeded'')
      else if \<not> last_creation_block ch (si_hosts inst) \<le> ds_creation_block ch ds then Inl Add_Panic
      else
        (case new_host ch (si_subgraph_id inst) (si_network inst) templates ds of
           Inl e \<Rightarrow> Inl (Add_Failed e)
         | Inr host \<Rightarrow>
             Inr (if list_ex (\<lambda>h. ds_is_duplicate_of ch (rh_data_source h) (rh_data_source host)) (si_hosts inst)
                  then (None, inst)
                  else (Some host, inst\<lparr>si_hosts := si_hosts inst @ [host]\<rparr>))))"

definition revert_data_sources ::
  "('e, 'q, 'd, 't, 's, 'h, 'ds, 'trigger) chain \<Rightarrow> int \<Rightarrow> ('e, 'q, 'd, 't, 's, 'h, 'ds) SubgraphInstance \<Rightarrow>
   ('e, 'q, 'd, 't, 's, 'h, 'ds) SubgraphInstance" where
  "revert_data_sources ch reverted_block inst =
     inst\<lparr>si_hosts := rev (dropWhile (\<lambda>h. Some reverted_block \<le> creation_block_number ch h) (rev (si_hosts inst)))\<rparr>"

section \<open>The events of a block\<close>

text \<open>Hosts of the instance: they write to the region of the network, for the subgraph.\<close>

definition host_wf :: "string \<Rightarrow> string \<Rightarrow> ('e, 'q, 'd, 't, 's, 'h, 'ds) RuntimeHost \<Rightarrow> bool" where
  "host_wf region sid h \<longleftrightarrow>
     he_causality_region (rh_exports h) = region \<and> he_subgraph_id (rh_exports h) = sid \<and> module_wf (rh_module h)"

definition matches ::
  "('e, 'q, 'd, 't, 's, 'h, 'ds, 'trigger) chain \<Rightarrow> 'trigger \<Rightarrow> ('e, 'q, 'd, 't, 's, 'h, 'ds) RuntimeHost \<Rightarrow> bool" where
  "matches ch trigger h \<longleftrightarrow> ds_match_and_decode ch (rh_data_source h) trigger \<noteq> Inr None"

text \<open>
  While a block is processed, the events that count in the proof of indexing lead from the
  entities \<open>V\<close> at the beginning of the block to those that the cache presents.
\<close>

definition block_inv ::
  "('e, 'q, 't, 's, 'h) runtime \<Rightarrow> int \<Rightarrow> string \<Rightarrow> string \<Rightarrow> _ \<Rightarrow> (EntityKey \<Rightarrow> Entity option) \<Rightarrow>
   (EntityKey \<Rightarrow> Entity option) \<Rightarrow> ProofOfIndexingEvent list \<Rightarrow> ('q, 'd, 't) BlockState \<Rightarrow>
   ('s, 'h) ProofOfIndexing option \<Rightarrow> bool" where
  "block_inv rt n region sid items S V es s poi \<longleftrightarrow>
     bs_ok items S s \<and> \<not> bs_in_handler s \<and> (\<exists>hs. poi_records (rt_hash rt) n poi region es hs) \<and> list_all event_wf es \<and>
     same_values (values_of S s) (fold (apply_event (rt_cache rt) sid) (effective es) V)"

lemma process_hosts_filter:
  "process_hosts rt ch ptr trigger hosts s poi = process_hosts rt ch ptr trigger (filter (matches ch trigger) hosts) s poi"
proof (induction hosts arbitrary: s poi)
  case (Cons h hosts)
  then show ?case by (auto simp: matches_def split: sum.splits option.splits prod.splits)
qed simp

lemma send_mapping_request_handled:
  assumes R: "entity_reader (rt_cache rt) items S" and ok: "bs_ok items S s" "\<not> bs_in_handler s"
    and h: "host_wf region sid h" and run: "send_mapping_request rt ptr h trigger s poi = (Inr s', poi')"
  shows "\<exists>es. handled \<lparr>me_rt = rt, me_he = rh_exports h, me_block_ptr = ptr, me_new_api = rh_new_api h\<rparr> items S s poi es s' poi'"
proof -
  let ?env = "\<lparr>me_rt = rt, me_he = rh_exports h, me_block_ptr = ptr, me_new_api = rh_new_api h\<rparr>"
  obtain g where "instantiate_module_and_handle_trigger ?env (rh_module h) trigger s poi = Some (Inr (s', g), poi')"
    using run by (auto simp: send_mapping_request_def split: option.splits sum.splits)
  then show ?thesis using instantiate_handled [of ?env items S s "rh_module h"] R ok h by (simp add: host_wf_def)
qed

lemma effective_subset: "set (effective es) \<subseteq> set es"
proof -
  have "\<forall>x. Some x \<in> set (fold mark es ms) \<longrightarrow> x \<in> set es \<or> Some x \<in> set ms" for ms
  proof (induction es arbitrary: ms)
    case (Cons e es)
    have "Some x \<in> set (mark e ms) \<Longrightarrow> x = e \<or> Some x \<in> set ms" for x
      by (cases e) (auto dest: in_set_takeD)
    with Cons.IH [of "mark e ms"] show ?case by auto
  qed simp
  from this [of "[]"] show ?thesis by (auto simp: effective_def marks_def mem_map_filter)
qed

lemma process_trigger_inv:
  assumes R: "entity_reader (rt_cache rt) items S" and inv: "block_inv rt n region sid items S V es s poi"
    and hosts: "list_all (host_wf region sid) hosts" and one: "length (filter (matches ch trigger) hosts) \<le> 1"
    and run: "process_trigger_in_runtime_hosts rt ch ptr region hosts trigger s poi = Some (Inr s', poi')"
  shows "\<exists>es'. block_inv rt n region sid items S V es' s' poi' \<and> (poi' = None \<longleftrightarrow> poi = None)"
proof -
  obtain poi1 where start: "(case poi of None \<Rightarrow> Some None | Some p \<Rightarrow> map_option Some (poi_start_handler (rt_hash rt) region p)) = Some poi1"
    using run unfolding process_trigger_in_runtime_hosts_def Let_def by (auto split: option.splits)
  obtain hs0 where hs0: "poi_records (rt_hash rt) n poi region es hs0" using inv by (auto simp: block_inv_def)
  have poi1: "poi_records (rt_hash rt) n poi1 region es (length es)" "poi1 = None \<longleftrightarrow> poi = None"
  proof -
    show "poi1 = None \<longleftrightarrow> poi = None" using start by (auto split: option.splits)
    show "poi_records (rt_hash rt) n poi1 region es (length es)"
    proof (cases poi)
      case (Some p)
      with hs0 obtain p' where "poi_start_handler (rt_hash rt) region p = Some p'" "records (rt_hash rt) n p' region es (length es)"
        using poi_start_handler_records [of "rt_hash rt" n p region es hs0] by (auto simp: poi_records_def)
      moreover from this have "poi1 = Some p'" using start Some by simp
      ultimately show ?thesis by (simp add: poi_records_def)
    qed (use start in \<open>simp add: poi_records_def\<close>)
  qed
  have ok: "bs_ok items S s" "\<not> bs_in_handler s" "list_all event_wf es"
    and vals: "same_values (values_of S s) (fold (apply_event (rt_cache rt) sid) (effective es) V)"
    using inv by (simp_all add: block_inv_def)
  let ?ms = "filter (matches ch trigger) hosts"
  obtain r poi2 where ph: "process_hosts rt ch ptr trigger ?ms s poi1 = (r, poi2)" by fastforce
  have run1: "(case (r, poi2) of
             (Inl e, poi2) \<Rightarrow> Some (Inl e, poi2)
           | (Inr s1, None) \<Rightarrow> Some (Inr s1, None)
           | (Inr s1, Some p2) \<Rightarrow>
               (if length (deterministic_errors s1) = length (deterministic_errors s) then Some (Inr s1, Some p2)
                else if length (deterministic_errors s1) \<noteq> length (deterministic_errors s) + 1 then None
                else (case write_deterministic_error (rt_hash rt) region p2 of None \<Rightarrow> None | Some p3 \<Rightarrow> Some (Inr s1, Some p3)))) =
      Some (Inr s', poi')"
    using run unfolding process_trigger_in_runtime_hosts_def Let_def start option.case process_hosts_filter [of _ _ _ _ hosts] ph .
  then obtain s1 where s1: "r = Inr s1" by (cases r) auto
  show ?thesis
  proof (cases ?ms)
    case Nil
    then have "s1 = s" "poi2 = poi1" using ph s1 by auto
    then have "s' = s" "poi' = poi1" using run1 s1 by (auto split: option.splits)
    then show ?thesis using poi1 ok vals by (auto simp: block_inv_def)
  next
    case (Cons h ms)
    then have ms: "?ms = [h]" using one by simp
    then have "h \<in> set ?ms" by simp
    then have h: "host_wf region sid h" using hosts by (simp add: list_all_iff)
    obtain mt where mt: "ds_match_and_decode ch (rh_data_source h) trigger = Inr (Some mt)"
      "send_mapping_request rt ptr h mt s poi1 = (Inr s1, poi2)"
      using ph s1 ms Cons by (auto simp: matches_def filter_eq_Cons_iff split: sum.splits option.splits prod.splits)
    let ?env = "\<lparr>me_rt = rt, me_he = rh_exports h, me_block_ptr = ptr, me_new_api = rh_new_api h\<rparr>"
    obtain cs where cs: "handled ?env items S s poi1 cs s1 poi2"
      using send_mapping_request_handled [OF R ok(1,2) h mt(2)] by blast
    have he: "he_causality_region (rh_exports h) = region" "he_subgraph_id (rh_exports h) = sid"
      using h by (simp_all add: host_wf_def)
    have c: "list_all is_change cs" "list_all event_wf cs" "length cs < 2 ^ 64" "poi2 = None \<longleftrightarrow> poi1 = None"
      "bs_ok items S s1" "\<not> bs_in_handler s1"
      using cs by (simp_all add: handled_def)
    have poi2: "poi_records (rt_hash rt) n poi2 region (es @ cs) (length es)"
      using cs poi1(1) he by (simp add: handled_def)
    have "deterministic_errors s1 = deterministic_errors s \<and>
        same_values (values_of S s1) (fold (apply_event (rt_cache rt) sid) cs (values_of S s)) \<or>
      length (deterministic_errors s1) = length (deterministic_errors s) + 1 \<and> values_of S s1 = values_of S s"
      using cs he by (auto simp: handled_def)
    then show ?thesis
    proof
      assume a: "deterministic_errors s1 = deterministic_errors s \<and>
        same_values (values_of S s1) (fold (apply_event (rt_cache rt) sid) cs (values_of S s))"
      then have eq: "s' = s1" "poi' = poi2" using run1 s1 by (auto split: option.splits)
      have "same_values (values_of S s1) (fold (apply_event (rt_cache rt) sid) (effective (es @ cs)) V)"
        using same_values_trans [OF conjunct2 [OF a] fold_apply_event_cong [OF c(2) vals]]
        by (simp add: effective_changes [OF c(1)])
      then have "block_inv rt n region sid items S V (es @ cs) s1 poi2"
        using c(2,5,6) ok(3) poi2 by (auto simp: block_inv_def)
      then show ?thesis using eq c(4) poi1(2) by auto
    next
      assume a: "length (deterministic_errors s1) = length (deterministic_errors s) + 1 \<and> values_of S s1 = values_of S s"
      show ?thesis
      proof (cases poi2)
        case None
        then have "s' = s1" "poi' = None" using run1 s1 by auto
        then have "block_inv rt n region sid items S V es s' poi'"
          using c(5,6) ok(3) a vals by (simp add: block_inv_def poi_records_def)
        then show ?thesis using None c(4) poi1(2) \<open>poi' = None\<close> by auto
      next
        case (Some p2)
        then have rec2: "records (rt_hash rt) n p2 region (es @ cs) (length es)" using poi2 by (simp add: poi_records_def)
        obtain p3 where p3: "write_deterministic_error (rt_hash rt) region p2 = Some p3"
          "records (rt_hash rt) n p3 region ((es @ cs) @ [DeterministicError (of_nat (length cs))]) (length es)"
          using write_deterministic_error_records [OF rec2] by auto
        have eq: "s' = s1" "poi' = Some p3" using run1 s1 Some a p3(1) by auto
        have "effective (es @ cs @ [DeterministicError (of_nat (length cs))]) = effective es"
          by (rule effective_redacted [OF c(1,3)])
        then have "block_inv rt n region sid items S V (es @ cs @ [DeterministicError (of_nat (length cs))]) s1 (Some p3)"
          using c(2,5,6) ok(3) a vals p3(2) by (auto simp: block_inv_def poi_records_def)
        then show ?thesis using eq Some c(4) poi1(2) by auto
      qed
    qed
  qed
qed

end
