(* ===== verification/Runner.thy ===== *)
theory Runner
  imports Subgraph_Instance Deployment_Store Backoff
begin

text \<open>
  The runner of a subgraph (\<^verbatim>\<open>core/src/subgraph/runner.rs\<close>): it processes the triggers of a block, those
  of the data sources that the block creates, adds the proof of indexing and writes the block to
  the store. The store is reached through the methods of the \<open>WritableStore\<close> trait, which act on the
  store \<open>'w\<close>; the block stream and the chain are arguments.
\<close>

section \<open>State\<close>

datatype block_error =
    BP_Unknown string
  | BP_Deterministic SubgraphError
  | BP_Canceled
  | BP_Panic

datatype Action = Continue | Stop | Restart

definition is_deterministic :: "block_error \<Rightarrow> bool" where
  "is_deterministic e = (case e of BP_Deterministic _ \<Rightarrow> True | _ \<Rightarrow> False)"

record ('b, 'trigger) BlockWithTriggers =
  bt_block :: 'b
  bt_ptr :: BlockPtr
  trigger_data :: "'trigger list"

record ('e, 'q, 'd, 't, 's, 'h, 'ds, 'trigger, 'b, 'w) runner_env =
  rn_chain :: "('e, 'q, 'd, 't, 's, 'h, 'ds, 'trigger) chain"
  rn_runtime :: "'w \<Rightarrow> ('e, 'q, 't, 's, 'h) runtime"
  rn_deployment :: string
  rn_templates :: "'t list"
  rn_static_filters :: bool
  rn_non_fatal_errors :: bool
  rn_stop_block :: "int option"
  rn_max_data_sources :: "nat option"
  rn_disable_fail_fast :: bool
  rn_try_from :: "'t DataSourceTemplateInfo \<Rightarrow> (string, 'ds) result"
  rn_as_stored :: "'ds \<Rightarrow> 'd"
  rn_triggers_in_block :: "'b \<Rightarrow> 'ds list \<Rightarrow> (string, 'trigger list) result"
  rn_supports_proof_of_indexing :: "'w \<Rightarrow> (string, bool) result"
  rn_transact :: "BlockPtr \<Rightarrow> string option \<Rightarrow> EntityModification list \<Rightarrow> 'd list \<Rightarrow> SubgraphError list \<Rightarrow> 'w \<Rightarrow> (string, 'w) result"
  rn_is_deployment_synced :: "'w \<Rightarrow> (string, bool) result"
  rn_unassign_subgraph :: "'w \<Rightarrow> (string, 'w) result"
  rn_deployment_synced :: "'w \<Rightarrow> (string, 'w) result"
  rn_unfail_non_deterministic_error :: "BlockPtr \<Rightarrow> 'w \<Rightarrow> (string, UnfailOutcome \<times> 'w) result"
  rn_fail_subgraph :: "SubgraphError \<Rightarrow> 'w \<Rightarrow> (string, 'w) result"
  rn_health :: "'w \<Rightarrow> (string, SubgraphHealth) result"
  rn_block_ptr :: "'w \<Rightarrow> BlockPtr option"
  rn_revert_block_operations :: "BlockPtr \<Rightarrow> string option \<Rightarrow> 'w \<Rightarrow> (string, 'w) result"
  rn_overflow_checks :: bool
  rn_block_message :: "block_error \<Rightarrow> string"

text \<open>\<open>r_filter\<close> are the data sources whose filters the block stream uses.\<close>

record ('e, 'q, 'd, 't, 's, 'h, 'ds, 'w) SubgraphRunner =
  r_instance :: "('e, 'q, 'd, 't, 's, 'h, 'ds) SubgraphInstance"
  r_filter :: "'ds list"
  r_store :: 'w
  r_entity_lfu_cache :: "'q LfuCache"
  r_should_try_unfail_non_deterministic :: bool
  r_synced :: bool
  r_backoff :: ExponentialBackoff

section \<open>Triggers and data sources\<close>

fun process_triggers ::
  "('e, 'q, 't, 's, 'h) runtime \<Rightarrow> ('e, 'q, 'd, 't, 's, 'h, 'ds, 'trigger) chain \<Rightarrow> BlockPtr \<Rightarrow> string \<Rightarrow>
   ('e, 'q, 'd, 't, 's, 'h, 'ds) RuntimeHost list \<Rightarrow> 'trigger list \<Rightarrow>
   ('q, 'd, 't) BlockState \<Rightarrow> ('s, 'h) ProofOfIndexing option \<Rightarrow>
   ((MappingError, ('q, 'd, 't) BlockState) result \<times> ('s, 'h) ProofOfIndexing option) option" where
  "process_triggers rt ch ptr region hosts [] s poi = Some (Inr s, poi)"
| "process_triggers rt ch ptr region hosts (trigger # triggers) s poi =
     (case process_trigger_in_runtime_hosts rt ch ptr region hosts trigger s poi of
        None \<Rightarrow> None
      | Some (Inl e, poi1) \<Rightarrow> Some (Inl e, poi1)
      | Some (Inr s1, poi1) \<Rightarrow> process_triggers rt ch ptr region hosts triggers s1 poi1)"

text \<open>The data sources and the hosts that were added. The instance keeps what was added before an error.\<close>

fun create_dynamic_data_sources ::
  "('e, 'q, 'd, 't, 's, 'h, 'ds, 'trigger, 'b, 'w) runner_env \<Rightarrow> 't DataSourceTemplateInfo list \<Rightarrow>
   ('e, 'q, 'd, 't, 's, 'h, 'ds) SubgraphInstance \<Rightarrow>
   (add_error, 'ds list \<times> ('e, 'q, 'd, 't, 's, 'h, 'ds) RuntimeHost list) result \<times>
   ('e, 'q, 'd, 't, 's, 'h, 'ds) SubgraphInstance" where
  "create_dynamic_data_sources env [] inst = (Inr ([], []), inst)"
| "create_dynamic_data_sources env (info # infos) inst =
     (case rn_try_from env info of
        Inl e \<Rightarrow> (Inl (Add_Failed e), inst)
      | Inr ds \<Rightarrow>
          (case add_dynamic_data_source (rn_chain env) (rn_max_data_sources env) (rn_templates env) ds inst of
             Inl e \<Rightarrow> (Inl e, inst)
           | Inr (host, inst1) \<Rightarrow>
               (case create_dynamic_data_sources env infos inst1 of
                  (Inl e, inst2) \<Rightarrow> (Inl e, inst2)
                | (Inr (dss, hosts), inst2) \<Rightarrow>
                    (Inr (case host of None \<Rightarrow> (dss, hosts) | Some h \<Rightarrow> (ds # dss, h # hosts)), inst2))))"

definition persist_dynamic_data_sources ::
  "('e, 'q, 'd, 't, 's, 'h, 'ds, 'trigger, 'b, 'w) runner_env \<Rightarrow> 'ds list \<Rightarrow> ('q, 'd) EntityCache \<Rightarrow> ('q, 'd) EntityCache" where
  "persist_dynamic_data_sources env dss c = fold (\<lambda>ds. add_data_source (rn_as_stored env ds)) dss c"

fun add_block_error :: "add_error \<Rightarrow> block_error" where
  "add_block_error (Add_Failed e) = BP_Unknown e"
| "add_block_error Add_Panic = BP_Panic"

fun mapping_block_error :: "MappingError \<Rightarrow> block_error" where
  "mapping_block_error (PossibleReorg e) = BP_Unknown e"
| "mapping_block_error (Unknown e) = BP_Unknown e"

text \<open>The block state, the proof of indexing, the instance and the filter.\<close>

type_synonym ('e, 'q, 'd, 't, 's, 'h, 'ds) round_state =
  "('q, 'd, 't) BlockState \<times> ('s, 'h) ProofOfIndexing option \<times> ('e, 'q, 'd, 't, 's, 'h, 'ds) SubgraphInstance \<times> 'ds list"

type_synonym ('e, 'q, 'd, 't, 's, 'h, 'ds) round_result =
  "(block_error, ('q, 'd, 't) BlockState) result \<times> ('s, 'h) ProofOfIndexing option \<times>
   ('e, 'q, 'd, 't, 's, 'h, 'ds) SubgraphInstance \<times> 'ds list"

text \<open>
  One round of the loop that instantiates the data sources which the block created and lets them
  process the block: either the loop is left, or there is another round.
\<close>

definition data_source_round ::
  "('e, 'q, 'd, 't, 's, 'h, 'ds, 'trigger, 'b, 'w) runner_env \<Rightarrow> ('e, 'q, 't, 's, 'h) runtime \<Rightarrow> 'b \<Rightarrow> BlockPtr \<Rightarrow> string \<Rightarrow>
   ('e, 'q, 'd, 't, 's, 'h, 'ds) round_state \<Rightarrow>
   ('e, 'q, 'd, 't, 's, 'h, 'ds) round_result + ('e, 'q, 'd, 't, 's, 'h, 'ds) round_state" where
  "data_source_round env rt block ptr region = (\<lambda>(s, poi, inst, flt).
     (case has_created_data_sources s of
        Inl _ \<Rightarrow> Inl (Inl BP_Panic, poi, inst, flt)
      | Inr created \<Rightarrow>
          (if \<not> created then Inl (Inr s, poi, inst, flt)
           else
             (case drain_created_data_sources s of
                Inl _ \<Rightarrow> Inl (Inl BP_Panic, poi, inst, flt)
              | Inr (infos, s1) \<Rightarrow>
                  (case create_dynamic_data_sources env infos inst of
                     (Inl e, inst1) \<Rightarrow> Inl (Inl (add_block_error e), poi, inst1, flt)
                   | (Inr (dss, hosts), inst1) \<Rightarrow>
                       (case rn_triggers_in_block env block dss of
                          Inl e \<Rightarrow> Inl (Inl (BP_Unknown e), poi, inst1, flt)
                        | Inr triggers \<Rightarrow>
                            (let s2 = s1\<lparr>entity_cache := persist_dynamic_data_sources env dss (entity_cache s1)\<rparr> in
                             case process_triggers rt (rn_chain env) ptr region hosts triggers s2 poi of
                               None \<Rightarrow> Inl (Inl BP_Panic, poi, inst1, flt @ dss)
                             | Some (Inl e, poi1) \<Rightarrow> Inl (Inl (mapping_block_error e), poi1, inst1, flt @ dss)
                             | Some (Inr s3, poi1) \<Rightarrow> Inr (s3, poi1, inst1, flt @ dss))))))))"

text \<open>The loop need not end: \<open>None\<close> is that it runs forever.\<close>

partial_function (option) created_data_sources_loop ::
  "('e, 'q, 'd, 't, 's, 'h, 'ds, 'trigger, 'b, 'w) runner_env \<Rightarrow> ('e, 'q, 't, 's, 'h) runtime \<Rightarrow> 'b \<Rightarrow> BlockPtr \<Rightarrow> string \<Rightarrow>
   ('e, 'q, 'd, 't, 's, 'h, 'ds) round_state \<Rightarrow> ('e, 'q, 'd, 't, 's, 'h, 'ds) round_result option" where
  "created_data_sources_loop env rt block ptr region st =
     (case data_source_round env rt block ptr region st of
        Inl res \<Rightarrow> Some res
      | Inr st1 \<Rightarrow> created_data_sources_loop env rt block ptr region st1)"

section \<open>The proof of indexing as an entity\<close>

definition POI_OBJECT :: string where
  "POI_OBJECT = ''Poi$''"

definition poi_key :: "string \<Rightarrow> string \<Rightarrow> EntityKey" where
  "poi_key deployment region = \<lparr>subgraph_id = deployment, entity_type = POI_OBJECT, entity_id = region\<rparr>"

text \<open>The digest of the entity; \<open>None\<close> is a panic.\<close>

definition prev_poi :: "Entity option \<Rightarrow> u8 list option option" where
  "prev_poi entity =
     (case entity of
        None \<Rightarrow> Some None
      | Some e \<Rightarrow> (case hm_get e ''digest'' of Some (V_Bytes b) \<Rightarrow> Some (Some b) | _ \<Rightarrow> None))"

definition update_region ::
  "('e, 'q, 't, 's, 'h) runtime \<Rightarrow> string \<Rightarrow> string \<times> ('s, 'h) BlockEventStream \<Rightarrow> ('q, 'd) EntityCache \<Rightarrow>
   (block_error, ('q, 'd) EntityCache) result" where
  "update_region rt deployment = (\<lambda>(region, stream) c.
     (case cache_get (rt_cache rt) (poi_key deployment region) c of
        (Inl e, _) \<Rightarrow> Inl (BP_Unknown (rt_message rt (CacheFailed e)))
      | (Inr entity, c1) \<Rightarrow>
          (case prev_poi entity of
             None \<Rightarrow> Inl BP_Panic
           | Some prev \<Rightarrow>
               (case cache_set (rt_cache rt) (poi_key deployment region)
                       [(''id'', V_String region), (''digest'', V_Bytes (stream_pause (rt_hash rt) prev stream))] c1 of
                  (Inl e, _) \<Rightarrow> Inl (BP_Unknown (rt_message rt (CacheFailed e)))
                | (Inr _, c2) \<Rightarrow> Inr c2))))"

definition update_proof_of_indexing ::
  "('e, 'q, 't, 's, 'h) runtime \<Rightarrow> string \<Rightarrow> ('s, 'h) ProofOfIndexing \<Rightarrow> ('q, 'd) EntityCache \<Rightarrow>
   (block_error, ('q, 'd) EntityCache) result" where
  "update_proof_of_indexing rt deployment poi c = try_fold (update_region rt deployment) (per_causality_region poi) c"

section \<open>Blocks\<close>

text \<open>What is written when all triggers have been processed.\<close>

definition finish_block ::
  "('e, 'q, 'd, 't, 's, 'h, 'ds, 'trigger, 'b, 'w) runner_env \<Rightarrow> ('e, 'q, 't, 's, 'h) runtime \<Rightarrow> bool \<Rightarrow> BlockPtr \<Rightarrow>
   string option \<Rightarrow> bool \<Rightarrow> ('q, 'd, 't) BlockState \<Rightarrow> ('s, 'h) ProofOfIndexing option \<Rightarrow>
   ('e, 'q, 'd, 't, 's, 'h, 'ds, 'w) SubgraphRunner \<Rightarrow>
   (block_error, Action) result \<times> ('e, 'q, 'd, 't, 's, 'h, 'ds, 'w) SubgraphRunner" where
  "finish_block env rt canceled ptr cursor needs_restart s poi r =
     (if canceled then (Inl BP_Canceled, r)
      else
        (case (case poi of
                 None \<Rightarrow> Inr (entity_cache s)
               | Some p \<Rightarrow> update_proof_of_indexing rt (rn_deployment env) p (entity_cache s)) of
           Inl e \<Rightarrow> (Inl e, r)
         | Inr c \<Rightarrow>
             (case as_modifications (rt_cache rt) c of
                Inl (Panicked _) \<Rightarrow> (Inl BP_Panic, r)
              | Inl e \<Rightarrow> (Inl (BP_Unknown (rt_message rt (CacheFailed e))), r)
              | Inr mc \<Rightarrow>
                  (let r1 = r\<lparr>r_entity_lfu_cache := entity_lfu_cache mc\<rparr>;
                       fatal = (has_errors s \<and> \<not> rn_non_fatal_errors env);
                       mods = (if fatal then filter (\<lambda>m. is_poi (entity_type (entity_key m))) (modifications mc)
                               else modifications mc)
                   in if fatal \<and> length mods \<noteq> 1 then (Inl BP_Panic, r1)
                      else
                        (case rn_transact env ptr cursor mods (mc_data_sources mc) (deterministic_errors s) (r_store r) of
                           Inl e \<Rightarrow> (Inl (BP_Unknown e), r1)
                         | Inr w \<Rightarrow>
                             (let r2 = r1\<lparr>r_store := w\<rparr> in
                              if fatal then (Inl (BP_Deterministic (hd (deterministic_errors s))), r2)
                              else if has_errors s \<and> \<not> rn_disable_fail_fast env then
                                (case rn_is_deployment_synced env w of
                                   Inl e \<Rightarrow> (Inl (BP_Unknown e), r2)
                                 | Inr True \<Rightarrow> (Inr (if needs_restart then Restart else Continue), r2)
                                 | Inr False \<Rightarrow>
                                     (case rn_unassign_subgraph env w of
                                        Inl e \<Rightarrow> (Inl (BP_Unknown e), r2)
                                      | Inr w1 \<Rightarrow> (Inl BP_Canceled, r2\<lparr>r_store := w1\<rparr>)))
                              else (Inr (if needs_restart then Restart else Continue), r2)))))))"

text \<open>
  The entity cache of the runner is taken for the block; it is put back when the modifications are
  known. \<open>None\<close> is a block whose processing does not end.
\<close>

definition process_block ::
  "('e, 'q, 'd, 't, 's, 'h, 'ds, 'trigger, 'b, 'w) runner_env \<Rightarrow> bool \<Rightarrow> ('b, 'trigger) BlockWithTriggers \<Rightarrow> string option \<Rightarrow>
   ('e, 'q, 'd, 't, 's, 'h, 'ds, 'w) SubgraphRunner \<Rightarrow>
   ((block_error, Action) result \<times> ('e, 'q, 'd, 't, 's, 'h, 'ds, 'w) SubgraphRunner) option" where
  "process_block env canceled block cursor r =
     (let rt = rn_runtime env (r_store r); ptr = bt_ptr block in
      case rn_supports_proof_of_indexing env (r_store r) of
        Inl e \<Rightarrow> Some (Inl (BP_Unknown e), r)
      | Inr supported \<Rightarrow>
          (let poi = (if supported then Some (poi_new (ptr_number ptr)) else None);
               region = from_network (si_network (r_instance r));
               r0 = r\<lparr>r_entity_lfu_cache := lfu_new (ce_api (rt_cache rt))\<rparr>
           in case process_triggers rt (rn_chain env) ptr region (si_hosts (r_instance r)) (trigger_data block)
                     (bs_new (r_entity_lfu_cache r)) poi of
                None \<Rightarrow> Some (Inl BP_Panic, r0)
              | Some (Inl (Unknown e), _) \<Rightarrow> Some (Inl (BP_Unknown e), r0)
              | Some (Inl (PossibleReorg _), _) \<Rightarrow> Some (Inr Restart, r0)
              | Some (Inr s, poi1) \<Rightarrow>
                  (case has_created_data_sources s of
                     Inl _ \<Rightarrow> Some (Inl BP_Panic, r0)
                   | Inr created \<Rightarrow>
                       (case created_data_sources_loop env rt (bt_block block) ptr region (s, poi1, r_instance r, r_filter r) of
                          None \<Rightarrow> None
                        | Some (Inl e, _, inst, flt) \<Rightarrow> Some (Inl e, r0\<lparr>r_instance := inst, r_filter := flt\<rparr>)
                        | Some (Inr s1, poi2, inst, flt) \<Rightarrow>
                            Some (finish_block env rt canceled ptr cursor (created \<and> \<not> rn_static_filters env) s1 poi2
                                    (r0\<lparr>r_instance := inst, r_filter := flt\<rparr>))))))"

section \<open>Events of the block stream\<close>

definition close_to_chain_head :: "BlockPtr \<Rightarrow> BlockPtr option \<Rightarrow> int \<Rightarrow> bool" where
  "close_to_chain_head deployment_head chain_head n =
     (case chain_head of None \<Rightarrow> False | Some b \<Rightarrow> i32 (ptr_number b - n) \<le> ptr_number deployment_head)"

text \<open>An error ends the runner; a panic does as well.\<close>

datatype run_error = Run_Error string | Run_Panic

text \<open>
  Once a subgraph is at most one block behind the head of the chain, it is marked as synced; the
  head is only looked up while it is not.
\<close>

definition update_synced ::
  "('e, 'q, 'd, 't, 's, 'h, 'ds, 'trigger, 'b, 'w) runner_env \<Rightarrow> BlockPtr \<Rightarrow> (string, BlockPtr option) result \<Rightarrow>
   ('e, 'q, 'd, 't, 's, 'h, 'ds, 'w) SubgraphRunner \<Rightarrow> (string, ('e, 'q, 'd, 't, 's, 'h, 'ds, 'w) SubgraphRunner) result" where
  "update_synced env ptr chain_head r =
     (if r_synced r then Inr r
      else
        and_then chain_head (\<lambda>head.
          if close_to_chain_head ptr head 1
          then and_then (rn_deployment_synced env (r_store r)) (\<lambda>w. Inr (r\<lparr>r_store := w, r_synced := True\<rparr>))
          else Inr r))"

definition try_unfail ::
  "('e, 'q, 'd, 't, 's, 'h, 'ds, 'trigger, 'b, 'w) runner_env \<Rightarrow> BlockPtr \<Rightarrow>
   ('e, 'q, 'd, 't, 's, 'h, 'ds, 'w) SubgraphRunner \<Rightarrow> (string, ('e, 'q, 'd, 't, 's, 'h, 'ds, 'w) SubgraphRunner) result" where
  "try_unfail env ptr r =
     (if \<not> r_should_try_unfail_non_deterministic r then Inr r
      else
        and_then (rn_unfail_non_deterministic_error env ptr (r_store r)) (\<lambda>(outcome, w).
          Inr (if outcome = Unfailed
               then r\<lparr>r_store := w, r_should_try_unfail_non_deterministic := False, r_backoff := backoff_reset (r_backoff r)\<rparr>
               else r\<lparr>r_store := w\<rparr>)))"

text \<open>After a block that failed: the entity cache is dropped, the error is recorded, and unless it is deterministic the block is tried again.\<close>

definition handle_failure ::
  "('e, 'q, 'd, 't, 's, 'h, 'ds, 'trigger, 'b, 'w) runner_env \<Rightarrow> BlockPtr \<Rightarrow> block_error \<Rightarrow>
   ('e, 'q, 'd, 't, 's, 'h, 'ds, 'w) SubgraphRunner \<Rightarrow>
   (run_error, Action) result \<times> ('e, 'q, 'd, 't, 's, 'h, 'ds, 'w) SubgraphRunner" where
  "handle_failure env ptr e r =
     (let r1 = r\<lparr>r_entity_lfu_cache := lfu_new (ce_api (rt_cache (rn_runtime env (r_store r))))\<rparr>;
          message = map (\<lambda>c. if c = CHR 0x0A then CHR 0x09 else c) (rn_block_message env e);
          err = \<lparr>err_subgraph_id = rn_deployment env, err_message = message, err_block_ptr = Some ptr,
                 err_handler = None, err_deterministic = is_deterministic e\<rparr>
      in if is_deterministic e then
           (case rn_fail_subgraph env err (r_store r1) of
              Inl f \<Rightarrow> (Inl (Run_Error f), r1)
            | Inr w \<Rightarrow> (Inl (Run_Error message), r1\<lparr>r_store := w\<rparr>))
         else
           (case rn_health env (r_store r1) of
              Inl f \<Rightarrow> (Inl (Run_Error f), r1)
            | Inr health \<Rightarrow>
                (case (if health \<noteq> SubgraphHealth.Failed then rn_fail_subgraph env err (r_store r1) else Inr (r_store r1)) of
                   Inl f \<Rightarrow> (Inl (Run_Error f), r1)
                 | Inr w \<Rightarrow>
                     (case next_attempt (rn_overflow_checks env) (r_backoff r1) of
                        None \<Rightarrow> (Inl Run_Panic, r1\<lparr>r_store := w\<rparr>)
                      | Some (_, b) \<Rightarrow>
                          (Inr Restart, r1\<lparr>r_store := w, r_backoff := b, r_should_try_unfail_non_deterministic := True\<rparr>)))))"

definition handle_process_block ::
  "('e, 'q, 'd, 't, 's, 'h, 'ds, 'trigger, 'b, 'w) runner_env \<Rightarrow> bool \<Rightarrow> bool \<Rightarrow> (string, BlockPtr option) result \<Rightarrow>
   (string, BlockPtr option) result \<Rightarrow> ('b, 'trigger) BlockWithTriggers \<Rightarrow> string option \<Rightarrow>
   ('e, 'q, 'd, 't, 's, 'h, 'ds, 'w) SubgraphRunner \<Rightarrow>
   ((run_error, Action) result \<times> ('e, 'q, 'd, 't, 's, 'h, 'ds, 'w) SubgraphRunner) option" where
  "handle_process_block env canceled timer_running head1 head2 block cursor r =
     (case (if trigger_data block = [] \<and> timer_running \<and> \<not> r_synced r
            then and_then head1 (\<lambda>head. Inr (\<not> close_to_chain_head (bt_ptr block) head 1000))
            else Inr False) of
        Inl e \<Rightarrow> Some (Inl (Run_Error e), r)
      | Inr True \<Rightarrow> Some (Inr Continue, r)
      | Inr False \<Rightarrow>
          (case process_block env canceled block cursor r of
             None \<Rightarrow> None
           | Some (Inl BP_Panic, r1) \<Rightarrow> Some (Inl Run_Panic, r1)
           | Some (Inl BP_Canceled, r1) \<Rightarrow> Some (Inr Stop, r1)
           | Some (Inl e, r1) \<Rightarrow> Some (handle_failure env (bt_ptr block) e r1)
           | Some (Inr action, r1) \<Rightarrow>
               Some (case update_synced env (bt_ptr block) head2 r1 of
                       Inl e \<Rightarrow> (Inl (Run_Error e), r1)
                     | Inr r2 \<Rightarrow>
                         (case try_unfail env (bt_ptr block) r2 of
                            Inl e \<Rightarrow> (Inl (Run_Error e), r2)
                          | Inr r3 \<Rightarrow>
                              (Inr (if action = Restart then Restart
                                    else if (case rn_stop_block env of None \<Rightarrow> False | Some b \<Rightarrow> b \<le> ptr_number (bt_ptr block))
                                    then Stop else Continue), r3)))))"

text \<open>The pointer of the store is unwrapped. An error of the store is retried after a restart.\<close>

definition handle_revert ::
  "('e, 'q, 'd, 't, 's, 'h, 'ds, 'trigger, 'b, 'w) runner_env \<Rightarrow> BlockPtr \<Rightarrow> string option \<Rightarrow>
   ('e, 'q, 'd, 't, 's, 'h, 'ds, 'w) SubgraphRunner \<Rightarrow>
   (run_error, Action) result \<times> ('e, 'q, 'd, 't, 's, 'h, 'ds, 'w) SubgraphRunner" where
  "handle_revert env revert_to cursor r =
     (case rn_block_ptr env (r_store r) of
        None \<Rightarrow> (Inl Run_Panic, r)
      | Some subgraph_ptr \<Rightarrow>
          (if ptr_number subgraph_ptr \<le> ptr_number revert_to then (Inr Continue, r)
           else
             (case rn_revert_block_operations env revert_to cursor (r_store r) of
                Inl _ \<Rightarrow> (Inr Restart, r)
              | Inr w \<Rightarrow>
                  (Inr Continue,
                   r\<lparr>r_store := w, r_instance := revert_data_sources (rn_chain env) (ptr_number subgraph_ptr) (r_instance r),
                     r_entity_lfu_cache := lfu_new (ce_api (rt_cache (rn_runtime env w)))\<rparr>))))"

definition handle_err :: "bool \<Rightarrow> Action" where
  "handle_err canceled = (if canceled then Stop else Continue)"

end
