(* ===== verification/Block_Processing.thy ===== *)
theory Block_Processing
  imports Runner
begin

text \<open>
  Guarantees of the runner: what a block writes to the store agrees with its proof of indexing, the
  entity cache that is kept between blocks agrees with the store, and the hosts follow the chain.
\<close>

section \<open>Hosts\<close>

text \<open>No trigger is for two data sources that are not duplicates of each other.\<close>

definition exclusive :: "('e, 'q, 'd, 't, 's, 'h, 'ds, 'trigger) chain \<Rightarrow> bool" where
  "exclusive ch \<longleftrightarrow>
     (\<forall>t a b. ds_match_and_decode ch a t \<noteq> Inr None \<longrightarrow> ds_match_and_decode ch b t \<noteq> Inr None \<longrightarrow>
        ds_is_duplicate_of ch a b)"

definition no_duplicates ::
  "('e, 'q, 'd, 't, 's, 'h, 'ds, 'trigger) chain \<Rightarrow> ('e, 'q, 'd, 't, 's, 'h, 'ds) RuntimeHost list \<Rightarrow> bool" where
  "no_duplicates ch hosts \<longleftrightarrow> sorted_wrt (\<lambda>a b. \<not> ds_is_duplicate_of ch (rh_data_source a) (rh_data_source b)) hosts"

text \<open>An instance whose hosts belong to it; modules are compiled to well-formed ones.\<close>

definition instance_wf ::
  "('e, 'q, 'd, 't, 's, 'h, 'ds, 'trigger) chain \<Rightarrow> ('e, 'q, 'd, 't, 's, 'h, 'ds) SubgraphInstance \<Rightarrow> bool" where
  "instance_wf ch inst \<longleftrightarrow>
     list_all (host_wf (from_network (si_network inst)) (si_subgraph_id inst)) (si_hosts inst) \<and>
     no_duplicates ch (si_hosts inst)"

definition modules_wf :: "('e, 'q, 'd, 't, 's, 'h, 'ds, 'trigger) chain \<Rightarrow> bool" where
  "modules_wf ch \<longleftrightarrow> (\<forall>ds m. spawn_mapping ch ds = Inr m \<longrightarrow> module_wf m)"

lemma one_match:
  assumes "exclusive ch" and "no_duplicates ch hosts"
  shows "length (filter (matches ch t) hosts) \<le> 1"
proof (rule ccontr)
  let ?ms = "filter (matches ch t) hosts"
  assume "\<not> length ?ms \<le> 1"
  then obtain a b ms where ms: "?ms = a # b # ms" by (cases ?ms; cases "tl ?ms") auto
  have "sorted_wrt (\<lambda>a b. \<not> ds_is_duplicate_of ch (rh_data_source a) (rh_data_source b)) ?ms"
    using assms(2) by (simp add: no_duplicates_def sorted_wrt_filter)
  then have "\<not> ds_is_duplicate_of ch (rh_data_source a) (rh_data_source b)" by (simp add: ms)
  moreover have "a \<in> set ?ms" "b \<in> set ?ms" by (simp_all add: ms)
  ultimately show False using assms(1) by (auto simp: exclusive_def matches_def)
qed

lemma new_host_result:
  assumes "new_host ch sid net ts ds = Inr h" and "modules_wf ch"
  shows "rh_data_source h = ds" and "host_wf (from_network net) sid h"
  using assms
  by (auto simp: new_host_def and_then_eq_Inr_iff host_wf_def he_new_def modules_wf_def)

lemma add_dynamic_data_source_result:
  assumes "add_dynamic_data_source ch mx ts ds inst = Inr (host, inst')"
  shows "(host = None \<and> inst' = inst) \<or>
    (\<exists>h. host = Some h \<and> new_host ch (si_subgraph_id inst) (si_network inst) ts ds = Inr h \<and>
       inst' = inst\<lparr>si_hosts := si_hosts inst @ [h]\<rparr> \<and>
       list_all (\<lambda>g. \<not> ds_is_duplicate_of ch (rh_data_source g) (rh_data_source h)) (si_hosts inst) \<and>
       last_creation_block ch (si_hosts inst) \<le> ds_creation_block ch ds \<and>
       (case mx of None \<Rightarrow> True | Some n \<Rightarrow> length (si_hosts inst) < n))"
  using assms
  by (auto simp: add_dynamic_data_source_def list_all_iff list_ex_iff split: if_splits sum.splits option.splits)

text \<open>What the new data sources add to the instance.\<close>

lemma create_dynamic_data_sources_result:
  assumes "create_dynamic_data_sources env infos inst = (Inr (dss, hosts), inst')"
    and wf: "modules_wf (rn_chain env)" "instance_wf (rn_chain env) inst"
  shows "si_hosts inst' = si_hosts inst @ hosts \<and> si_network inst' = si_network inst \<and>
    si_subgraph_id inst' = si_subgraph_id inst \<and> map rh_data_source hosts = dss \<and>
    instance_wf (rn_chain env) inst' \<and>
    (case rn_max_data_sources env of None \<Rightarrow> True | Some n \<Rightarrow> hosts = [] \<or> length (si_hosts inst') \<le> n)"
  using assms(1) wf(2)
proof (induction infos arbitrary: inst dss hosts)
  case Nil
  then show ?case by (auto split: option.splits)
next
  case (Cons info infos)
  let ?ch = "rn_chain env"
  obtain ds host inst1 dss1 hosts1 where ds: "rn_try_from env info = Inr ds"
    and add: "add_dynamic_data_source ?ch (rn_max_data_sources env) (rn_templates env) ds inst = Inr (host, inst1)"
    and rest: "create_dynamic_data_sources env infos inst1 = (Inr (dss1, hosts1), inst')"
    and res: "(dss, hosts) = (case host of None \<Rightarrow> (dss1, hosts1) | Some h \<Rightarrow> (ds # dss1, h # hosts1))"
    using Cons.prems(1) by (auto split: sum.splits prod.splits)
  from add_dynamic_data_source_result [OF add] show ?case
  proof
    assume "host = None \<and> inst1 = inst"
    then show ?thesis using Cons.IH [OF rest] Cons.prems(2) res by auto
  next
    assume "\<exists>h. host = Some h \<and> new_host ?ch (si_subgraph_id inst) (si_network inst) (rn_templates env) ds = Inr h \<and>
       inst1 = inst\<lparr>si_hosts := si_hosts inst @ [h]\<rparr> \<and>
       list_all (\<lambda>g. \<not> ds_is_duplicate_of ?ch (rh_data_source g) (rh_data_source h)) (si_hosts inst) \<and>
       last_creation_block ?ch (si_hosts inst) \<le> ds_creation_block ?ch ds \<and>
       (case rn_max_data_sources env of None \<Rightarrow> True | Some n \<Rightarrow> length (si_hosts inst) < n)"
    then obtain h where h: "host = Some h" "new_host ?ch (si_subgraph_id inst) (si_network inst) (rn_templates env) ds = Inr h"
        "inst1 = inst\<lparr>si_hosts := si_hosts inst @ [h]\<rparr>"
        "list_all (\<lambda>g. \<not> ds_is_duplicate_of ?ch (rh_data_source g) (rh_data_source h)) (si_hosts inst)"
        "case rn_max_data_sources env of None \<Rightarrow> True | Some n \<Rightarrow> length (si_hosts inst) < n"
      by blast
    have "instance_wf ?ch inst1"
      using Cons.prems(2) h(4) new_host_result(2) [OF h(2) wf(1)]
      by (simp add: instance_wf_def no_duplicates_def h(3) sorted_wrt_append list_all_iff)
    from Cons.IH [OF rest this] show ?thesis
      using res h new_host_result(1) [OF h(2) wf(1)] by (auto simp: h(3) split: option.splits)
  qed
qed

section \<open>Triggers\<close>

lemma process_triggers_inv:
  assumes R: "entity_reader (rt_cache rt) items S" and ex: "exclusive ch"
    and hosts: "list_all (host_wf region sid) hosts" "no_duplicates ch hosts"
    and "block_inv rt n region sid items S V es s poi"
    and "process_triggers rt ch ptr region hosts ts s poi = Some (Inr s', poi')"
  shows "\<exists>es'. block_inv rt n region sid items S V es' s' poi' \<and> (poi' = None \<longleftrightarrow> poi = None)"
  using assms(5,6)
proof (induction ts arbitrary: s poi es)
  case Nil
  then show ?case by auto
next
  case (Cons t ts)
  obtain s1 poi1 where t: "process_trigger_in_runtime_hosts rt ch ptr region hosts t s poi = Some (Inr s1, poi1)"
    and rest: "process_triggers rt ch ptr region hosts ts s1 poi1 = Some (Inr s', poi')"
    using Cons.prems(2) by (auto split: option.splits sum.splits)
  obtain es1 where "block_inv rt n region sid items S V es1 s1 poi1" "poi1 = None \<longleftrightarrow> poi = None"
    using process_trigger_inv [OF R Cons.prems(1) hosts(1) one_match [OF ex hosts(2)] t] by blast
  then show ?case using Cons.IH [OF _ rest] by auto
qed

text \<open>Hosts that do not exist process nothing.\<close>

lemma process_triggers_no_hosts:
  assumes "process_triggers rt ch ptr region [] ts s poi = Some (Inr s', poi')"
  shows "s' = s"
  using assms
proof (induction ts arbitrary: s poi)
  case (Cons t ts)
  obtain s1 poi1 where t: "process_trigger_in_runtime_hosts rt ch ptr region [] t s poi = Some (Inr s1, poi1)"
    and rest: "process_triggers rt ch ptr region [] ts s1 poi1 = Some (Inr s', poi')"
    using Cons.prems by (auto split: option.splits sum.splits)
  have "s1 = s"
    using t by (cases poi; cases "poi_start_handler (rt_hash rt) region (the poi)") (auto simp: process_trigger_in_runtime_hosts_def Let_def)
  then show ?case using Cons.IH [OF rest] by simp
qed simp

section \<open>New data sources\<close>

lemma block_inv_cong:
  assumes "block_inv rt n region sid items S V es s poi" and "\<not> bs_in_handler s'"
    and "handler_created_data_sources s' = handler_created_data_sources s"
    and "current (entity_cache s') = current (entity_cache s)" "updates (entity_cache s') = updates (entity_cache s)"
      "handler_updates (entity_cache s') = handler_updates (entity_cache s)"
      "in_handler (entity_cache s') = in_handler (entity_cache s)"
  shows "block_inv rt n region sid items S V es s' poi"
proof -
  have "values_of S s' = values_of S s" using assms(4-) by (simp add: values_of_def cache_value_def fun_eq_iff)
  then show ?thesis using assms by (simp add: block_inv_def bs_ok_def cache_ok_def)
qed

lemma persist_fields [simp]:
  "current (persist_dynamic_data_sources env dss c) = current c"
  "updates (persist_dynamic_data_sources env dss c) = updates c"
  "handler_updates (persist_dynamic_data_sources env dss c) = handler_updates c"
  "in_handler (persist_dynamic_data_sources env dss c) = in_handler c"
  by (induction dss arbitrary: c) (simp_all add: persist_dynamic_data_sources_def add_data_source_def)

text \<open>A round that is followed by another one.\<close>

lemma data_source_round_next:
  assumes "data_source_round env rt block ptr region (s, poi, inst, flt) = Inr (s', poi', inst', flt')"
  obtains dss hosts ts s2 where "\<not> bs_in_handler s" "created_data_sources s \<noteq> []"
    and "create_dynamic_data_sources env (created_data_sources s) inst = (Inr (dss, hosts), inst')"
    and "s2 = s\<lparr>created_data_sources := [], entity_cache := persist_dynamic_data_sources env dss (entity_cache s)\<rparr>"
    and "process_triggers rt (rn_chain env) ptr region hosts ts s2 poi = Some (Inr s', poi')"
  using assms
  by (auto simp: data_source_round_def has_created_data_sources_def drain_created_data_sources_def Let_def
      split: if_splits sum.splits prod.splits option.splits)

definition round_inv ::
  "('e, 'q, 'd, 't, 's, 'h, 'ds, 'trigger, 'b, 'w) runner_env \<Rightarrow> ('e, 'q, 't, 's, 'h) runtime \<Rightarrow> int \<Rightarrow> string \<Rightarrow> string \<Rightarrow> _ \<Rightarrow>
   (EntityKey \<Rightarrow> Entity option) \<Rightarrow> ('e, 'q, 'd, 't, 's, 'h, 'ds) round_state \<Rightarrow> bool" where
  "round_inv env rt n region sid items S = (\<lambda>(s, poi, inst, flt).
     (\<exists>es. block_inv rt n region sid items S S es s poi) \<and> instance_wf (rn_chain env) inst \<and>
     from_network (si_network inst) = region \<and> si_subgraph_id inst = sid)"

lemma data_source_round_inv:
  assumes R: "entity_reader (rt_cache rt) items S" and ex: "exclusive (rn_chain env)" and mods: "modules_wf (rn_chain env)"
    and inv: "round_inv env rt n region sid items S st"
    and run: "data_source_round env rt block ptr region st = Inr st'"
  shows "round_inv env rt n region sid items S st'" and "fst (snd st') = None \<longleftrightarrow> fst (snd st) = None"
proof -
  obtain s poi inst flt where st: "st = (s, poi, inst, flt)" by (cases st)
  obtain s' poi' inst' flt' where st': "st' = (s', poi', inst', flt')" by (cases st')
  obtain es where es: "block_inv rt n region sid items S S es s poi" and inst: "instance_wf (rn_chain env) inst"
    "from_network (si_network inst) = region" "si_subgraph_id inst = sid"
    using inv by (auto simp: round_inv_def st)
  obtain dss hosts ts s2 where r: "\<not> bs_in_handler s"
    "create_dynamic_data_sources env (created_data_sources s) inst = (Inr (dss, hosts), inst')"
    "s2 = s\<lparr>created_data_sources := [], entity_cache := persist_dynamic_data_sources env dss (entity_cache s)\<rparr>"
    "process_triggers rt (rn_chain env) ptr region hosts ts s2 poi = Some (Inr s', poi')"
    using data_source_round_next [OF run [unfolded st st']] by metis
  note c = create_dynamic_data_sources_result [OF r(2) mods inst(1)]
  have hosts: "list_all (host_wf region sid) hosts" "no_duplicates (rn_chain env) hosts"
    using c inst by (auto simp: instance_wf_def no_duplicates_def sorted_wrt_append)
  have "block_inv rt n region sid items S S es s2 poi"
    using r(1) by (intro block_inv_cong [OF es]) (simp_all add: r(3))
  from process_triggers_inv [OF R ex hosts this r(4)]
  show "round_inv env rt n region sid items S st'" and "fst (snd st') = None \<longleftrightarrow> fst (snd st) = None"
    using c inst by (auto simp: round_inv_def st st')
qed

lemma data_source_round_done:
  assumes "data_source_round env rt block ptr region (s, poi, inst, flt) = Inl (Inr s', poi', inst', flt')"
  shows "s' = s" and "poi' = poi" and "inst' = inst" and "\<not> bs_in_handler s" and "created_data_sources s = []"
  using assms
  by (auto simp: data_source_round_def has_created_data_sources_def drain_created_data_sources_def Let_def
      split: if_splits sum.splits prod.splits option.splits)

text \<open>The loop is left from a state that satisfies every invariant of the rounds.\<close>

lemma loop_rule:
  assumes "created_data_sources_loop env rt block ptr region st = Some res" and "I st"
    and "\<And>st st'. I st \<Longrightarrow> data_source_round env rt block ptr region st = Inr st' \<Longrightarrow> I st'"
  shows "\<exists>st'. I st' \<and> data_source_round env rt block ptr region st' = Inl res"
proof -
  have "\<forall>I. I st \<longrightarrow> (\<forall>st st'. I st \<longrightarrow> data_source_round env rt block ptr region st = Inr st' \<longrightarrow> I st') \<longrightarrow>
      (\<exists>st'. I st' \<and> data_source_round env rt block ptr region st' = Inl res)"
  proof (rule created_data_sources_loop.raw_induct [rotated, OF assms(1)], intro allI impI)
    fix loop e r b p rg st res I
    assume IH: "\<And>e r b p rg st res. loop e r b p rg st = Some res \<Longrightarrow>
        \<forall>I. I st \<longrightarrow> (\<forall>st st'. I st \<longrightarrow> data_source_round e r b p rg st = Inr st' \<longrightarrow> I st') \<longrightarrow>
          (\<exists>st'. I st' \<and> data_source_round e r b p rg st' = Inl res)"
      and body: "(case data_source_round e r b p rg st of Inl res \<Rightarrow> Some res | Inr st1 \<Rightarrow> loop e r b p rg st1) = Some res"
      and I: "I st" "\<forall>st st'. I st \<longrightarrow> data_source_round e r b p rg st = Inr st' \<longrightarrow> I st'"
    show "\<exists>st'. I st' \<and> data_source_round e r b p rg st' = Inl res"
    proof (cases "data_source_round e r b p rg st")
      case (Inl x)
      then show ?thesis using body I(1) by (intro exI [of _ st]) simp
    next
      case (Inr st1)
      then have loop1: "loop e r b p rg st1 = Some res" using body by simp
      have "I st1" using I Inr by blast
      then show ?thesis using IH [OF loop1] I(2) by blast
    qed
  qed
  then show ?thesis using assms(2,3) by blast
qed

lemma loop_inv:
  assumes R: "entity_reader (rt_cache rt) items S" and ex: "exclusive (rn_chain env)" and mods: "modules_wf (rn_chain env)"
    and inv: "round_inv env rt n region sid items S st"
    and run: "created_data_sources_loop env rt block ptr region st = Some (Inr s', poi', inst', flt')"
  shows "round_inv env rt n region sid items S (s', poi', inst', flt')" and "poi' = None \<longleftrightarrow> fst (snd st) = None"
proof -
  obtain st' where st': "round_inv env rt n region sid items S st' \<and> (fst (snd st') = None \<longleftrightarrow> fst (snd st) = None)"
    "data_source_round env rt block ptr region st' = Inl (Inr s', poi', inst', flt')"
    using loop_rule [OF run, where I = "\<lambda>x. round_inv env rt n region sid items S x \<and> (fst (snd x) = None \<longleftrightarrow> fst (snd st) = None)"]
      inv data_source_round_inv [OF R ex mods] by metis
  obtain s poi inst flt where "st' = (s, poi, inst, flt)" by (cases st')
  then show "round_inv env rt n region sid items S (s', poi', inst', flt')" and "poi' = None \<longleftrightarrow> fst (snd st) = None"
    using st' data_source_round_done [of env rt block ptr region s poi inst flt s' poi' inst' flt']
    by (auto simp: round_inv_def)
qed
section \<open>The proof of indexing\<close>

lemma visible_get: "visible e a = Some v \<Longrightarrow> hm_get e a = Some v"
  by (auto simp: visible_def non_null_def split: if_splits option.splits Value.splits)

text \<open>The entity has the given digest.\<close>

definition has_digest :: "u8 list \<Rightarrow> Entity option \<Rightarrow> bool" where
  "has_digest d entity \<longleftrightarrow> (\<exists>e. entity = Some e \<and> visible e ''digest'' = Some (V_Bytes d))"

lemma has_digest_cong: "same_entity a b \<Longrightarrow> has_digest d a \<longleftrightarrow> has_digest d b"
  unfolding has_digest_def same_entity_def by (cases a; cases b) auto

lemma has_digest_update:
  "has_digest d (apply_to (Op_Update [(''id'', V_String i), (''digest'', V_Bytes d)]) entity)"
proof (cases entity)
  case None
  then show ?thesis by (simp add: has_digest_def visible_def non_null_def)
next
  case (Some e)
  then show ?thesis
    by (simp add: has_digest_def visible_merge_remove_null_fields overlay_def)
qed

lemma update_region_result:
  assumes R: "entity_reader (rt_cache rt) items S" and ok: "cache_ok items S c" and out: "\<not> in_handler c"
    and run: "update_region rt dep (rg, st) c = Inr c'"
  shows "cache_ok items S c' \<and> \<not> in_handler c' \<and> EntityCache.data_sources c' = EntityCache.data_sources c \<and>
    (\<forall>k. k \<noteq> poi_key dep rg \<longrightarrow> same_entity (cache_value S c' k) (cache_value S c k)) \<and>
    (\<exists>prev. has_digest (stream_pause (rt_hash rt) prev st) (cache_value S c' (poi_key dep rg)))"
proof -
  let ?key = "poi_key dep rg"
  obtain v cur where get: "cache_get (rt_cache rt) ?key c = (Inr v, c\<lparr>current := cur\<rparr>)" "cache_ok items S (c\<lparr>current := cur\<rparr>)"
    using entity_reader.cache_get_spec [OF R ok, of ?key] by blast
  let ?c1 = "c\<lparr>current := cur\<rparr>"
  obtain prev where prev: "prev_poi v = Some prev"
    using run get(1) by (auto simp: update_region_def split: option.splits)
  let ?e = "[(''id'', V_String rg), (''digest'', V_Bytes (stream_pause (rt_hash rt) prev st))] :: Entity"
  have set: "cache_set (rt_cache rt) ?key ?e ?c1 = (Inr (), c')"
    using run get(1) prev by (auto simp: update_region_def split: prod.splits sum.splits)
  have wf: "hm_wf ?e" by simp
  have id: "with_id (rt_cache rt) ?key ?e = Inr ?e" by (simp add: with_id_def check_id_def poi_key_def)
  obtain cur' where c': "c' = (entity_op ?key (Op_Update ?e) ?c1)\<lparr>current := cur'\<rparr>" "cache_ok items S c'"
    using entity_reader.cache_set_cases [OF R get(2) wf, of ?key] set id by auto
  have val: "cache_value S c' = cache_value S (entity_op ?key (Op_Update ?e) ?c1)"
    "cache_value S ?c1 = cache_value S c"
    by (simp_all add: c'(1) cache_value_def fun_eq_iff)
  have "op_wf (Op_Update ?e)" by simp
  note v = entity_op_value [OF get(2) this, of ?key, unfolded val(2)]
  have other: "same_entity (cache_value S c' k) (cache_value S c k)" if "k \<noteq> ?key" for k
    using v [of k] that by (simp add: val(1))
  have "same_entity (cache_value S c' ?key) (apply_to (Op_Update ?e) (cache_value S c ?key))"
    using v [of ?key] by (simp add: val(1))
  from has_digest_cong [OF this] have "has_digest (stream_pause (rt_hash rt) prev st) (cache_value S c' ?key)"
    using has_digest_update by blast
  moreover have "\<not> in_handler c'" "EntityCache.data_sources c' = EntityCache.data_sources c"
    using out by (simp_all add: c'(1) entity_op_def)
  ultimately show ?thesis using c'(2) other by blast
qed

lemma poi_key_eq [simp]: "poi_key dep a = poi_key dep b \<longleftrightarrow> a = b"
  by (simp add: poi_key_def)

lemma update_regions_result:
  assumes R: "entity_reader (rt_cache rt) items S"
    and "cache_ok items S c" "\<not> in_handler c" and "try_fold (update_region rt dep) regions c = Inr c'" and "hm_wf regions"
  shows "cache_ok items S c' \<and> \<not> in_handler c' \<and> EntityCache.data_sources c' = EntityCache.data_sources c \<and>
    (\<forall>k. (\<forall>rg \<in> set (hm_keys regions). k \<noteq> poi_key dep rg) \<longrightarrow> same_entity (cache_value S c' k) (cache_value S c k)) \<and>
    (\<forall>rg st. (rg, st) \<in> set regions \<longrightarrow>
       (\<exists>prev. has_digest (stream_pause (rt_hash rt) prev st) (cache_value S c' (poi_key dep rg))))"
  using assms(2-)
proof (induction regions arbitrary: c)
  case Nil
  then show ?case by simp
next
  case (Cons x regions)
  obtain rg st where x: "x = (rg, st)" by (cases x)
  obtain c1 where c1: "update_region rt dep (rg, st) c = Inr c1" "try_fold (update_region rt dep) regions c1 = Inr c'"
    using Cons.prems(3) x by (auto simp: and_then_eq_Inr_iff)
  note u = update_region_result [OF R Cons.prems(1,2) c1(1)]
  have nd: "rg \<notin> set (hm_keys regions)" "hm_wf regions" using Cons.prems(4) x by auto
  have IH: "cache_ok items S c'" "\<not> in_handler c'" "EntityCache.data_sources c' = EntityCache.data_sources c1"
    "\<And>k. (\<forall>rg \<in> set (hm_keys regions). k \<noteq> poi_key dep rg) \<Longrightarrow> same_entity (cache_value S c' k) (cache_value S c1 k)"
    "\<And>rg st. (rg, st) \<in> set regions \<Longrightarrow>
       \<exists>prev. has_digest (stream_pause (rt_hash rt) prev st) (cache_value S c' (poi_key dep rg))"
    using Cons.IH [OF _ _ c1(2) nd(2)] u by blast+
  have "same_entity (cache_value S c' k) (cache_value S c k)" if "\<forall>r \<in> set (hm_keys (x # regions)). k \<noteq> poi_key dep r" for k
    using IH(4) [of k] u that x same_entity_trans by auto
  moreover have "\<exists>prev. has_digest (stream_pause (rt_hash rt) prev st') (cache_value S c' (poi_key dep rg'))"
    if "(rg', st') \<in> set (x # regions)" for rg' st'
  proof (cases "(rg', st') \<in> set regions")
    case False
    then have eq: "rg' = rg" "st' = st" using that x by auto
    obtain prev where "has_digest (stream_pause (rt_hash rt) prev st) (cache_value S c1 (poi_key dep rg))" using u by blast
    moreover have "same_entity (cache_value S c' (poi_key dep rg)) (cache_value S c1 (poi_key dep rg))"
      using nd(1) by (intro IH(4)) auto
    ultimately show ?thesis using has_digest_cong eq by blast
  qed (rule IH(5))
  ultimately show ?case using IH u by auto
qed
section \<open>Writing a block\<close>

text \<open>The steps of a block that is written.\<close>

definition poi_cache ::
  "('e, 'q, 'd, 't, 's, 'h, 'ds, 'trigger, 'b, 'w) runner_env \<Rightarrow> ('e, 'q, 't, 's, 'h) runtime \<Rightarrow>
   ('s, 'h) ProofOfIndexing option \<Rightarrow> ('q, 'd) EntityCache \<Rightarrow> (block_error, ('q, 'd) EntityCache) result" where
  "poi_cache env rt poi c =
     (case poi of None \<Rightarrow> Inr c | Some p \<Rightarrow> update_proof_of_indexing rt (rn_deployment env) p c)"

lemma finish_block_Inr:
  assumes "finish_block env rt canceled ptr cursor restart s poi r = (Inr action, r')"
  obtains c mc w where "poi_cache env rt poi (entity_cache s) = Inr c" "as_modifications (rt_cache rt) c = Inr mc"
    "\<not> (has_errors s \<and> \<not> rn_non_fatal_errors env)"
    "rn_transact env ptr cursor (modifications mc) (mc_data_sources mc) (deterministic_errors s) (r_store r) = Inr w"
    "r' = r\<lparr>r_entity_lfu_cache := entity_lfu_cache mc, r_store := w\<rparr>"
proof -
  obtain c where c: "poi_cache env rt poi (entity_cache s) = Inr c"
    using assms unfolding finish_block_def poi_cache_def [symmetric]
    by (cases canceled; cases "poi_cache env rt poi (entity_cache s)") simp_all
  have nc: "\<not> canceled" using assms by (cases canceled) (simp_all add: finish_block_def)
  obtain mc where mc: "as_modifications (rt_cache rt) c = Inr mc"
    using assms nc c unfolding finish_block_def poi_cache_def [symmetric]
    by (cases "as_modifications (rt_cache rt) c") (auto split: cache_error.splits)
  have run: "(let r1 = r\<lparr>r_entity_lfu_cache := entity_lfu_cache mc\<rparr>;
                       fatal = (has_errors s \<and> \<not> rn_non_fatal_errors env);
                       mods = (if fatal then filter (\<lambda>m. is_poi (entity_type (entity_key m))) (modifications mc)
                               else modifications mc)
                   in if fatal \<and> length mods \<noteq> 1 then (Inl BP_Panic, r1)
                      else
                        (case rn_transact env ptr cursor mods (mc_data_sources mc) (deterministic_errors s) (r_store r) of
                           Inl e \<Rightarrow> (Inl (BP_Unknown e), r1)
                         | Inr w \<Rightarrow>
                             (let r2 = r1\<lparr>r_store := w\<rparr> in
                              if fatal then (Inl (BP_Deterministic (hd (deterministic_errors s))), r2)
                              else if has_errors s \<and> \<not> rn_disable_fail_fast env then
                                (case rn_is_deployment_synced env w of
                                   Inl e \<Rightarrow> (Inl (BP_Unknown e), r2)
                                 | Inr True \<Rightarrow> (Inr (if restart then Restart else Continue), r2)
                                 | Inr False \<Rightarrow>
                                     (case rn_unassign_subgraph env w of
                                        Inl e \<Rightarrow> (Inl (BP_Unknown e), r2)
                                      | Inr w1 \<Rightarrow> (Inl BP_Canceled, r2\<lparr>r_store := w1\<rparr>)))
                              else (Inr (if restart then Restart else Continue), r2)))) = (Inr action, r')"
    using assms nc c mc unfolding finish_block_def poi_cache_def [symmetric] by simp
  have nf: "\<not> (has_errors s \<and> \<not> rn_non_fatal_errors env)"
    using run by (auto simp: Let_def split: if_splits sum.splits)
  obtain w where w: "rn_transact env ptr cursor (modifications mc) (mc_data_sources mc) (deterministic_errors s) (r_store r) = Inr w"
    using run nf by (cases "rn_transact env ptr cursor (modifications mc) (mc_data_sources mc) (deterministic_errors s) (r_store r)")
      (auto simp: Let_def)
  have "r' = r\<lparr>r_entity_lfu_cache := entity_lfu_cache mc, r_store := w\<rparr>"
    using run nf w by (auto simp: Let_def split: if_splits sum.splits bool.splits)
  with c mc nf w that show thesis by blast
qed

text \<open>What the modifications of a block amount to, for a schema without immutable types.\<close>

lemma block_modifications_correct:
  assumes R: "entity_reader (rt_cache rt) items S"
    and inv: "block_inv rt n region sid items S S es s poi"
    and imm: "\<forall>ty. \<not> is_immutable (input_schema (rt_cache rt)) ty"
    and c: "poi_cache env rt poi (entity_cache s) = Inr c" and mc: "as_modifications (rt_cache rt) c = Inr mc"
  shows "distinct (map entity_key (modifications mc)) \<and>
    coherent items (fold apply_modification (modifications mc) S) (entity_lfu_cache mc) \<and>
    (\<forall>k. \<not> is_poi (entity_type k) \<longrightarrow>
       same_entity (fold apply_modification (modifications mc) S k) (fold (apply_event (rt_cache rt) sid) (effective es) S k)) \<and>
    (poi \<noteq> None \<longrightarrow> es \<noteq> [] \<longrightarrow>
       (\<exists>prev hs. has_digest (stream_pause (rt_hash rt) prev (stream_of (rt_hash rt) n es hs))
          (fold apply_modification (modifications mc) S (poi_key (rn_deployment env) region))))"
proof -
  have ok: "cache_ok items S (entity_cache s)" "\<not> in_handler (entity_cache s)"
    using inv by (simp_all add: block_inv_def bs_ok_def)
  obtain hs where hs: "poi_records (rt_hash rt) n poi region es hs" using inv by (auto simp: block_inv_def)
  have c': "cache_ok items S c \<and> \<not> in_handler c \<and>
      (\<forall>k. \<not> is_poi (entity_type k) \<longrightarrow> same_entity (cache_value S c k) (cache_value S (entity_cache s) k)) \<and>
      (poi \<noteq> None \<longrightarrow> es \<noteq> [] \<longrightarrow> (\<exists>prev. has_digest (stream_pause (rt_hash rt) prev (stream_of (rt_hash rt) n es hs))
          (cache_value S c (poi_key (rn_deployment env) region))))"
  proof (cases poi)
    case None
    then show ?thesis using c ok by (simp add: poi_cache_def)
  next
    case (Some p)
    then have rec: "records (rt_hash rt) n p region es hs" using hs by (simp add: poi_records_def)
    then have wf: "hm_wf (per_causality_region p)" by (simp add: records_def)
    have run: "try_fold (update_region rt (rn_deployment env)) (per_causality_region p) (entity_cache s) = Inr c"
      using c Some by (simp add: poi_cache_def update_proof_of_indexing_def)
    note u = update_regions_result [OF R ok run wf]
    have "(region, stream_of (rt_hash rt) n es hs) \<in> set (per_causality_region p)" if "es \<noteq> []"
      using rec that wf by (auto simp: records_def split: option.splits)
    moreover have "k \<noteq> poi_key (rn_deployment env) rg" if "\<not> is_poi (entity_type k)" for k rg
      using that by (auto simp: poi_key_def is_poi_def POI_OBJECT_def)
    ultimately show ?thesis using u by blast
  qed
  obtain mc' where mc': "as_modifications (rt_cache rt) c = Inr mc'" "distinct (map entity_key (modifications mc'))"
      "\<forall>k. same_entity (fold apply_modification (modifications mc') S k) (cache_value S c k)"
      "coherent items (fold apply_modification (modifications mc') S) (entity_lfu_cache mc')"
    using entity_reader.as_modifications_spec [OF R, of c] c' imm by blast
  then have m: "mc' = mc" using mc by simp
  have vals: "same_values (values_of S s) (fold (apply_event (rt_cache rt) sid) (effective es) S)"
    using inv by (simp add: block_inv_def)
  have "same_entity (fold apply_modification (modifications mc) S k) (fold (apply_event (rt_cache rt) sid) (effective es) S k)"
    if "\<not> is_poi (entity_type k)" for k
  proof -
    have "same_entity (fold apply_modification (modifications mc) S k) (cache_value S c k)" using mc'(3) m by simp
    also have "same_entity (cache_value S c k) (cache_value S (entity_cache s) k)" using c' that by blast
    also have "same_entity (cache_value S (entity_cache s) k) (fold (apply_event (rt_cache rt) sid) (effective es) S k)"
      using vals by (simp add: same_values_def values_of_def)
    finally show ?thesis .
  qed
  moreover have "\<exists>prev hs. has_digest (stream_pause (rt_hash rt) prev (stream_of (rt_hash rt) n es hs))
      (fold apply_modification (modifications mc) S (poi_key (rn_deployment env) region))"
    if "poi \<noteq> None" "es \<noteq> []"
    using c' that mc'(3) m has_digest_cong by blast
  ultimately show ?thesis using mc'(2,4) m by blast
qed
lemma stream_pause_start: "stream_pause lib prev (stream_of lib n es hs) = stream_pause lib prev (stream_of lib n es 0)"
  by (simp add: stream_pause_def stream_of_def)

text \<open>A block that succeeds either found a reorganisation before anything was done, or was finished.\<close>

lemma process_block_Inr:
  assumes "process_block env canceled block cursor r = Some (Inr action, r')"
  shows "(action = Restart \<and> r' = r\<lparr>r_entity_lfu_cache := lfu_new (ce_api (rt_cache (rn_runtime env (r_store r))))\<rparr>) \<or>
    (\<exists>supported s poi restart s1 poi1 inst flt.
       rn_supports_proof_of_indexing env (r_store r) = Inr supported \<and>
       process_triggers (rn_runtime env (r_store r)) (rn_chain env) (bt_ptr block) (from_network (si_network (r_instance r)))
         (si_hosts (r_instance r)) (trigger_data block) (bs_new (r_entity_lfu_cache r))
         (if supported then Some (poi_new (ptr_number (bt_ptr block))) else None) = Some (Inr s, poi) \<and>
       created_data_sources_loop env (rn_runtime env (r_store r)) (bt_block block) (bt_ptr block)
         (from_network (si_network (r_instance r))) (s, poi, r_instance r, r_filter r) = Some (Inr s1, poi1, inst, flt) \<and>
       finish_block env (rn_runtime env (r_store r)) canceled (bt_ptr block) cursor restart s1 poi1
         (r\<lparr>r_entity_lfu_cache := lfu_new (ce_api (rt_cache (rn_runtime env (r_store r)))), r_instance := inst, r_filter := flt\<rparr>) =
         (Inr action, r'))"
proof -
  obtain supported where sup: "rn_supports_proof_of_indexing env (r_store r) = Inr supported"
    using assms by (auto simp: process_block_def Let_def split: sum.splits)
  let ?rt = "rn_runtime env (r_store r)" and ?region = "from_network (si_network (r_instance r))"
  let ?poi = "if supported then Some (poi_new (ptr_number (bt_ptr block))) else None"
  let ?pt = "process_triggers ?rt (rn_chain env) (bt_ptr block) ?region (si_hosts (r_instance r)) (trigger_data block)
    (bs_new (r_entity_lfu_cache r)) ?poi"
  obtain x poi where pt: "?pt = Some (x, poi)"
    using assms sup by (cases ?pt) (auto simp: process_block_def Let_def)
  show ?thesis
  proof (cases x)
    case (Inl e)
    then show ?thesis using assms sup pt by (cases e) (auto simp: process_block_def Let_def)
  next
    case (Inr s)
    obtain created where cr: "has_created_data_sources s = Inr created"
      using assms sup pt Inr by (cases "has_created_data_sources s") (auto simp: process_block_def Let_def)
    let ?loop = "created_data_sources_loop env ?rt (bt_block block) (bt_ptr block) ?region (s, poi, r_instance r, r_filter r)"
    obtain y poi1 inst flt where loop: "?loop = Some (y, poi1, inst, flt)"
      using assms sup pt Inr cr by (cases ?loop) (auto simp: process_block_def Let_def)
    obtain s1 where s1: "y = Inr s1"
      using assms sup pt Inr cr loop by (cases y) (auto simp: process_block_def Let_def)
    have fin: "finish_block env ?rt canceled (bt_ptr block) cursor (created \<and> \<not> rn_static_filters env) s1 poi1
         (r\<lparr>r_entity_lfu_cache := lfu_new (ce_api (rt_cache ?rt)), r_instance := inst, r_filter := flt\<rparr>) = (Inr action, r')"
      using assms sup pt Inr cr loop s1 by (simp add: process_block_def Let_def)
    show ?thesis using sup pt Inr loop s1 fin by blast
  qed
qed

lemma bs_new_fields [simp]:
  "values_of S (bs_new lfu) = S" "deterministic_errors (bs_new lfu) = []" "bs_in_handler (bs_new lfu) = False"
  by (simp_all add: values_of_def bs_new_def with_current_def cache_value_def fun_eq_iff)

lemma bs_new_inv:
  assumes "coherent items S lfu" and "0 \<le> n"
  shows "block_inv rt n region sid items S S [] (bs_new lfu) (if b then Some (poi_new n) else None)"
  using assms bs_new_ok [OF assms(1)] by (auto simp: block_inv_def poi_records_def intro!: exI [of _ 0])

text \<open>The assumptions on the runner before a block.\<close>

definition runner_ok ::
  "('e, 'q, 'd, 't, 's, 'h, 'ds, 'trigger, 'b, 'w) runner_env \<Rightarrow> _ \<Rightarrow> (EntityKey \<Rightarrow> Entity option) \<Rightarrow>
   ('e, 'q, 'd, 't, 's, 'h, 'ds, 'w) SubgraphRunner \<Rightarrow> bool" where
  "runner_ok env items S r \<longleftrightarrow>
     coherent items S (r_entity_lfu_cache r) \<and> instance_wf (rn_chain env) (r_instance r)"

text \<open>
  Chains on which a trigger is for one data source, whose modules are well-formed, and a schema
  without immutable types.
\<close>

definition env_ok ::
  "('e, 'q, 'd, 't, 's, 'h, 'ds, 'trigger, 'b, 'w) runner_env \<Rightarrow> 'w \<Rightarrow> bool" where
  "env_ok env w \<longleftrightarrow>
     exclusive (rn_chain env) \<and> modules_wf (rn_chain env) \<and>
     immutable_types (input_schema (rt_cache (rn_runtime env w))) = []"

lemma process_block_written:
  assumes R: "entity_reader (rt_cache (rn_runtime env (r_store r))) items S"
    and ok: "runner_ok env items S r" "env_ok env (r_store r)" and n: "0 \<le> ptr_number (bt_ptr block)"
    and run: "process_block env canceled block cursor r = Some (Inr action, r')"
  shows "(action = Restart \<and> r' = r\<lparr>r_entity_lfu_cache := lfu_new (ce_api (rt_cache (rn_runtime env (r_store r))))\<rparr>) \<or>
    (\<exists>mods dss errs es. rn_transact env (bt_ptr block) cursor mods dss errs (r_store r) = Inr (r_store r') \<and>
       distinct (map entity_key mods) \<and>
       (\<forall>k. \<not> is_poi (entity_type k) \<longrightarrow> same_entity (fold apply_modification mods S k)
          (fold (apply_event (rt_cache (rn_runtime env (r_store r))) (si_subgraph_id (r_instance r))) (effective es) S k)) \<and>
       (rn_supports_proof_of_indexing env (r_store r) = Inr True \<longrightarrow> es \<noteq> [] \<longrightarrow>
          (\<exists>prev e. fold apply_modification mods S (poi_key (rn_deployment env) (from_network (si_network (r_instance r)))) = Some e \<and>
             hm_get e ''digest'' = Some (V_Bytes (stream_pause (rt_hash (rn_runtime env (r_store r))) prev
               (stream_of (rt_hash (rn_runtime env (r_store r))) (ptr_number (bt_ptr block)) es 0))))) \<and>
       coherent items (fold apply_modification mods S) (r_entity_lfu_cache r') \<and> instance_wf (rn_chain env) (r_instance r'))"
  using process_block_Inr [OF run]
proof
  let ?rt = "rn_runtime env (r_store r)" and ?region = "from_network (si_network (r_instance r))" and ?n = "ptr_number (bt_ptr block)"
  let ?sid = "si_subgraph_id (r_instance r)"
  assume "\<exists>supported s poi restart s1 poi1 inst flt.
       rn_supports_proof_of_indexing env (r_store r) = Inr supported \<and>
       process_triggers ?rt (rn_chain env) (bt_ptr block) ?region
         (si_hosts (r_instance r)) (trigger_data block) (bs_new (r_entity_lfu_cache r))
         (if supported then Some (poi_new ?n) else None) = Some (Inr s, poi) \<and>
       created_data_sources_loop env ?rt (bt_block block) (bt_ptr block) ?region (s, poi, r_instance r, r_filter r) = Some (Inr s1, poi1, inst, flt) \<and>
       finish_block env ?rt canceled (bt_ptr block) cursor restart s1 poi1
         (r\<lparr>r_entity_lfu_cache := lfu_new (ce_api (rt_cache ?rt)), r_instance := inst, r_filter := flt\<rparr>) = (Inr action, r')"
  then obtain supported s poi restart s1 poi1 inst flt where
    sup: "rn_supports_proof_of_indexing env (r_store r) = Inr supported"
    and pt: "process_triggers ?rt (rn_chain env) (bt_ptr block) ?region (si_hosts (r_instance r)) (trigger_data block)
      (bs_new (r_entity_lfu_cache r)) (if supported then Some (poi_new ?n) else None) = Some (Inr s, poi)"
    and loop: "created_data_sources_loop env ?rt (bt_block block) (bt_ptr block) ?region (s, poi, r_instance r, r_filter r) = Some (Inr s1, poi1, inst, flt)"
    and fin: "finish_block env ?rt canceled (bt_ptr block) cursor restart s1 poi1
         (r\<lparr>r_entity_lfu_cache := lfu_new (ce_api (rt_cache ?rt)), r_instance := inst, r_filter := flt\<rparr>) = (Inr action, r')"
    by blast
  have ex: "exclusive (rn_chain env)" "modules_wf (rn_chain env)" and imm: "\<forall>ty. \<not> is_immutable (input_schema (rt_cache ?rt)) ty"
    using ok(2) by (simp_all add: env_ok_def is_immutable_def)
  have inst: "instance_wf (rn_chain env) (r_instance r)" "coherent items S (r_entity_lfu_cache r)"
    using ok(1) by (simp_all add: runner_ok_def)
  have hosts: "list_all (host_wf ?region ?sid) (si_hosts (r_instance r))" "no_duplicates (rn_chain env) (si_hosts (r_instance r))"
    using inst(1) by (simp_all add: instance_wf_def)
  obtain es0 where es0: "block_inv ?rt ?n ?region ?sid items S S es0 s poi" "poi = None \<longleftrightarrow> \<not> supported"
    using process_triggers_inv [OF R ex(1) hosts bs_new_inv [OF inst(2) n] pt] by (auto split: if_splits)
  have "round_inv env ?rt ?n ?region ?sid items S (s, poi, r_instance r, r_filter r)"
    using es0(1) inst(1) by (auto simp: round_inv_def)
  from loop_inv [OF R ex this loop] obtain es where
    es: "block_inv ?rt ?n ?region ?sid items S S es s1 poi1" "instance_wf (rn_chain env) inst" "poi1 = None \<longleftrightarrow> \<not> supported"
    using es0(2) by (auto simp: round_inv_def)
  obtain c mc w where f: "poi_cache env ?rt poi1 (entity_cache s1) = Inr c" "as_modifications (rt_cache ?rt) c = Inr mc"
    "rn_transact env (bt_ptr block) cursor (modifications mc) (mc_data_sources mc) (deterministic_errors s1) (r_store r) = Inr w"
    "r' = r\<lparr>r_instance := inst, r_filter := flt, r_entity_lfu_cache := entity_lfu_cache mc, r_store := w\<rparr>"
    by (rule finish_block_Inr [OF fin]) simp
  note m = block_modifications_correct [OF R es(1) imm f(1,2)]
  have dig: "\<exists>prev e. fold apply_modification (modifications mc) S (poi_key (rn_deployment env) ?region) = Some e \<and>
      hm_get e ''digest'' = Some (V_Bytes (stream_pause (rt_hash ?rt) prev (stream_of (rt_hash ?rt) ?n es 0)))"
    if poi: "rn_supports_proof_of_indexing env (r_store r) = Inr True" and some: "es \<noteq> []"
  proof -
    have "poi1 \<noteq> None" using poi sup es(3) by simp
    then obtain prev hs where "has_digest (stream_pause (rt_hash ?rt) prev (stream_of (rt_hash ?rt) ?n es hs))
        (fold apply_modification (modifications mc) S (poi_key (rn_deployment env) ?region))"
      using m some by blast
    then show ?thesis unfolding has_digest_def stream_pause_start [of _ _ _ _ hs] using visible_get by blast
  qed
  show ?thesis
    using m f(3) es(2) dig
    by (intro disjI2 exI [of _ "modifications mc"] exI [of _ "mc_data_sources mc"] exI [of _ "deterministic_errors s1"] exI [of _ es])
      (simp add: f(4))
qed simp

end
