(* ===== verification/Block_Guarantees.thy ===== *)
theory Block_Guarantees
  imports Block_Processing
begin

text \<open>
  The properties of the runner and of the instance: what a block writes and proves, that processing
  ends, what happens to data sources when a block is reverted or tried again, and the cases in
  which the code does not do what its comments say.
\<close>

text \<open>Equations that compute with integers.\<close>

declare created_data_sources_loop.simps [code]

lemma saturating_add_code [code]:
  "saturating_add a b = (if uint a + uint b < 2 ^ LENGTH('a) then a + b else - 1)" for a b :: "'a::len word"
proof -
  have "unat a + unat b < 2 ^ LENGTH('a) \<longleftrightarrow> int (unat a + unat b) < int (2 ^ LENGTH('a))" by (simp only: of_nat_less_iff)
  then show ?thesis by (simp add: saturating_add_def)
qed

lemma saturating_mul_code [code]:
  "saturating_mul a b = (if uint a * uint b < 2 ^ LENGTH('a) then a * b else - 1)" for a b :: "'a::len word"
proof -
  have "unat a * unat b < 2 ^ LENGTH('a) \<longleftrightarrow> int (unat a * unat b) < int (2 ^ LENGTH('a))" by (simp only: of_nat_less_iff)
  then show ?thesis by (simp add: saturating_mul_def)
qed

lemma usize_add_code [code]: "usize_add a b = nat ((int a + int b) mod 2 ^ 64)"
  by (simp add: usize_add_def USIZE_MOD_def nat_mod_distrib nat_add_distrib)

lemma usize_sub_code [code]: "usize_sub a b = nat ((int a - int b) mod 2 ^ 64)"
  by (simp add: usize_sub_def USIZE_MOD_def)

lemma saturating_from_usize_code [code]:
  "saturating_from_usize n = (if int n < 2 ^ 64 then of_nat n else - 1)"
proof -
  have "n < 2 ^ 64 \<longleftrightarrow> int n < int (2 ^ 64)" by (simp only: of_nat_less_iff)
  then show ?thesis by (simp add: saturating_from_usize_def)
qed

section \<open>A subgraph in memory\<close>

text \<open>
  The chain at which the properties are exercised: data sources and triggers are numbers, \<open>calls\<close> are
  the host functions that the handler of a data source calls, and \<open>on\<close> says which triggers are for
  it. The store keeps the modifications and the data sources of every block.
\<close>

definition sample_hash :: "(nat, nat) stable_hash" where
  "sample_hash =
     \<lparr>seq_root = 0, seq_skip = (\<lambda>i s. s + i), seq_next_child = (\<lambda>s. (2 * s, s + 1)),
      hash_string = (\<lambda>x s h. h + length x), hash_data = (\<lambda>e s h. h + length e), hash_u64 = (\<lambda>n s h. h + unat n),
      hasher_new = 0, hasher_to_bytes = (\<lambda>h. [of_nat h]), hasher_from_bytes = length,
      hasher_finish_unordered = (\<lambda>a s b. a + b)\<rparr>"

definition sample_runtime ::
  "('s, 'h) stable_hash \<Rightarrow> (unit, (EntityKey, Entity option) lpq, string, 's, 'h) runtime" where
  "sample_runtime lib =
     \<lparr>rt_cache = mem_env sample_contents, rt_hash = lib, rt_bits = (\<lambda>_. 8),
      rt_big = \<lparr>bn_div = (div), bn_rem = (mod), bn_or = max, bn_and = min, bn_shr = (\<lambda>x b. x div 2 ^ unat b)\<rparr>,
      rt_max_gas = 10000000000000, rt_template_name = id, rt_message = (\<lambda>_. ''error'')\<rparr>"

definition sample_module ::
  "unit host_call list \<Rightarrow> (unit, (EntityKey, Entity option) lpq, nat, string, 's, 'h) wasm_module" where
  "sample_module calls = \<lparr>wm_start = Some (\<lambda>_. ([], None)), wm_handler = (\<lambda>_. Some (Handler (\<lambda>_. (calls, None))))\<rparr>"

definition sample_chain ::
  "(nat \<Rightarrow> unit host_call list) \<Rightarrow> (nat \<Rightarrow> nat \<Rightarrow> bool) \<Rightarrow>
   (unit, (EntityKey, Entity option) lpq, nat, string, 's, 'h, nat, nat) chain" where
  "sample_chain calls on =
     \<lparr>ds_name = (\<lambda>_. ''ds''), ds_address = (\<lambda>_. None), ds_context = (\<lambda>_. None), ds_new_api = (\<lambda>_. True),
      ds_creation_block = (\<lambda>ds. if ds = 0 then None else Some 5), ds_is_duplicate_of = (=),
      ds_match_and_decode = (\<lambda>ds t. Inr (if on ds t then Some \<lparr>handler_name = ''handle'', tr_allocations = []\<rparr> else None)),
      spawn_mapping = (\<lambda>ds. Inr (sample_module (calls ds))), host_fns = (\<lambda>_. Inr ())\<rparr>"

definition sample_host ::
  "(nat \<Rightarrow> unit host_call list) \<Rightarrow> nat \<Rightarrow> (unit, (EntityKey, Entity option) lpq, nat, string, 's, 'h, nat) RuntimeHost" where
  "sample_host calls ds =
     \<lparr>rh_data_source = ds, rh_exports = he_new ''Qm'' ''ds'' None None ''mainnet'' [''child''], rh_new_api = True,
      rh_module = sample_module (calls ds)\<rparr>"

type_synonym sample_store = "(EntityModification list \<times> nat list) list"

definition sample_env ::
  "(nat \<Rightarrow> unit host_call list) \<Rightarrow> (nat \<Rightarrow> nat \<Rightarrow> bool) \<Rightarrow> bool \<Rightarrow> (sample_store \<Rightarrow> bool) \<Rightarrow>
   (unit, (EntityKey, Entity option) lpq, nat, string, nat, nat, nat, nat, unit, sample_store) runner_env" where
  "sample_env calls on supported broken =
     \<lparr>rn_chain = sample_chain calls on, rn_runtime = (\<lambda>_. sample_runtime sample_hash), rn_deployment = ''Qm'',
      rn_templates = [''child''], rn_static_filters = True, rn_non_fatal_errors = False, rn_stop_block = None,
      rn_max_data_sources = Some 10, rn_disable_fail_fast = True, rn_try_from = (\<lambda>info. Inr (length (ti_params info))),
      rn_as_stored = id, rn_triggers_in_block = (\<lambda>_ dss. Inr dss), rn_supports_proof_of_indexing = (\<lambda>_. Inr supported),
      rn_transact = (\<lambda>ptr cursor mods dss errs w. if broken w then Inl ''connection lost'' else Inr ((mods, dss) # w)),
      rn_is_deployment_synced = (\<lambda>_. Inr True), rn_unassign_subgraph = Inr, rn_deployment_synced = Inr,
      rn_unfail_non_deterministic_error = (\<lambda>_ w. Inr (Noop, w)), rn_fail_subgraph = (\<lambda>_ w. Inr w),
      rn_health = (\<lambda>_. Inr Healthy), rn_block_ptr = (\<lambda>_. None), rn_revert_block_operations = (\<lambda>_ _ w. Inr w),
      rn_overflow_checks = True, rn_block_message = (\<lambda>_. ''failed'')\<rparr>"

definition sample_runner ::
  "(nat \<Rightarrow> unit host_call list) \<Rightarrow>
   (unit, (EntityKey, Entity option) lpq, nat, string, nat, nat, nat, sample_store) SubgraphRunner" where
  "sample_runner calls =
     \<lparr>r_instance = \<lparr>si_subgraph_id = ''Qm'', si_network = ''mainnet'', si_hosts = [sample_host calls 0]\<rparr>,
      r_filter = [0], r_store = [], r_entity_lfu_cache = lfu_new lpq_api,
      r_should_try_unfail_non_deterministic = False, r_synced = True,
      r_backoff = backoff_new 120 1800\<rparr>"

definition sample_block :: "(unit, nat) BlockWithTriggers" where
  "sample_block = \<lparr>bt_block = (), bt_ptr = \<lparr>ptr_hash = [], ptr_number = 5\<rparr>, trigger_data = [0]\<rparr>"

lemma sample_fields [simp]:
  "rn_runtime (sample_env calls on supported broken) w = sample_runtime sample_hash"
  "rn_chain (sample_env calls on supported broken) = sample_chain calls on"
  "rn_supports_proof_of_indexing (sample_env calls on supported broken) w = Inr supported"
  "rn_transact (sample_env calls on supported broken) ptr cursor mods dss errs w =
    (if broken w then Inl ''connection lost'' else Inr ((mods, dss) # w))"
  "rn_max_data_sources (sample_env calls on supported broken) = Some 10"
  "rt_cache (sample_runtime lib) = mem_env sample_contents"
  "r_store (sample_runner calls) = []"
  "si_subgraph_id (r_instance (sample_runner calls)) = ''Qm''"
  "ptr_number (bt_ptr sample_block) = 5"
  by (simp_all add: sample_env_def sample_runtime_def sample_runner_def sample_block_def)

lemma sample_module_wf [simp]: "list_all call_wf calls \<Longrightarrow> module_wf (sample_module calls)"
  by (simp add: module_wf_def sample_module_def)

lemma sample_instance_wf:
  assumes "\<forall>ds. list_all call_wf (calls ds)"
  shows "instance_wf (sample_chain calls on) (r_instance (sample_runner calls))"
  using assms
  by (simp add: instance_wf_def no_duplicates_def host_wf_def sample_runner_def sample_host_def he_new_def)

lemma sample_runner_ok:
  assumes "\<forall>ds. list_all call_wf (calls ds)"
  shows "runner_ok (sample_env calls on supported broken) lpq_items (mem_S sample_contents) (sample_runner calls)"
proof -
  have "coherent lpq_items (mem_S sample_contents) (lfu_new lpq_api)"
    using sample.lfu_new_inv sample.lfu_new_view by (simp add: coherent_def mem_env_def)
  then show ?thesis
    using sample_instance_wf [OF assms, of on] by (simp add: runner_ok_def sample_env_def sample_runner_def)
qed

lemma sample_env_ok:
  assumes "\<forall>ds. list_all call_wf (calls ds)"
  shows "env_ok (sample_env calls (=) supported broken) w"
  using assms
  by (auto simp: env_ok_def exclusive_def modules_wf_def sample_env_def sample_chain_def sample_runtime_def mem_env_def split: if_splits)

section \<open>What a block writes\<close>


definition remove_token :: "nat \<Rightarrow> unit host_call list" where
  "remove_token ds = [Call_store_remove ''Token'' ''a'']"

lemma remove_token_run:
  "case process_block (sample_env remove_token (=) True (\<lambda>_. False)) False sample_block None (sample_runner remove_token) of
     Some (Inr Continue, r') \<Rightarrow> map (\<lambda>x. map entity_key (fst x)) (r_store r') =
       [[poi_key ''Qm'' (from_network ''mainnet''), token_key ''a'']] \<or>
       map (\<lambda>x. map entity_key (fst x)) (r_store r') = [[token_key ''a'', poi_key ''Qm'' (from_network ''mainnet'')]]
   | _ \<Rightarrow> False"
  by code_simp

section \<open>Fatal errors\<close>

lemma loop_not_deterministic:
  assumes "created_data_sources_loop env rt block ptr region st = Some (Inl (BP_Deterministic e), poi', inst', flt')"
  shows False
proof -
  obtain st' where "data_source_round env rt block ptr region st' = Inl (Inl (BP_Deterministic e), poi', inst', flt')"
    using loop_rule [OF assms, where I = "\<lambda>_. True"] by blast
  moreover have "add_block_error x \<noteq> BP_Deterministic e" "mapping_block_error y \<noteq> BP_Deterministic e" for x y
    by (cases x; simp) (cases y; simp)
  ultimately show False
    by (auto simp: data_source_round_def Let_def split: prod.splits sum.splits if_splits option.splits)
qed

lemma update_region_not_deterministic: "update_region rt dep x c \<noteq> Inl (BP_Deterministic e)"
  by (auto simp: update_region_def split: prod.splits sum.splits option.splits)

lemma update_proof_of_indexing_not_deterministic:
  "update_proof_of_indexing rt dep poi c \<noteq> Inl (BP_Deterministic e)"
proof -
  have "try_fold (update_region rt dep) regions c \<noteq> Inl (BP_Deterministic e)" for regions
    by (induction regions arbitrary: c) (auto simp: and_then_def update_region_not_deterministic split: sum.splits)
  then show ?thesis by (simp add: update_proof_of_indexing_def)
qed

lemma finish_block_deterministic:
  assumes "finish_block env rt canceled ptr cursor restart s poi r = (Inl (BP_Deterministic e), r')"
  obtains m dss where "rn_transact env ptr cursor [m] dss (deterministic_errors s) (r_store r) = Inr (r_store r')"
    "is_poi (entity_type (entity_key m))" "deterministic_errors s \<noteq> []" "e = hd (deterministic_errors s)"
    "\<not> rn_non_fatal_errors env"
proof -
  have nc: "\<not> canceled" using assms by (auto simp: finish_block_def)
  obtain c where c: "poi_cache env rt poi (entity_cache s) = Inr c"
  proof (cases "poi_cache env rt poi (entity_cache s)")
    case (Inl x)
    then have "x = BP_Deterministic e"
      using assms nc unfolding finish_block_def poi_cache_def [symmetric] by simp
    then have False
      using Inl by (auto simp: poi_cache_def update_proof_of_indexing_not_deterministic split: option.splits)
    then show ?thesis ..
  qed
  obtain mc where mc: "as_modifications (rt_cache rt) c = Inr mc"
  proof (cases "as_modifications (rt_cache rt) c")
    case (Inl x)
    then have False using assms nc c unfolding finish_block_def poi_cache_def [symmetric] by (cases x) simp_all
    then show ?thesis ..
  qed
  let ?mods = "filter (\<lambda>m. is_poi (entity_type (entity_key m))) (modifications mc)"
  have fatal: "has_errors s" "\<not> rn_non_fatal_errors env" "length ?mods = 1"
    using assms nc c mc unfolding finish_block_def poi_cache_def [symmetric]
    by (auto simp: Let_def split: if_splits sum.splits bool.splits)
  obtain w where w: "rn_transact env ptr cursor ?mods (mc_data_sources mc) (deterministic_errors s) (r_store r) = Inr w"
    "r_store r' = w" "e = hd (deterministic_errors s)"
    using assms nc c mc fatal unfolding finish_block_def poi_cache_def [symmetric]
    by (auto simp: Let_def split: sum.splits)
  obtain m where m: "?mods = [m]" using fatal(3) by (auto simp: length_Suc_conv)
  then have "m \<in> set ?mods" by simp
  then have "is_poi (entity_type (entity_key m))" by simp
  then show thesis using that [of m "mc_data_sources mc"] w fatal m by (simp add: has_errors_def)
qed


definition abort_call :: "nat \<Rightarrow> unit host_call list" where
  "abort_call ds = [Call_store_remove ''Token'' ''a'', Call_abort None None 0 0]"

lemma abort_call_run:
  "case process_block (sample_env abort_call (=) True (\<lambda>_. False)) False sample_block None (sample_runner abort_call) of
     Some (Inl (BP_Deterministic e), r') \<Rightarrow> err_handler e = Some ''handle'' \<and> length (r_store r') = 1 | _ \<Rightarrow> False"
  by code_simp


section \<open>Termination\<close>

lemma create_dynamic_data_sources_length:
  assumes "create_dynamic_data_sources env infos inst = (Inr (dss, hosts), inst')" and "rn_max_data_sources env = Some m"
  shows "length (si_hosts inst') = length (si_hosts inst) + length hosts \<and> (hosts = [] \<or> length (si_hosts inst') \<le> m)"
  using assms(1)
proof (induction infos arbitrary: inst dss hosts)
  case (Cons info infos)
  obtain ds host inst1 dss1 hosts1 where
    add: "add_dynamic_data_source (rn_chain env) (rn_max_data_sources env) (rn_templates env) ds inst = Inr (host, inst1)"
    and rest: "create_dynamic_data_sources env infos inst1 = (Inr (dss1, hosts1), inst')"
    and res: "(dss, hosts) = (case host of None \<Rightarrow> (dss1, hosts1) | Some h \<Rightarrow> (ds # dss1, h # hosts1))"
    using Cons.prems by (auto split: sum.splits prod.splits)
  show ?case
    using Cons.IH [OF rest] add_dynamic_data_source_result [OF add] res assms(2) by auto
qed simp

text \<open>When no host is added, the loop ends with the next round.\<close>

lemma loop_returns:
  assumes max: "rn_max_data_sources env = Some m"
  shows "\<exists>res. created_data_sources_loop env rt block ptr region st = Some res"
proof (induction "m - length (si_hosts (fst (snd (snd st))))" arbitrary: st rule: less_induct)
  case less
  show ?case
  proof (cases "data_source_round env rt block ptr region st")
    case (Inl res)
    then show ?thesis by (intro exI [of _ res], subst created_data_sources_loop.simps) simp
  next
    case (Inr st1)
    obtain s poi inst flt where st: "st = (s, poi, inst, flt)" by (cases st)
    obtain s1 poi1 inst1 flt1 where st1: "st1 = (s1, poi1, inst1, flt1)" by (cases st1)
    obtain dss hosts ts s2 where r: "\<not> bs_in_handler s"
      "create_dynamic_data_sources env (created_data_sources s) inst = (Inr (dss, hosts), inst1)"
      "s2 = s\<lparr>created_data_sources := [], entity_cache := persist_dynamic_data_sources env dss (entity_cache s)\<rparr>"
      "process_triggers rt (rn_chain env) ptr region hosts ts s2 poi = Some (Inr s1, poi1)"
      using data_source_round_next [OF Inr [unfolded st st1]] by metis
    have "\<exists>res. created_data_sources_loop env rt block ptr region st1 = Some res"
    proof (cases "hosts = []")
      case True
      then have "s1 = s2" using process_triggers_no_hosts r(4) by blast
      then have "data_source_round env rt block ptr region st1 = Inl (Inr s1, poi1, inst1, flt1)"
        using r(1) by (simp add: data_source_round_def has_created_data_sources_def st1 r(3))
      then show ?thesis by (subst created_data_sources_loop.simps) simp
    next
      case False
      then have "m - length (si_hosts inst1) < m - length (si_hosts inst)"
        using create_dynamic_data_sources_length [OF r(2) max] by (cases hosts) auto
      then show ?thesis using less [of st1] by (simp add: st st1)
    qed
    then show ?thesis using Inr by (subst created_data_sources_loop.simps) simp
  qed
qed

text \<open>
  C15: with a limit on the number of data sources, processing a block ends, even when every data
  source creates another one in the same block: each round of the loop either adds a host, of which
  there are at most as many as the limit, or is the last but one.
\<close>

theorem block_processing_ends:
  assumes "rn_max_data_sources env = Some m"
  shows "\<exists>res. process_block env canceled block cursor r = Some res"
  using loop_returns [OF assms]
  by (auto simp: process_block_def Let_def split: sum.splits option.splits MappingError.splits) (metis option.distinct(1))+

text \<open>Every data source creates another one.\<close>

definition breed :: "nat \<Rightarrow> unit host_call list" where
  "breed ds = [Call_data_source_create ''child'' (replicate (Suc ds) ''x'') None]"

theorem block_processing_ends_witness:
  "\<exists>res. process_block (sample_env breed (=) True (\<lambda>_. False)) False sample_block None (sample_runner breed) = Some res"
  by (rule block_processing_ends [of _ 10]) simp

end
