(* ===== verification/Data_Source_Lifecycle.thy ===== *)
theory Data_Source_Lifecycle
  imports Block_Guarantees
begin

text \<open>
  The data sources of a subgraph as blocks are processed, reverted and tried again. Data sources
  that a block creates carry the number of the block, the hosts stay ordered by it, and reverting
  the block removes them.
\<close>

section \<open>The block of a new data source\<close>

definition at_block :: "int \<Rightarrow> ('q, 'd, 't) BlockState \<Rightarrow> bool" where
  "at_block n s \<longleftrightarrow> list_all (\<lambda>i. creation_block i = n) (created_data_sources s @ handler_created_data_sources s)"

lemma at_block_cong [simp]: "at_block n (s\<lparr>entity_cache := c\<rparr>) = at_block n s"
  by (simp add: at_block_def)

lemma at_block_new [simp]: "at_block n (bs_new lfu)"
  by (simp add: at_block_def bs_new_def)

lemma with_gas_state: "hc_state (wi_ctx (snd (with_gas env f w))) = hc_state (wi_ctx w)"
  by (simp add: with_gas_def split: prod.splits)

lemma raw_new_state: "raw_new env n a m w = Some (r, w1) \<Longrightarrow> hc_state (wi_ctx w1) = hc_state (wi_ctx w)"
  by (auto simp: raw_new_def Let_def split: prod.splits sum.splits if_splits)

lemma heap_get_state: "heap_get env n b w = (r, w1) \<Longrightarrow> hc_state (wi_ctx w1) = hc_state (wi_ctx w)"
  by (auto simp: heap_get_def split: prod.splits)

lemma store_set_at_block:
  "store_set rt he ty i data ctx = Some (r, ctx') \<Longrightarrow> at_block n (hc_state ctx) \<Longrightarrow> at_block n (hc_state ctx')"
  by (auto simp: store_set_def Let_def split: option.splits prod.splits sum.splits)

lemma store_remove_at_block:
  "store_remove rt he ty i ctx = Some (r, ctx') \<Longrightarrow> at_block n (hc_state ctx) \<Longrightarrow> at_block n (hc_state ctx')"
  by (auto simp: store_remove_def Let_def split: option.splits prod.splits sum.splits)

lemma store_get_at_block:
  "host_store_get rt he ty i ctx = (r, ctx') \<Longrightarrow> at_block n (hc_state ctx) \<Longrightarrow> at_block n (hc_state ctx')"
  by (auto simp: host_store_get_def Let_def split: option.splits prod.splits sum.splits)

lemma data_source_create_at_block:
  "data_source_create rt he name ps c n ctx = Some (r, ctx') \<Longrightarrow> at_block n (hc_state ctx) \<Longrightarrow> at_block n (hc_state ctx')"
  by (auto simp: data_source_create_def push_created_data_source_def at_block_def split: option.splits prod.splits sum.splits if_splits)

lemma exec_call_at_block:
  assumes "exec_call env c w = Some (t, w')" and "at_block (ptr_number (me_block_ptr env)) (hc_state (wi_ctx w))"
  shows "at_block (ptr_number (me_block_ptr env)) (hc_state (wi_ctx w'))"
proof -
  have snd: "x = Some (t, w') \<Longrightarrow> w' = snd (the x)" for x by simp
  show ?thesis
  proof (cases c)
    case (Call_store_set ty i data)
    then show ?thesis
      using assms snd [OF assms(1)] by (auto dest: store_set_at_block split: option.splits)
  next
    case (Call_store_remove ty i)
    then show ?thesis
      using assms snd [OF assms(1)] by (auto dest: store_remove_at_block split: option.splits)
  next
    case (Call_store_get ty i)
    then show ?thesis
      using assms snd [OF assms(1)] by (auto dest: store_get_at_block split: prod.splits)
  next
    case (Call_data_source_create name ps co)
    then show ?thesis
      using assms snd [OF assms(1)] by (auto dest: data_source_create_at_block split: option.splits)
  next
    case (Call_abort m f l k)
    then show ?thesis
      using assms snd [OF assms(1)] by (auto split: option.splits)
  next
    case (Call_host_fn a r)
    then show ?thesis
      using assms snd [OF assms(1)] by (auto split: prod.splits sum.splits)
  next
    case (Call_gas u)
    then show ?thesis
      using assms by (auto simp: gas_function_def split: prod.splits)
  next
    case (Heap_new k n a m)
    then show ?thesis
      using assms snd [OF assms(1)] by (auto dest: raw_new_state split: option.splits)
  next
    case (Heap_get k n b)
    then show ?thesis
      using assms snd [OF assms(1)] by (auto dest: heap_get_state split: prod.splits)
  qed (use assms snd [OF assms(1)] in \<open>auto simp: with_gas_state\<close>)
qed

lemma run_code_at_block:
  assumes "run_code env cs fin w = Some (t, w')" and "at_block (ptr_number (me_block_ptr env)) (hc_state (wi_ctx w))"
  shows "at_block (ptr_number (me_block_ptr env)) (hc_state (wi_ctx w'))"
  using assms
proof (induction cs arbitrary: w)
  case (Cons c cs)
  then obtain t1 w1 where c: "exec_call env c w = Some (t1, w1)" by (auto split: option.splits)
  from exec_call_at_block [OF this Cons.prems(2)] show ?case
    using Cons.prems(1) Cons.IH [of w1] c by (cases t1) auto
qed simp

lemma invoke_handler_at_block:
  assumes "invoke_handler env m h w = Some (Inr (s', g), poi')" and "at_block (ptr_number (me_block_ptr env)) (hc_state (wi_ctx w))"
  shows "at_block (ptr_number (me_block_ptr env)) s'"
proof -
  let ?n = "ptr_number (me_block_ptr env)"
  obtain s code where s: "bs_enter_handler (hc_state (wi_ctx w)) = Inr s" and code: "wm_handler m h = Some (Handler code)"
    using assms(1) by (auto simp: invoke_handler_def Let_def split: option.splits sum.splits handler.splits)
  let ?w1 = "w\<lparr>wi_ctx := (wi_ctx w)\<lparr>hc_state := s\<rparr>\<rparr>"
  obtain t w2 where w2: "run_code env (fst (code (wi_ctx ?w1))) (snd (code (wi_ctx ?w1))) ?w1 = Some (t, w2)"
    using assms(1) by (auto simp: invoke_handler_def Let_def s code split: option.splits)
  have "at_block ?n s"
    using s assms(2) by (auto simp: bs_enter_handler_def and_then_eq_Inr_iff at_block_def split: if_splits)
  then have "at_block ?n (hc_state (wi_ctx w2))" using run_code_at_block [OF w2] by simp
  moreover have "bs_exit_handler (hc_state (wi_ctx w2)) = Inr s' \<or>
      (\<exists>e. bs_exit_handler_and_discard_changes_due_to_error e (hc_state (wi_ctx w2)) = Inr s')"
    using assms(1) w2 by (auto simp: invoke_handler_def Let_def s code split: ending.splits sum.splits)
  ultimately show ?thesis
    by (auto simp: bs_exit_handler_def bs_exit_handler_and_discard_changes_due_to_error_def and_then_eq_Inr_iff at_block_def
        split: if_splits)
qed

lemma allocate_argument_state:
  "allocate_argument env as w = Some (r, w1) \<Longrightarrow> hc_state (wi_ctx w1) = hc_state (wi_ctx w)"
proof (induction as arbitrary: w)
  case (Cons a as)
  obtain n al mem where a: "a = (n, al, mem)" by (cases a)
  obtain r2 w2 where r2: "raw_new env n al mem w = Some (r2, w2)"
    using Cons.prems by (auto simp: a split: option.splits)
  then show ?case using Cons raw_new_state [OF r2] by (cases r2) (auto simp: a)
qed simp

lemma send_mapping_request_at_block:
  assumes "send_mapping_request rt ptr h trigger s poi = (Inr s', poi')" and "at_block (ptr_number ptr) s"
  shows "at_block (ptr_number ptr) s'"
proof -
  let ?env = "\<lparr>me_rt = rt, me_he = rh_exports h, me_block_ptr = ptr, me_new_api = rh_new_api h\<rparr>"
  let ?m = "rh_module h"
  obtain g where run: "instantiate_module_and_handle_trigger ?env ?m trigger s poi = Some (Inr (s', g), poi')"
    using assms(1) by (auto simp: send_mapping_request_def split: option.splits sum.splits)
  then obtain w where w: "from_valid_module_with_ctx ?env ?m s poi = Some (Inr (), w)"
    and h: "handle_trigger ?env ?m trigger w = Some (Inr (s', g), poi')"
    by (auto simp: instantiate_module_and_handle_trigger_def split: option.splits sum.splits)
  have "at_block (ptr_number ptr) (hc_state (wi_ctx w))"
    using w assms(2) run_code_at_block [of ?env]
    by (fastforce simp: from_valid_module_with_ctx_def Let_def split: option.splits trap.splits)
  moreover obtain w1 where "allocate_argument ?env (tr_allocations trigger) w = Some (Inr (), w1)"
    "invoke_handler ?env ?m (handler_name trigger) w1 = Some (Inr (s', g), poi')"
    using h by (auto simp: handle_trigger_def split: option.splits sum.splits)
  ultimately show ?thesis using invoke_handler_at_block [of ?env] allocate_argument_state by fastforce
qed

lemma process_hosts_at_block:
  assumes "process_hosts rt ch ptr trigger hosts s poi = (Inr s', poi')" and "at_block (ptr_number ptr) s"
  shows "at_block (ptr_number ptr) s'"
  using assms
proof (induction hosts arbitrary: s poi)
  case (Cons h hosts)
  then show ?case
    by (auto split: sum.splits option.splits prod.splits dest: send_mapping_request_at_block)
qed simp

lemma process_triggers_at_block:
  assumes "process_triggers rt ch ptr region hosts ts s poi = Some (Inr s', poi')" and "at_block (ptr_number ptr) s"
  shows "at_block (ptr_number ptr) s'"
  using assms
proof (induction ts arbitrary: s poi)
  case (Cons t ts)
  obtain s1 poi1 where t: "process_trigger_in_runtime_hosts rt ch ptr region hosts t s poi = Some (Inr s1, poi1)"
    and rest: "process_triggers rt ch ptr region hosts ts s1 poi1 = Some (Inr s', poi')"
    using Cons.prems(1) by (auto split: option.splits sum.splits)
  obtain poi0 poi2 where "process_hosts rt ch ptr t hosts s poi0 = (Inr s1, poi2)"
    using t by (auto simp: process_trigger_in_runtime_hosts_def Let_def split: option.splits prod.splits sum.splits if_splits)
  from process_hosts_at_block [OF this Cons.prems(2)] have "at_block (ptr_number ptr) s1" .
  then show ?case using Cons.IH [OF rest] by simp
qed simp
section \<open>Hosts are ordered\<close>

definition hosts_sorted ::
  "('e, 'q, 'd, 't, 's, 'h, 'ds, 'trigger) chain \<Rightarrow> ('e, 'q, 'd, 't, 's, 'h, 'ds) SubgraphInstance \<Rightarrow> bool" where
  "hosts_sorted ch inst \<longleftrightarrow> sorted (map (creation_block_number ch) (si_hosts inst))"

text \<open>The data source that is made of the information carries its block.\<close>

definition keeps_creation_block :: "('e, 'q, 'd, 't, 's, 'h, 'ds, 'trigger, 'b, 'w) runner_env \<Rightarrow> bool" where
  "keeps_creation_block env \<longleftrightarrow>
     (\<forall>info ds. rn_try_from env info = Inr ds \<longrightarrow> ds_creation_block (rn_chain env) ds = Some (creation_block info))"

definition grown ::
  "('e, 'q, 'd, 't, 's, 'h, 'ds, 'trigger) chain \<Rightarrow> int \<Rightarrow> ('e, 'q, 'd, 't, 's, 'h, 'ds) SubgraphInstance \<Rightarrow>
   ('e, 'q, 'd, 't, 's, 'h, 'ds) SubgraphInstance \<Rightarrow> bool" where
  "grown ch n inst inst' \<longleftrightarrow>
     (\<exists>new. inst' = inst\<lparr>si_hosts := si_hosts inst @ new\<rparr> \<and> list_all (\<lambda>h. creation_block_number ch h = Some n) new \<and>
        (hosts_sorted ch inst \<longrightarrow> hosts_sorted ch inst'))"

lemma grown_refl [simp]: "grown ch n inst inst"
  by (auto simp: grown_def intro: exI [of _ "[]"])

lemma grown_trans: "grown ch n a b \<Longrightarrow> grown ch n b c \<Longrightarrow> grown ch n a c"
  unfolding grown_def by (elim exE conjE) (rule_tac x = "new @ newa" in exI, simp)

lemma sorted_snoc_last:
  assumes "sorted (map f xs)" and "xs \<noteq> [] \<Longrightarrow> f (last xs) \<le> f x"
  shows "sorted (map f (xs @ [x]))"
proof (cases "xs = []")
  case False
  have "\<forall>y \<in> set (map f xs). y \<le> last (map f xs)"
    using assms(1) by (metis False Nil_is_map_conv sorted_append append_butlast_last_id in_set_conv_decomp
        list.set_intros(1) Un_iff empty_iff list.set(1) set_append set_ConsD order_refl)
  then show ?thesis using assms False by (force simp: sorted_append last_map)
qed simp

lemma add_dynamic_data_source_grown:
  assumes "add_dynamic_data_source ch mx ts ds inst = Inr (host, inst')" and "ds_creation_block ch ds = Some n"
  shows "grown ch n inst inst'"
proof -
  have "inst' = inst \<or> (\<exists>h. new_host ch (si_subgraph_id inst) (si_network inst) ts ds = Inr h \<and>
      inst' = inst\<lparr>si_hosts := si_hosts inst @ [h]\<rparr> \<and> last_creation_block ch (si_hosts inst) \<le> Some n)"
    using add_dynamic_data_source_result [OF assms(1)] assms(2) by auto
  then show ?thesis
  proof
    assume "\<exists>h. new_host ch (si_subgraph_id inst) (si_network inst) ts ds = Inr h \<and>
      inst' = inst\<lparr>si_hosts := si_hosts inst @ [h]\<rparr> \<and> last_creation_block ch (si_hosts inst) \<le> Some n"
    then obtain h where h: "new_host ch (si_subgraph_id inst) (si_network inst) ts ds = Inr h"
      "inst' = inst\<lparr>si_hosts := si_hosts inst @ [h]\<rparr>" "last_creation_block ch (si_hosts inst) \<le> Some n"
      by blast
    have c: "creation_block_number ch h = Some n"
      using h(1) assms(2) by (auto simp: new_host_def and_then_eq_Inr_iff creation_block_number_def)
    then have "hosts_sorted ch inst \<Longrightarrow> hosts_sorted ch inst'"
      using h(3) sorted_snoc_last [of "creation_block_number ch" "si_hosts inst" h]
      by (simp add: hosts_sorted_def h(2) last_creation_block_def split: if_splits)
    then show ?thesis using c h(2) by (auto simp: grown_def)
  qed simp
qed

lemma create_dynamic_data_sources_grown:
  assumes "create_dynamic_data_sources env infos inst = (x, inst')" and "keeps_creation_block env"
    and "list_all (\<lambda>i. creation_block i = n) infos"
  shows "grown (rn_chain env) n inst inst'"
  using assms(1,3)
proof (induction infos arbitrary: inst x)
  case (Cons info infos)
  show ?case
  proof (cases "rn_try_from env info")
    case (Inr ds)
    then have n: "ds_creation_block (rn_chain env) ds = Some n" using assms(2) Cons.prems(2) by (auto simp: keeps_creation_block_def)
    show ?thesis
    proof (cases "add_dynamic_data_source (rn_chain env) (rn_max_data_sources env) (rn_templates env) ds inst")
      case (Inr y)
      obtain host inst1 where y: "y = (host, inst1)" by (cases y)
      obtain x1 where "create_dynamic_data_sources env infos inst1 = (x1, inst')"
        using Cons.prems(1) \<open>rn_try_from env info = Inr ds\<close> Inr y by (auto split: prod.splits sum.splits)
      then have "grown (rn_chain env) n inst1 inst'" using Cons.IH Cons.prems(2) by simp
      then show ?thesis using add_dynamic_data_source_grown [OF Inr [unfolded y] n] grown_trans by blast
    qed (use Cons.prems(1) Inr in auto)
  qed (use Cons.prems(1) in auto)
qed simp

text \<open>Whatever the result of a round, the instance has grown by hosts of this block.\<close>

lemma data_source_round_grown:
  assumes "data_source_round env rt block ptr region (s, poi, inst, flt) = Inl (x, poi', inst', flt')"
    and "keeps_creation_block env" and "at_block (ptr_number ptr) s"
  shows "grown (rn_chain env) (ptr_number ptr) inst inst'"
proof -
  have infos: "list_all (\<lambda>i. creation_block i = ptr_number ptr) (created_data_sources s)"
    using assms(3) by (simp add: at_block_def)
  have "inst' = inst \<or> (\<exists>y. create_dynamic_data_sources env (created_data_sources s) inst = (y, inst'))"
    using assms(1)
    by (auto simp: data_source_round_def has_created_data_sources_def drain_created_data_sources_def Let_def
        split: if_splits sum.splits prod.splits option.splits)
  then show ?thesis using create_dynamic_data_sources_grown [OF _ assms(2) infos] by auto
qed

lemma loop_grown:
  assumes run: "created_data_sources_loop env rt block ptr region (s, poi, inst, flt) = Some (x, poi', inst', flt')"
    and keep: "keeps_creation_block env" and s: "at_block (ptr_number ptr) s"
  shows "grown (rn_chain env) (ptr_number ptr) inst inst'"
proof -
  let ?I = "\<lambda>(s1, poi1, inst1, flt1). at_block (ptr_number ptr) s1 \<and> grown (rn_chain env) (ptr_number ptr) inst inst1"
  have step: "?I st'" if I: "?I st" and next_round: "data_source_round env rt block ptr region st = Inr st'" for st st'
  proof -
    obtain s1 poi1 inst1 flt1 where st: "st = (s1, poi1, inst1, flt1)" by (cases st)
    obtain s2 poi2 inst2 flt2 where st': "st' = (s2, poi2, inst2, flt2)" by (cases st')
    obtain dss hosts ts s0 where r:
      "create_dynamic_data_sources env (created_data_sources s1) inst1 = (Inr (dss, hosts), inst2)"
      "s0 = s1\<lparr>created_data_sources := [], entity_cache := persist_dynamic_data_sources env dss (entity_cache s1)\<rparr>"
      "process_triggers rt (rn_chain env) ptr region hosts ts s0 poi1 = Some (Inr s2, poi2)"
      using data_source_round_next [OF next_round [unfolded st st']] by metis
    have a: "at_block (ptr_number ptr) s1" "grown (rn_chain env) (ptr_number ptr) inst inst1" using I by (simp_all add: st)
    then have "at_block (ptr_number ptr) s0" by (simp add: r(2) at_block_def)
    then have "at_block (ptr_number ptr) s2" by (rule process_triggers_at_block [OF r(3)])
    moreover have "grown (rn_chain env) (ptr_number ptr) inst1 inst2"
      using create_dynamic_data_sources_grown [OF r(1) keep] a(1) by (simp add: at_block_def)
    ultimately show ?thesis using grown_trans [OF a(2)] by (simp add: st')
  qed
  obtain st where st: "?I st" "data_source_round env rt block ptr region st = Inl (x, poi', inst', flt')"
    using loop_rule [OF run, where I = ?I] step s by auto
  obtain s1 poi1 inst1 flt1 where "st = (s1, poi1, inst1, flt1)" by (cases st)
  then show ?thesis using st data_source_round_grown [OF _ keep] grown_trans by fastforce
qed

lemma finish_block_instance:
  "finish_block env rt canceled ptr cursor restart s poi r = (x, r') \<Longrightarrow> r_instance r' = r_instance r"
  by (auto simp: finish_block_def Let_def split: if_splits sum.splits option.splits bool.splits cache_error.splits)

lemma process_block_grown:
  assumes "process_block env canceled block cursor r = Some (x, r')" and "keeps_creation_block env"
  shows "grown (rn_chain env) (ptr_number (bt_ptr block)) (r_instance r) (r_instance r')"
proof -
  let ?rt = "rn_runtime env (r_store r)" and ?region = "from_network (si_network (r_instance r))" and ?n = "ptr_number (bt_ptr block)"
  have triv: ?thesis if "r_instance r' = r_instance r" using that by simp
  show ?thesis
  proof (cases "rn_supports_proof_of_indexing env (r_store r)")
    case (Inl e)
    then show ?thesis using assms(1) by (intro triv) (simp add: process_block_def Let_def)
  next
    case sup: (Inr supported)
    let ?poi = "if supported then Some (poi_new ?n) else None"
    let ?pt = "process_triggers ?rt (rn_chain env) (bt_ptr block) ?region (si_hosts (r_instance r)) (trigger_data block)
      (bs_new (r_entity_lfu_cache r)) ?poi"
    show ?thesis
    proof (cases "\<exists>s poi1. ?pt = Some (Inr s, poi1) \<and> (\<exists>b. has_created_data_sources s = Inr b)")
      case False
      then show ?thesis
        using assms(1) sup
        by (intro triv) (auto simp: process_block_def Let_def split: option.splits prod.splits sum.splits MappingError.splits)
    next
      case True
      then obtain s poi1 created where pt: "?pt = Some (Inr s, poi1)" "has_created_data_sources s = Inr created" by blast
      let ?loop = "created_data_sources_loop env ?rt (bt_block block) (bt_ptr block) ?region (s, poi1, r_instance r, r_filter r)"
      obtain y poi2 inst flt where loop: "?loop = Some (y, poi2, inst, flt)"
        using assms(1) sup pt by (cases ?loop) (auto simp: process_block_def Let_def)
      then have "r_instance r' = inst"
        using assms(1) sup pt
        by (cases y) (auto simp: process_block_def Let_def dest: finish_block_instance)
      then show ?thesis
        using loop_grown [OF loop assms(2)] process_triggers_at_block [OF pt(1)] by simp
    qed
  qed
qed
section \<open>Reverting a block\<close>

lemma drop_last_sorted:
  fixes f :: "'a \<Rightarrow> int option"
  assumes "sorted (map f xs)"
  shows "rev (dropWhile (\<lambda>x. n \<le> f x) (rev xs)) = filter (\<lambda>x. f x < n) xs"
  using assms
proof (induction xs rule: rev_induct)
  case (snoc x xs)
  show ?case
  proof (cases "n \<le> f x")
    case True
    then show ?thesis using snoc by (simp add: sorted_append not_less)
  next
    case False
    then have "\<forall>y \<in> set xs. f y < n" using snoc.prems by (auto simp: sorted_append)
    then show ?thesis using False by (simp add: not_le filter_True)
  qed
qed simp

lemma revert_data_sources_sorted:
  assumes "hosts_sorted ch inst"
  shows "si_hosts (revert_data_sources ch n inst) = filter (\<lambda>h. creation_block_number ch h < Some n) (si_hosts inst)"
  using drop_last_sorted [OF assms [unfolded hosts_sorted_def]] by (simp add: revert_data_sources_def)

lemma revert_grown:
  assumes "grown ch n inst inst'" and "hosts_sorted ch inst"
    and "list_all (\<lambda>h. creation_block_number ch h < Some n) (si_hosts inst)"
  shows "revert_data_sources ch n inst' = inst"
proof -
  obtain new where new: "inst' = inst\<lparr>si_hosts := si_hosts inst @ new\<rparr>" "list_all (\<lambda>h. creation_block_number ch h = Some n) new"
    "hosts_sorted ch inst'"
    using assms(1,2) by (auto simp: grown_def)
  have "filter (\<lambda>h. creation_block_number ch h < Some n) (si_hosts inst') = si_hosts inst"
    using new(1,2) assms(3) by (auto simp: list_all_iff filter_True filter_False)
  then show ?thesis
    using revert_data_sources_sorted [OF new(3), of n] by (simp add: revert_data_sources_def new(1))
qed

lemma handle_process_block_grown:
  assumes "handle_process_block env canceled timer head1 head2 block cursor r = Some (x, r')" and "keeps_creation_block env"
  shows "grown (rn_chain env) (ptr_number (bt_ptr block)) (r_instance r) (r_instance r')"
proof -
  have synced: "r_instance r2 = r_instance r1" if "update_synced env p head2 r1 = Inr r2" for p r1 r2
    using that by (auto simp: update_synced_def and_then_def split: if_splits sum.splits)
  have unfail: "r_instance r2 = r_instance r1" if "try_unfail env p r1 = Inr r2" for p r1 r2
    using that by (auto simp: try_unfail_def and_then_def split: if_splits sum.splits prod.splits)
  have failure: "r_instance r2 = r_instance r1" if "handle_failure env p e r1 = (y, r2)" for p e r1 y r2
    using that by (auto simp: handle_failure_def Let_def split: if_splits sum.splits option.splits prod.splits)
  have "r_instance r' = r_instance r \<or>
      (\<exists>y r1. process_block env canceled block cursor r = Some (y, r1) \<and> r_instance r' = r_instance r1)"
    using assms(1) synced unfail failure
    by (auto simp: handle_process_block_def split: sum.splits bool.splits option.splits prod.splits block_error.splits; fastforce)
  then show ?thesis using process_block_grown [OF _ assms(2)] by auto
qed

text \<open>
  C13: reverting a block removes exactly the data sources that it created. If the hosts are ordered
  by the block in which they were created, all before this block, then after the block was
  handled, with whatever outcome, and reverted, the instance is the one from before. In between
  the hosts stay ordered, on which the loop in \<open>revert_data_sources\<close> relies.
\<close>

theorem reverted_block_restores_hosts:
  assumes "keeps_creation_block env" and "hosts_sorted (rn_chain env) (r_instance r)"
    and "list_all (\<lambda>h. creation_block_number (rn_chain env) h < Some (ptr_number (bt_ptr block))) (si_hosts (r_instance r))"
    and "handle_process_block env canceled timer head1 head2 block cursor r = Some (x, r1)"
    and "rn_block_ptr env (r_store r1) = Some (bt_ptr block)" and "ptr_number revert_to < ptr_number (bt_ptr block)"
    and "rn_revert_block_operations env revert_to cursor' (r_store r1) = Inr w"
  shows "hosts_sorted (rn_chain env) (r_instance r1) \<and>
    (\<exists>r2. handle_revert env revert_to cursor' r1 = (Inr Continue, r2) \<and> r_store r2 = w \<and> r_instance r2 = r_instance r)"
proof -
  have g: "grown (rn_chain env) (ptr_number (bt_ptr block)) (r_instance r) (r_instance r1)"
    by (rule handle_process_block_grown [OF assms(4,1)])
  then have "hosts_sorted (rn_chain env) (r_instance r1)" using assms(2) by (auto simp: grown_def)
  moreover have "revert_data_sources (rn_chain env) (ptr_number (bt_ptr block)) (r_instance r1) = r_instance r"
    by (rule revert_grown [OF g assms(2,3)])
  ultimately show ?thesis using assms(5-7) by (auto simp: handle_revert_def)
qed

text \<open>The data source for the trigger creates another one, which does nothing.\<close>

definition one_child :: "nat \<Rightarrow> unit host_call list" where
  "one_child ds = (if ds = 0 then [Call_data_source_create ''child'' [''x''] None] else [])"

definition child_env ::
  "(sample_store \<Rightarrow> bool) \<Rightarrow>
   (unit, (EntityKey, Entity option) lpq, nat, string, nat, nat, nat, nat, unit, sample_store) runner_env" where
  "child_env broken = (sample_env one_child (=) True broken)\<lparr>
     rn_try_from := (\<lambda>info. if ti_params info = [''x''] \<and> creation_block info = 5 then Inr 1 else Inl ''bad parameters''),
     rn_block_ptr := (\<lambda>_. Some (bt_ptr sample_block))\<rparr>"

lemma child_env_keeps: "keeps_creation_block (child_env broken)"
  by (auto simp: keeps_creation_block_def child_env_def sample_env_def sample_chain_def split: if_splits)

lemma one_child_run:
  "case handle_process_block (child_env (\<lambda>_. False)) False False (Inr None) (Inr None) sample_block None (sample_runner one_child) of
     Some (Inr Continue, r1) \<Rightarrow> map rh_data_source (si_hosts (r_instance r1)) = [0, 1] \<and> map snd (r_store r1) = [[1]] | _ \<Rightarrow> False"
  by code_simp

theorem reverted_block_restores_hosts_witness:
  "\<exists>r1 r2. handle_process_block (child_env (\<lambda>_. False)) False False (Inr None) (Inr None) sample_block None (sample_runner one_child) =
      Some (Inr Continue, r1) \<and> map rh_data_source (si_hosts (r_instance r1)) = [0, 1] \<and>
    handle_revert (child_env (\<lambda>_. False)) \<lparr>ptr_hash = [], ptr_number = 4\<rparr> None r1 = (Inr Continue, r2) \<and>
    r_instance r2 = r_instance (sample_runner one_child)"
proof -
  let ?env = "child_env (\<lambda>_. False)"
  obtain r1 where r1: "handle_process_block ?env False False (Inr None) (Inr None) sample_block None (sample_runner one_child) = Some (Inr Continue, r1)"
    "map rh_data_source (si_hosts (r_instance r1)) = [0, 1]"
    using one_child_run by (auto split: option.splits prod.splits sum.splits Action.splits)
  have hosts: "hosts_sorted (rn_chain ?env) (r_instance (sample_runner one_child))"
    "list_all (\<lambda>h. creation_block_number (rn_chain ?env) h < Some (ptr_number (bt_ptr sample_block))) (si_hosts (r_instance (sample_runner one_child)))"
    by (simp_all add: hosts_sorted_def sample_runner_def sample_host_def creation_block_number_def child_env_def sample_env_def sample_chain_def)
  have ptr: "rn_block_ptr ?env (r_store r1) = Some (bt_ptr sample_block)"
    "rn_revert_block_operations ?env \<lparr>ptr_hash = [], ptr_number = 4\<rparr> None (r_store r1) = Inr (r_store r1)"
    by (simp_all add: child_env_def sample_env_def)
  show ?thesis
    using reverted_block_restores_hosts [OF child_env_keeps hosts r1(1) ptr(1) _ ptr(2)] r1 by auto
qed
section \<open>Trying a block again\<close>

text \<open>What a successful creation says about each of the data sources.\<close>

lemma create_dynamic_data_sources_facts:
  assumes "create_dynamic_data_sources env infos inst = (Inr (dss, hosts), inst')"
    and refl: "\<forall>ds. ds_is_duplicate_of (rn_chain env) ds ds"
    and block: "\<forall>info ds. rn_try_from env info = Inr ds \<longrightarrow> info \<in> set infos \<longrightarrow> ds_creation_block (rn_chain env) ds = Some n"
  shows "(\<exists>new. inst' = inst\<lparr>si_hosts := si_hosts inst @ new\<rparr>) \<and> (infos \<noteq> [] \<longrightarrow> last_creation_block (rn_chain env) (si_hosts inst') \<le> Some n) \<and>
    list_all (\<lambda>info. \<exists>ds h. rn_try_from env info = Inr ds \<and>
      new_host (rn_chain env) (si_subgraph_id inst) (si_network inst) (rn_templates env) ds = Inr h \<and>
      list_ex (\<lambda>g. ds_is_duplicate_of (rn_chain env) (rh_data_source g) (rh_data_source h)) (si_hosts inst')) infos"
  using assms(1) block
proof (induction infos arbitrary: inst dss hosts)
  case Nil
  then show ?case by (auto intro: exI [of _ "[]"])
next
  case (Cons info infos)
  let ?ch = "rn_chain env"
  obtain ds host inst1 dss1 hosts1 where ds: "rn_try_from env info = Inr ds"
    and add: "add_dynamic_data_source ?ch (rn_max_data_sources env) (rn_templates env) ds inst = Inr (host, inst1)"
    and rest: "create_dynamic_data_sources env infos inst1 = (Inr (dss1, hosts1), inst')"
    using Cons.prems(1) by (auto split: sum.splits prod.splits)
  have n: "ds_creation_block ?ch ds = Some n" using Cons.prems(2) ds by simp
  obtain h where h: "new_host ?ch (si_subgraph_id inst) (si_network inst) (rn_templates env) ds = Inr h"
    "last_creation_block ?ch (si_hosts inst) \<le> Some n"
    using add n by (auto simp: add_dynamic_data_source_def split: if_splits sum.splits)
  have hd: "rh_data_source h = ds" using h(1) by (auto simp: new_host_def and_then_eq_Inr_iff)
  have i1: "(\<exists>new. inst1 = inst\<lparr>si_hosts := si_hosts inst @ new\<rparr>) \<and> last_creation_block ?ch (si_hosts inst1) \<le> Some n \<and>
      list_ex (\<lambda>g. ds_is_duplicate_of ?ch (rh_data_source g) (rh_data_source h)) (si_hosts inst1)"
    using add h refl n hd
    by (auto simp: add_dynamic_data_source_def last_creation_block_def creation_block_number_def split: if_splits intro: exI [of _ "[]"])
  have IH: "(\<exists>new. inst' = inst1\<lparr>si_hosts := si_hosts inst1 @ new\<rparr>) \<and> (infos \<noteq> [] \<longrightarrow> last_creation_block ?ch (si_hosts inst') \<le> Some n) \<and>
    list_all (\<lambda>info. \<exists>ds h. rn_try_from env info = Inr ds \<and>
      new_host ?ch (si_subgraph_id inst1) (si_network inst1) (rn_templates env) ds = Inr h \<and>
      list_ex (\<lambda>g. ds_is_duplicate_of ?ch (rh_data_source g) (rh_data_source h)) (si_hosts inst')) infos"
    using Cons.IH [OF rest] Cons.prems(2) by simp
  have ids: "si_subgraph_id inst1 = si_subgraph_id inst" "si_network inst1 = si_network inst" using i1 by auto
  have "last_creation_block ?ch (si_hosts inst') \<le> Some n"
    using IH i1 rest by (cases infos) auto
  moreover have "list_ex (\<lambda>g. ds_is_duplicate_of ?ch (rh_data_source g) (rh_data_source h)) (si_hosts inst')"
    using IH i1 by auto
  moreover have "\<exists>new. inst' = inst\<lparr>si_hosts := si_hosts inst @ new\<rparr>" using IH i1 by auto
  ultimately show ?case using IH ds h(1) ids by auto
qed

lemma create_duplicates:
  assumes "list_all (\<lambda>info. \<exists>ds h. rn_try_from env info = Inr ds \<and> ds_creation_block (rn_chain env) ds = Some n \<and>
      new_host (rn_chain env) (si_subgraph_id inst) (si_network inst) (rn_templates env) ds = Inr h \<and>
      list_ex (\<lambda>g. ds_is_duplicate_of (rn_chain env) (rh_data_source g) (rh_data_source h)) (si_hosts inst)) infos"
    and "infos \<noteq> [] \<longrightarrow> last_creation_block (rn_chain env) (si_hosts inst) \<le> Some n"
    and "case rn_max_data_sources env of None \<Rightarrow> True | Some m \<Rightarrow> length (si_hosts inst) < m"
  shows "create_dynamic_data_sources env infos inst = (Inr ([], []), inst)"
  using assms
proof (induction infos)
  case (Cons info infos)
  then obtain ds h where ds: "rn_try_from env info = Inr ds" "ds_creation_block (rn_chain env) ds = Some n"
      "new_host (rn_chain env) (si_subgraph_id inst) (si_network inst) (rn_templates env) ds = Inr h"
      "list_ex (\<lambda>g. ds_is_duplicate_of (rn_chain env) (rh_data_source g) (rh_data_source h)) (si_hosts inst)"
    by auto
  have "add_dynamic_data_source (rn_chain env) (rn_max_data_sources env) (rn_templates env) ds inst = Inr (None, inst)"
    using ds Cons.prems(2,3) by (auto simp: add_dynamic_data_source_def split: option.splits)
  then show ?case using Cons ds(1) by simp
qed simp

text \<open>
  C16: after an error that is not deterministic the block is tried again, with an empty entity
  cache but with the hosts that the failed attempt added: \<open>handle_failure\<close> keeps the instance. When
  the new attempt creates the same data sources, they are all taken for duplicates, so that none
  is returned and none of them is written to the store with the block. The example shows the
  consequence: the same block writes its new data source when it succeeds at once and no data
  source when its first attempt failed on the connection to the database.
\<close>

theorem retried_block_loses_data_sources:
  assumes "create_dynamic_data_sources env infos inst = (Inr (dss, hosts), r_instance r)"
    and "\<forall>ds. ds_is_duplicate_of (rn_chain env) ds ds"
    and "\<forall>info ds. rn_try_from env info = Inr ds \<longrightarrow> info \<in> set infos \<longrightarrow> ds_creation_block (rn_chain env) ds = Some n"
    and "case rn_max_data_sources env of None \<Rightarrow> True | Some m \<Rightarrow> length (si_hosts (r_instance r)) < m"
    and "handle_failure env ptr e r = (Inr Restart, r')"
  shows "r_instance r' = r_instance r \<and> create_dynamic_data_sources env infos (r_instance r') = (Inr ([], []), r_instance r')"
proof -
  have r': "r_instance r' = r_instance r"
    using assms(5) by (auto simp: handle_failure_def Let_def split: if_splits sum.splits option.splits prod.splits)
  note f = create_dynamic_data_sources_facts [OF assms(1-3)]
  then have ids: "si_subgraph_id (r_instance r) = si_subgraph_id inst" "si_network (r_instance r) = si_network inst" by auto
  have "list_all (\<lambda>info. \<exists>ds h. rn_try_from env info = Inr ds \<and> ds_creation_block (rn_chain env) ds = Some n \<and>
      new_host (rn_chain env) (si_subgraph_id (r_instance r)) (si_network (r_instance r)) (rn_templates env) ds = Inr h \<and>
      list_ex (\<lambda>g. ds_is_duplicate_of (rn_chain env) (rh_data_source g) (rh_data_source h)) (si_hosts (r_instance r))) infos"
    using f assms(3) unfolding ids list_all_iff by blast
  from create_duplicates [OF this _ assms(4)] show ?thesis using f r' by simp
qed

lemma duration_saturating_mul_code [code]:
  "duration_saturating_mul d n = nat (min (int d * int n) (2 ^ 64 * 10 ^ 9 - 1))"
proof -
  have "int (duration_saturating_mul d n) = min (int d * int n) (2 ^ 64 * 10 ^ 9 - 1)"
    by (simp add: duration_saturating_mul_def DURATION_MAX_def of_nat_min)
  then show ?thesis by (metis nat_int)
qed

lemma retry_run:
  "case handle_process_block (child_env (\<lambda>_. True)) False False (Inr None) (Inr None) sample_block None (sample_runner one_child) of
     Some (Inr Restart, r1) \<Rightarrow>
       map rh_data_source (si_hosts (r_instance r1)) = [0, 1] \<and> r_store r1 = [] \<and>
       (case handle_process_block (child_env (\<lambda>_. False)) False False (Inr None) (Inr None) sample_block None r1 of
          Some (Inr Continue, r2) \<Rightarrow> map snd (r_store r2) = [[]] | _ \<Rightarrow> False)
   | _ \<Rightarrow> False"
  by code_simp

theorem retried_block_loses_data_sources_witness:
  "\<exists>r'. handle_failure (child_env (\<lambda>_. True)) (bt_ptr sample_block) (BP_Unknown ''connection lost'')
      ((sample_runner one_child)\<lparr>r_instance := (r_instance (sample_runner one_child))\<lparr>
         si_hosts := [sample_host one_child 0, sample_host one_child 1]\<rparr>\<rparr>) = (Inr Restart, r') \<and>
    create_dynamic_data_sources (child_env (\<lambda>_. True))
      [\<lparr>template = ''child'', ti_params = [''x''], ti_context = None, creation_block = 5\<rparr>] (r_instance (sample_runner one_child)) =
      (Inr ([1], [sample_host one_child 1]), r_instance r') \<and>
    create_dynamic_data_sources (child_env (\<lambda>_. True))
      [\<lparr>template = ''child'', ti_params = [''x''], ti_context = None, creation_block = 5\<rparr>] (r_instance r') = (Inr ([], []), r_instance r') \<and>
    (case handle_process_block (child_env (\<lambda>_. True)) False False (Inr None) (Inr None) sample_block None (sample_runner one_child) of
       Some (Inr Restart, r1) \<Rightarrow>
         map rh_data_source (si_hosts (r_instance r1)) = [0, 1] \<and> r_store r1 = [] \<and>
         (case handle_process_block (child_env (\<lambda>_. False)) False False (Inr None) (Inr None) sample_block None r1 of
            Some (Inr Continue, r2) \<Rightarrow> map snd (r_store r2) = [[]] | _ \<Rightarrow> False)
     | _ \<Rightarrow> False)"
proof -
  let ?env = "child_env (\<lambda>_. True)" and ?before = "sample_runner one_child"
  let ?infos = "[\<lparr>template = ''child'', ti_params = [''x''], ti_context = None, creation_block = 5\<rparr>] :: string DataSourceTemplateInfo list"
  let ?r = "?before\<lparr>r_instance := (r_instance ?before)\<lparr>si_hosts := [sample_host one_child 0, sample_host one_child 1]\<rparr>\<rparr>"
  have create: "create_dynamic_data_sources ?env ?infos (r_instance ?before) = (Inr ([1], [sample_host one_child 1]), r_instance ?r)"
    by (simp add: child_env_def sample_env_def add_dynamic_data_source_def sample_runner_def new_host_def sample_chain_def and_then_def
        last_creation_block_def creation_block_number_def sample_host_def)
  obtain r' where r': "handle_failure ?env (bt_ptr sample_block) (BP_Unknown ''connection lost'') ?r = (Inr Restart, r')"
    by (simp add: handle_failure_def child_env_def sample_env_def sample_runner_def is_deterministic_def next_attempt_def backoff_new_def
        delay_def Let_def)
  have chain: "\<forall>ds. ds_is_duplicate_of (rn_chain ?env) ds ds"
    "\<forall>info ds. rn_try_from ?env info = Inr ds \<longrightarrow> info \<in> set ?infos \<longrightarrow> ds_creation_block (rn_chain ?env) ds = Some 5"
    "case rn_max_data_sources ?env of None \<Rightarrow> True | Some m \<Rightarrow> length (si_hosts (r_instance ?r)) < m"
    by (simp_all add: child_env_def sample_env_def sample_chain_def)
  from retried_block_loses_data_sources [OF create chain r'] have res: "r_instance r' = r_instance ?r"
    "create_dynamic_data_sources ?env ?infos (r_instance r') = (Inr ([], []), r_instance r')"
    by (rule conjunct1, rule conjunct2)
  show ?thesis
    by (intro exI [of _ r'] conjI) (rule r', rule create [folded res(1)], rule res(2), rule retry_run)
qed

end
