(* ===== verification/Handler_Costs.thy ===== *)
theory Handler_Costs
  imports Handler_Runs
begin

text \<open>
  How often a handler can call the host functions that the comments in
  \<^verbatim>\<open>graph/src/runtime/gas/costs.rs\<close> limit: every call that succeeds is charged at least the base cost
  of its operation, and the gas used stays below the limit of the handler.
\<close>

fun call_cost :: "'e host_call \<Rightarrow> nat" where
  "call_cost (Call_store_set _ _ _) = 40000000"
| "call_cost (Call_store_remove _ _) = 40000000"
| "call_cost (Call_store_get _ _) = 1000000"
| "call_cost (Call_data_source_create _ _ _) = 100000000"
| "call_cost (Call_log_log _ _) = 100000000"
| "call_cost _ = 0"

fun saves :: "'e host_call \<Rightarrow> bool" where
  "saves (Call_store_set _ _ _) = True"
| "saves (Call_store_remove _ _) = True"
| "saves _ = False"

fun creates :: "'e host_call \<Rightarrow> bool" where
  "creates (Call_data_source_create _ _ _) = True"
| "creates _ = False"

fun logs :: "'e host_call \<Rightarrow> bool" where
  "logs (Call_log_log _ _) = True"
| "logs _ = False"

lemma charge_success:
  assumes "charge rt amount r c = (Inr a, g)"
  shows "unat g = unat c + unat amount + 10000" and "unat g < unat (rt_max_gas rt)"
  using assms by (auto intro: charge_cases [of rt amount r c])

lemma with_args_base: "unat (base_cost op) \<le> unat (with_args op x)"
  using unat_le_max [of "base_cost op"] by (simp add: with_args_def gas_add_def sat_simps)

lemma base_costs:
  "unat (base_cost STORE_SET) = 40000000" "unat (base_cost STORE_GET) = 1000000" "unat (base_cost LOG_OP) = 100000000"
  "unat CREATE_DATA_SOURCE = 100000000" "unat CONST_MAX_GAS_PER_HANDLER = 10000000000000"
  by (simp_all add: STORE_SET_def STORE_GET_def LOG_OP_def CREATE_DATA_SOURCE_def CONST_MAX_GAS_PER_HANDLER_def
      GAS_PER_SECOND_def unat_div)

abbreviation gas_of :: "('q, 'd, 't, 's, 'h) WasmInstanceContext \<Rightarrow> nat" where
  "gas_of w \<equiv> unat (hc_gas (wi_ctx w))"

lemma with_gas_success:
  assumes "with_gas env f w = (None, w')"
  shows "\<exists>a g. f (hc_gas (wi_ctx w)) = (Inr a, g) \<and> hc_gas (wi_ctx w') = g"
proof -
  obtain r g where f: "f (hc_gas (wi_ctx w)) = (r, g)" by fastforce
  let ?w = "w\<lparr>wi_ctx := (wi_ctx w)\<lparr>hc_gas := g\<rparr>\<rparr>"
  have l: "link_deterministic env r ?w = (None, w')" using assms f by (simp add: with_gas_def)
  then obtain a where "r = Inr a" using link_simps(6) [of env r ?w] by auto
  then show ?thesis using f l link_det_result [OF l] by auto
qed

text \<open>The functions that only charge.\<close>

lemma big_int_call_charges: "\<exists>amount r. big_int_call rt op = charge rt amount r"
  by (cases op)
    (auto simp: big_int_plus_def big_int_minus_def big_int_times_def big_int_divided_by_def big_int_mod_def big_int_pow_def
      big_int_bit_or_def big_int_bit_and_def big_int_left_shift_def big_int_right_shift_def)

lemma exec_call_cost:
  fixes env :: "('e, 'q, 't, 's, 'h) mapping_env"
  assumes run: "exec_call env c w = Some (None, w')"
  shows "gas_of w + call_cost c + 10000 \<le> gas_of w' \<and> gas_of w' < unat (rt_max_gas (me_rt env))"
proof (cases c)
  case (Call_store_set ty i data)
  then obtain r ctx where s: "store_set (me_rt env) (me_he env) ty i data (wi_ctx w) = Some (r, ctx)"
    and l: "link_host env (case r of Inl e \<Rightarrow> Inl (host_error_from_anyhow e) | Inr u \<Rightarrow> Inr u) (w\<lparr>wi_ctx := ctx\<rparr>) = (None, w')"
    using run by (auto split: option.splits)
  have r: "r = Inr ()" "wi_ctx w' = ctx" using link_host_result [OF l] by (auto split: sum.splits)
  obtain u where "charge (me_rt env) (set_gas (me_rt env) (he_key (me_he env) ty i) data) (Inr ()) (hc_gas (wi_ctx w)) = (Inr u, hc_gas ctx)"
    using s r(1) by (auto simp: store_set_def Let_def split: option.splits prod.splits sum.splits)
  from charge_success [OF this] show ?thesis
    using with_args_base [of STORE_SET] base_costs Call_store_set r by (simp add: set_gas_def add_mono)
next
  case (Call_store_remove ty i)
  then obtain r ctx where s: "store_remove (me_rt env) (me_he env) ty i (wi_ctx w) = Some (r, ctx)"
    and l: "link_host env r (w\<lparr>wi_ctx := ctx\<rparr>) = (None, w')"
    using run by (auto split: option.splits)
  have r: "\<exists>u. r = Inr u" "wi_ctx w' = ctx" using link_host_result [OF l] by auto
  obtain u where "charge (me_rt env) (with_args STORE_REMOVE (key_gas_size (he_key (me_he env) ty i))) (Inr ()) (hc_gas (wi_ctx w)) = (Inr u, hc_gas ctx)"
    using s r(1) by (auto simp: store_remove_def Let_def split: option.splits prod.splits sum.splits)
  from charge_success [OF this] show ?thesis
    using with_args_base [of STORE_SET] base_costs Call_store_remove r by (simp add: STORE_REMOVE_def add_mono)
next
  case (Call_store_get ty i)
  obtain r ctx where s: "host_store_get (me_rt env) (me_he env) ty i (wi_ctx w) = (r, ctx)" by fastforce
  then have l: "link_host env (case r of Inl e \<Rightarrow> Inl (host_error_from_anyhow e) | Inr u \<Rightarrow> Inr u) (w\<lparr>wi_ctx := ctx\<rparr>) = (None, w')"
    using run Call_store_get by simp
  have r: "\<exists>v. r = Inr v" "wi_ctx w' = ctx" using link_host_result [OF l] by (auto split: sum.splits)
  obtain x u and v :: "('e DeterministicHostError, Entity option) result"
    where "charge (me_rt env) (with_args STORE_GET x) v (hc_gas (wi_ctx w)) = (Inr u, hc_gas ctx)"
    using s r(1) by (auto simp: host_store_get_def Let_def split: prod.splits sum.splits)
  from charge_success [OF this] show ?thesis
    using with_args_base [of STORE_GET x] base_costs Call_store_get r by simp
next
  case (Call_data_source_create name ps co)
  then obtain r ctx where s: "data_source_create (me_rt env) (me_he env) name ps co (ptr_number (me_block_ptr env)) (wi_ctx w) = Some (r, ctx)"
    and l: "link_host env r (w\<lparr>wi_ctx := ctx\<rparr>) = (None, w')"
    using run by (auto split: option.splits)
  have r: "\<exists>u. r = Inr u" "wi_ctx w' = ctx" using link_host_result [OF l] by auto
  obtain u where "charge (me_rt env) CREATE_DATA_SOURCE (Inr ()) (hc_gas (wi_ctx w)) = (Inr u, hc_gas ctx)"
    using s r(1) by (auto simp: data_source_create_def split: option.splits prod.splits sum.splits)
  from charge_success [OF this] show ?thesis using base_costs Call_data_source_create r by simp
next
  case (Call_log_log level msg)
  then have "with_gas env (log_log (me_rt env) level msg) w = (None, w')" using run by simp
  from with_gas_success [OF this] obtain a g where
    "charge (me_rt env) (with_args LOG_OP (string_gas_size msg)) (if level = Critical then Inl (DHE_Other CriticalLog) else Inr ()) (hc_gas (wi_ctx w)) = (Inr a, g)"
    "hc_gas (wi_ctx w') = g"
    by (auto simp: log_log_def)
  from charge_success [OF this(1)] this(2) show ?thesis
    using with_args_base [of LOG_OP "string_gas_size msg"] base_costs Call_log_log by simp
next
  case Call_data_source_address
  then show ?thesis
    using run charge_success [of "me_rt env"] with_gas_success [of env _ w w'] by (fastforce simp: data_source_address_def)
next
  case Call_data_source_network
  then show ?thesis
    using run charge_success [of "me_rt env"] with_gas_success [of env _ w w'] by (fastforce simp: data_source_network_def)
next
  case Call_data_source_context
  then show ?thesis
    using run charge_success [of "me_rt env"] with_gas_success [of env _ w w'] by (fastforce simp: data_source_context_def)
next
  case (Call_abort m f l k)
  then show ?thesis using run link_simps(6) [of env "Inl _"] by (auto simp: link_deterministic_def link_error_def split: option.splits)
next
  case (Call_big_int op)
  obtain amount r where "big_int_call (me_rt env) op = charge (me_rt env) amount r" using big_int_call_charges by blast
  then show ?thesis
    using run Call_big_int charge_success [of "me_rt env" amount r] with_gas_success [of env _ w w'] by fastforce
next
  case (Call_host_fn amount r)
  obtain x g where c: "charge (me_rt env) amount (Inr () :: ('e DeterministicHostError, unit) result) (hc_gas (wi_ctx w)) = (x, g)" by fastforce
  show ?thesis
  proof (cases x)
    case (Inl e)
    then show ?thesis using run Call_host_fn c by (simp add: link_host_def link_error_def)
  next
    case (Inr u)
    then have l: "link_host env r (w\<lparr>wi_ctx := (wi_ctx w)\<lparr>hc_gas := g\<rparr>\<rparr>) = (None, w')" using run Call_host_fn c by simp
    show ?thesis using charge_success [OF c [unfolded Inr]] link_host_result [OF l] Call_host_fn by simp
  qed
next
  case (Call_gas u)
  obtain x g where c: "charge (me_rt env) (of_nat (unat u)) (Inr () :: ('e DeterministicHostError, unit) result) (hc_gas (wi_ctx w)) = (x, g)" by fastforce
  then obtain v where "x = Inr v" "hc_gas (wi_ctx w') = g"
    using run Call_gas by (auto simp: gas_function_def split: sum.splits)
  then show ?thesis using charge_success [OF c [unfolded \<open>x = Inr v\<close>]] Call_gas by simp
next
  case (Heap_new k n a m)
  then obtain r w1 where r: "raw_new env n a m w = Some (r, w1)" and l: "link_heap env k r w1 = (None, w')"
    using run by (auto split: option.splits)
  have "\<exists>p. r = Inr p" using l by (cases k; cases r) (auto simp: link_host_def link_deterministic_def link_error_def)
  then obtain u where "charge (me_rt env) (GAS_COST_STORE * of_nat n) (Inr ()) (hc_gas (wi_ctx w)) = (Inr u, hc_gas (wi_ctx w1))"
    using r by (auto simp: raw_new_def Let_def split: prod.splits sum.splits if_splits)
  from charge_success [OF this] link_heap_result [OF l] show ?thesis using Heap_new by simp
next
  case (Heap_get k n b)
  then obtain r w1 where r: "heap_get env n b w = (r, w1)" and l: "link_heap env k r w1 = (None, w')"
    using run by (auto split: prod.splits)
  have "\<exists>p. r = Inr p" using l by (cases k; cases r) (auto simp: link_host_def link_deterministic_def link_error_def)
  then obtain u and x :: "('e DeterministicHostError, unit) result" where "charge (me_rt env) (GAS_COST_LOAD * of_nat n) x (hc_gas (wi_ctx w)) = (Inr u, hc_gas (wi_ctx w1))"
    using r by (auto simp: heap_get_def split: prod.splits)
  from charge_success [OF this] link_heap_result [OF l] show ?thesis using Heap_get by simp
qed

lemma run_code_cost:
  assumes "run_code env cs None w = Some (None, w')"
  shows "gas_of w + (\<Sum>c \<leftarrow> cs. call_cost c + 10000) \<le> gas_of w' \<and> (cs \<noteq> [] \<longrightarrow> gas_of w' < unat (rt_max_gas (me_rt env)))"
  using assms
proof (induction cs arbitrary: w)
  case (Cons c cs)
  then obtain t w1 where c: "exec_call env c w = Some (t, w1)" by (auto split: option.splits)
  then have t: "t = None" "run_code env cs None w1 = Some (None, w')" using Cons.prems by (cases t; auto)+
  then show ?case
    using exec_call_cost [of env c w w1] c Cons.IH [OF t(2)] by (cases cs) auto
qed simp

lemma cost_counts:
  "40000000 * length (filter saves cs) \<le> (\<Sum>c \<leftarrow> cs. call_cost c + 10000)"
  "100000000 * length (filter creates cs) \<le> (\<Sum>c \<leftarrow> cs. call_cost c + 10000)"
  "100000000 * length (filter logs cs) \<le> (\<Sum>c \<leftarrow> cs. call_cost c + 10000)"
  "10000 * length cs \<le> (\<Sum>c \<leftarrow> cs. call_cost c + 10000)"
proof -
  have each: "saves c \<Longrightarrow> 40000000 \<le> call_cost c" "creates c \<Longrightarrow> 100000000 \<le> call_cost c" "logs c \<Longrightarrow> 100000000 \<le> call_cost c"
    for c :: "'b host_call" by (cases c; simp)+
  show "40000000 * length (filter saves cs) \<le> (\<Sum>c \<leftarrow> cs. call_cost c + 10000)"
    "100000000 * length (filter creates cs) \<le> (\<Sum>c \<leftarrow> cs. call_cost c + 10000)"
    "100000000 * length (filter logs cs) \<le> (\<Sum>c \<leftarrow> cs. call_cost c + 10000)"
    "10000 * length cs \<le> (\<Sum>c \<leftarrow> cs. call_cost c + 10000)"
    by (induction cs) (use each in \<open>fastforce+\<close>)
qed

end
