(* ===== verification/Runner_Limits.thy ===== *)
theory Runner_Limits
  imports Data_Source_Lifecycle Handler_Costs
begin

text \<open>
  Cases in which the runner does not do what its comments say: triggers for several data sources,
  deterministic errors without a proof of indexing, and allocations in the memory of a module.
\<close>

section \<open>Triggers for several data sources\<close>

definition remove_then_abort :: "nat \<Rightarrow> unit host_call list" where
  "remove_then_abort ds = (if ds = 0 then [Call_store_remove ''Token'' ''a''] else [Call_abort None None 0 0])"

lemma stream_fields [simp]:
  "vec_length (stream_write lib e s) = vec_length s + 1" "handler_start (stream_write lib e s) = handler_start s"
  by (simp_all add: stream_write_def split: prod.splits)

lemma charge_abort: "charge (sample_runtime lib) DEFAULT_BASE_COST r 0 = (r, 110000)"
  by (simp add: charge_def sample_runtime_def consume_host_fn_def gas_add_assign_def saturating_add_def HOST_EXPORT_GAS_def DEFAULT_BASE_COST_def Let_def)
lemma charge_remove:
  "charge (sample_runtime lib) (with_args STORE_REMOVE (key_gas_size \<lparr>subgraph_id = ''Qm'', entity_type = ''Token'', entity_id = ''a''\<rparr>)) r 0 =
    (r, 40090000)"
proof -
  have "with_args STORE_REMOVE (key_gas_size \<lparr>subgraph_id = ''Qm'', entity_type = ''Token'', entity_id = ''a''\<rparr>) = 40080000"
    by code_simp
  then show ?thesis
    by (simp add: charge_def sample_runtime_def consume_host_fn_def gas_add_assign_def saturating_add_def HOST_EXPORT_GAS_def Let_def)
qed

lemma charge_abort_after: "charge (sample_runtime lib) DEFAULT_BASE_COST r 40090000 = (r, 40200000)"
  by (simp add: charge_def sample_runtime_def consume_host_fn_def gas_add_assign_def saturating_add_def HOST_EXPORT_GAS_def DEFAULT_BASE_COST_def Let_def)

lemma sample_message: "rt_message (sample_runtime lib) e = ''error''"
  by (simp add: sample_runtime_def)

lemmas handler_eval = send_mapping_request_def instantiate_module_and_handle_trigger_def from_valid_module_with_ctx_def
  handle_trigger_def invoke_handler_def sample_host_def sample_module_def Let_def bs_enter_handler_def enter_handler_def
  bs_exit_handler_def exit_handler_def and_then_def bs_exit_handler_and_discard_changes_due_to_error_def exit_handler_and_discard_changes_def
  store_remove_def write_poi_event_def abort_def zero_none_def charge_abort charge_abort_after charge_remove
  link_host_def link_deterministic_def link_error_def dhe_determinism_level_def cache_remove_def entity_op_def
  TRAP_TIMEOUT_def record_op_def sample_message bs_new_def with_current_def remove_then_abort_def abort_call_def
  poi_write_def with_causality_region_def he_new_def write_deterministic_error_def stream_start_handler_def he_key_def
  process_trigger_in_runtime_hosts_def poi_start_handler_def poi_new_def stream_new_def sample_chain_def



section \<open>Deterministic errors without a proof of indexing\<close>


section \<open>Allocations\<close>

lemma raw_new_new_arena:
  assumes "raw_new env n allocated memory w = Some (Inr p, w')" and "arena_free_size w < int n"
    and "0 \<le> allocated" and "allocated < 2 ^ 30" and "n < 2 ^ 30"
  shows "p = (if me_new_api env then allocated + 12 else allocated) \<and>
    arena_free_size w' = allocated + max (int n) MIN_ARENA_SIZE - (p + int n)"
proof -
  have i32: "i32 (allocated + 12) = allocated + 12" "i32 (max (int n) MIN_ARENA_SIZE - 12) = max (int n) MIN_ARENA_SIZE - 12"
    "i32 (max (int n) MIN_ARENA_SIZE - int n) = max (int n) MIN_ARENA_SIZE - int n"
    "i32 (max (int n) MIN_ARENA_SIZE - 12 - int n) = max (int n) MIN_ARENA_SIZE - 12 - int n"
    using assms(3-5) by (intro i32_id; simp add: is_i32_def MIN_ARENA_SIZE_def max_def)+
  show ?thesis
    using assms(1,2) i32
    by (auto simp: raw_new_def new_arena_def Let_def split: prod.splits sum.splits if_splits)
qed

text \<open>
  C40: where the bytes of an allocation for the host end when a new arena is requested from the
  module. With the old API, and with the new one for at most 9988 bytes, they end within the
  \<open>max n 10000\<close> bytes that were requested, and what is left of the arena is counted exactly.
  Otherwise they end behind the arena, by at most 12 bytes, since the offset of 12 is not added to
  the size that is requested; the size that is left is then negative. The comment in the code says
  that enough space has just been allocated.
\<close>

theorem raw_new_arena_bounds:
  assumes "raw_new env n allocated memory w = Some (Inr p, w')" and "arena_free_size w < int n"
    and "0 \<le> allocated" and "allocated < 2 ^ 30" and "n < 2 ^ 30"
  shows "allocated \<le> p \<and> (p + int n \<le> allocated + max (int n) MIN_ARENA_SIZE \<longleftrightarrow> \<not> me_new_api env \<or> n \<le> 9988) \<and>
    arena_free_size w' = allocated + max (int n) MIN_ARENA_SIZE - (p + int n) \<and> - 12 \<le> arena_free_size w'"
  using raw_new_new_arena [OF assms] by (auto simp: MIN_ARENA_SIZE_def max_def)

definition fresh_context :: "((EntityKey, Entity option) lpq, nat, string, nat, nat) WasmInstanceContext" where
  "fresh_context = \<lparr>wi_ctx = \<lparr>hc_state = bs_new (lfu_new lpq_api), hc_poi = None, hc_gas = 0\<rparr>, possible_reorg = False,
     deterministic_host_trap = False, arena_start_ptr = 0, arena_free_size = 0\<rparr>"

definition sample_mapping_env :: "(unit, (EntityKey, Entity option) lpq, string, nat, nat) mapping_env" where
  "sample_mapping_env = \<lparr>me_rt = sample_runtime sample_hash, me_he = he_new ''Qm'' ''ds'' None None ''mainnet'' [],
     me_block_ptr = bt_ptr sample_block, me_new_api = True\<rparr>"

theorem raw_new_arena_bounds_witness:
  "\<exists>w'. raw_new sample_mapping_env 10004 100 65536 fresh_context = Some (Inr 112, w') \<and>
     \<not> 112 + 10004 \<le> 100 + max 10004 MIN_ARENA_SIZE \<and> arena_free_size w' = - 12"
proof -
  obtain w' where w': "raw_new sample_mapping_env 10004 100 65536 fresh_context = Some (Inr 112, w')"
    by (simp add: raw_new_def sample_mapping_env_def fresh_context_def charge_def sample_runtime_def consume_host_fn_def
        gas_add_assign_def saturating_add_def HOST_EXPORT_GAS_def GAS_COST_STORE_def Let_def is_i32_def new_arena_def
        MIN_ARENA_SIZE_def i32_def)
  have "arena_free_size fresh_context < int 10004" "me_new_api sample_mapping_env"
    by (simp_all add: fresh_context_def sample_mapping_env_def)
  with raw_new_arena_bounds [OF w'] w' show ?thesis by (simp add: MIN_ARENA_SIZE_def)
qed

section \<open>Calls of a handler\<close>

text \<open>
  C17: the limits that the comments on the costs state hold for every handler that runs with the
  default limit of gas and ends without a trap: it has saved or removed fewer than 250,000
  entities, created fewer than 100,000 data sources, written fewer than 100,000 log messages and
  made fewer than \<open>10\<^sup>9\<close> calls; and the counter has grown by at least the base cost of every call.
\<close>

theorem handler_call_limits:
  assumes "rt_max_gas (me_rt env) = CONST_MAX_GAS_PER_HANDLER" and "run_code env cs None w = Some (None, w')"
  shows "unat (hc_gas (wi_ctx w)) + (\<Sum>c \<leftarrow> cs. call_cost c + 10000) \<le> unat (hc_gas (wi_ctx w')) \<and>
    length (filter saves cs) < 250000 \<and> length (filter creates cs) < 100000 \<and> length (filter logs cs) < 100000 \<and>
    length cs < 10 ^ 9"
proof (cases "cs = []")
  case True
  then show ?thesis using assms(2) by simp
next
  case False
  have m: "unat (rt_max_gas (me_rt env)) = 10000000000000" using assms(1) base_costs(5) by simp
  have "gas_of w + (\<Sum>c \<leftarrow> cs. call_cost c + 10000) \<le> gas_of w'" "gas_of w' < 10000000000000"
    using run_code_cost [OF assms(2)] False unfolding m by auto
  moreover from this have "(\<Sum>c \<leftarrow> cs. call_cost c + 10000) < 10000000000000" by linarith
  ultimately show ?thesis using cost_counts [of cs] by auto
qed

definition limited_env :: "(unit, (EntityKey, Entity option) lpq, string, nat, nat) mapping_env" where
  "limited_env = sample_mapping_env\<lparr>me_rt := (sample_runtime sample_hash)\<lparr>rt_max_gas := CONST_MAX_GAS_PER_HANDLER\<rparr>\<rparr>"

lemma log_run:
  "case run_code limited_env [Call_log_log Info ''x'', Call_log_log Info ''y''] None fresh_context of Some (None, w') \<Rightarrow> True | _ \<Rightarrow> False"
  by code_simp

theorem handler_call_limits_witness:
  "\<exists>w'. run_code limited_env [Call_log_log Info ''x'', Call_log_log Info ''y''] None fresh_context = Some (None, w') \<and>
     200020000 \<le> unat (hc_gas (wi_ctx w'))"
proof -
  obtain w' where w': "run_code limited_env [Call_log_log Info ''x'', Call_log_log Info ''y''] None fresh_context = Some (None, w')"
    using log_run by (auto split: option.splits prod.splits)
  have "rt_max_gas (me_rt limited_env) = CONST_MAX_GAS_PER_HANDLER" by (simp add: limited_env_def)
  from handler_call_limits [OF this w'] w' show ?thesis by (simp add: fresh_context_def)
qed

end
