(* ===== verification/Spec2Isabelle.thy ===== *)
theory Spec2Isabelle
  imports Entity_Cache Write_Queue Gas Runner_Limits
begin

text \<open>
  A verification development for the indexing core of graph-node: what happens to a block from the
  triggers that are found in it to the rows in the database.

  \<^bold>\<open>The program and how its parts interact.\<close> A subgraph consists of data sources, whose handlers are
  WebAssembly functions. For every block the runner (\<^verbatim>\<open>core/src/subgraph/runner.rs\<close>) passes the
  triggers to the instance (\<^verbatim>\<open>core/src/subgraph/instance.rs\<close>), which runs the handlers of the data
  sources that match (\<^verbatim>\<open>runtime/wasm/src/module/mod.rs\<close>). Handlers call host functions
  (\<^verbatim>\<open>runtime/wasm/src/host_exports.rs\<close>), are charged gas (\<^verbatim>\<open>graph/src/runtime/gas\<close>), and change entities
  through the entity cache (\<^verbatim>\<open>graph/src/components/store/cache.rs\<close>); every change is recorded in the proof
  of indexing (\<^verbatim>\<open>graph/src/components/subgraph/proof_of_indexing\<close>). At the end of the block the cache is
  turned into modifications, which the writable store (\<^verbatim>\<open>store/postgres/src/writable.rs\<close>) queues and the
  deployment store (\<^verbatim>\<open>store/postgres/src/deployment_store.rs\<close>) writes as versions of rows
  (\<^verbatim>\<open>store/postgres/src/relational.rs\<close>, \<^verbatim>\<open>relational_queries.rs\<close>, \<^verbatim>\<open>block_range.rs\<close>) together with the
  metadata of the deployment (\<^verbatim>\<open>deployment.rs\<close>, \<^verbatim>\<open>dynds.rs\<close>, \<^verbatim>\<open>detail.rs\<close>). A reorganisation of the chain reverts
  blocks.

  \<^bold>\<open>Theories.\<close> \<open>Prelude\<close> holds the shared definitions: results as sums, hash maps and B-tree maps as
  association lists, 32-bit integers and saturating words, with the collections \<open>sat_simps\<close> and
  \<open>i32_simps\<close>.
  \<^item> \<open>Values\<close>: values, entities, schemas, validation and the printing of bytes
    (\<^verbatim>\<open>graph/src/data/store/mod.rs\<close>, \<^verbatim>\<open>scalar.rs\<close>, \<^verbatim>\<open>graph/src/data/graphql/ext.rs\<close>).
  \<^item> \<open>Lfu_Cache\<close>: the cache with a size limit (\<^verbatim>\<open>graph/src/util/lfu_cache.rs\<close>) over the locale
    \<open>priority_queue\<close>, which is interpreted on an executable queue.
  \<^item> \<open>Entity_Ops\<close>, \<open>Entity_Cache\<close>: operations on entities and the cache of a block. The locale
    \<open>entity_reader\<close> is the contract of the store that the cache reads from.
  \<^item> \<open>Block_Range\<close>, \<open>Relational\<close>, \<open>Layout_History\<close>: versions of entities in tables, and their history.
  \<^item> \<open>Store_Events\<close>: events for subscribers and the throttled stream (\<^verbatim>\<open>graph/src/components/store/mod.rs\<close>).
  \<^item> \<open>Deployment\<close>, \<open>Deployment_Store\<close>, \<open>Store_Writes\<close>, \<open>Store_Transactions\<close>, \<open>Store_Guarantees\<close>: the metadata of a
    deployment, transacting, reverting, failing and unfailing, and their guarantees. Here
    \<open>entity_reader\<close> is provided by the versioned store.
  \<^item> \<open>Bounded_Queue\<close>, \<open>Backoff\<close>, \<open>Writable\<close>, \<open>Write_Queue\<close>: the queue between the runner and the store, its
    background writer, and retries (\<^verbatim>\<open>graph/src/util/bounded_queue.rs\<close>, \<^verbatim>\<open>backoff.rs\<close>).
  \<^item> \<open>Gas\<close>: saturating arithmetic, sizes, costs and the counter.
  \<^item> \<open>Proof_Of_Indexing\<close>, \<open>Block_State\<close>: the digest of a block and the state of the block that is processed
    (\<^verbatim>\<open>graph/src/components/subgraph/instance.rs\<close>).
  \<^item> \<open>Host_Exports\<close>, \<open>Wasm_Instance\<close>: the host functions and how a handler is run; \<open>Handler_Runs\<close> and
    \<open>Handler_Costs\<close> say what a run does to the state, to the proof of indexing and to the gas.
  \<^item> \<open>Subgraph_Instance\<close>, \<open>Runner\<close>: triggers, hosts, blocks and the events of the block stream;
    \<open>Block_Processing\<close> carries the invariant of a block through them.
  \<^item> \<open>Block_Guarantees\<close>, \<open>Data_Source_Lifecycle\<close>, \<open>Runner_Limits\<close>: the properties of the runner.

  \<^bold>\<open>State and operations.\<close> A struct is a record with the fields of the source, an enum a datatype; a
  method that changes its object returns the new object. Errors are the left side of a sum;
  assertions, \<open>unwrap\<close> and other panics are results too, either an error of their own or \<open>None\<close>,
  as the theory says. Integers that can overflow are words or reduced by \<open>i32\<close>; the proofs about
  overflow use them as they are. SQL is modelled by its effect on lists of rows, including
  constraint violations. Concurrency of the writer is an inductive step relation over the pushes,
  flushes and steps of the writer in any order.

  \<^bold>\<open>What the lemmas show.\<close> For the cache: its modifications contain each entity once and make the store
  agree with every read, handlers that fail leave no trace, the weight that limits the cache is
  the sum of its entries. For the store: a block is transacted at most once, reads at every block
  are exact, reverting a block restores reads, data sources, errors, health and the block pointer,
  and the invariant holds in all states that can be reached. For the queue: reads through it see
  what the store will have, requests run in order and at most once, flushing ends. For the runner:
  what a block writes is what its proof of indexing says; processing ends; a fatal error writes
  only the proof of indexing; reverting restores the hosts; the limits on calls hold. Some
  properties state what the code does where it differs from its documentation; the manifest lists
  them as findings.

  \<^bold>\<open>Parameters.\<close> What is not under the source tree is an argument: the hash functions
  (\<open>stable_hash\<close>), the operations on big integers (\<open>big_num\<close>), the methods of a chain (\<open>chain\<close>), and
  the compiled modules, whose code is an arbitrary function of the context to the calls it makes.
  The runner reaches the store through the trait methods of \<open>runner_env\<close>. The properties that
  need something of them say so in a hypothesis, for which a witness with concrete functions
  exists: \<open>exclusive\<close> (a trigger is for one data source up to duplicates), \<open>module_wf\<close> (the start
  function of a module does not change entities), \<open>keeps_creation_block\<close> (a data source carries
  the block that created it).

  \<^bold>\<open>Bounds and fuel.\<close> The scalar type of a field is looked up through the schema with fuel, since
  types of a document may refer to each other in a cycle; the property of validation assumes that
  the types of the fields resolve with the fuel given. Loops that need not end are partial functions whose value \<open>None\<close> is not
  returning: retries, for which returning is proved when the operation succeeds at some point,
  and the loop over created data sources, which ends when the number of data sources is limited.

  \<^bold>\<open>Not modelled.\<close> Block streams and chain adapters: asynchronous I/O with remote nodes, whose results
  are the inputs of the runner. The chain store, the primary, copying and connection pools: SQL
  and I/O around the deployment store. GraphQL and the servers: they only read. The registrar and
  provider of subgraphs: they resolve manifests over IPFS and start runners. The encoding of
  objects in WebAssembly memory, of which only sizes matter here. \<open>ProofOfIndexingFinisher\<close>, which
  is only used to answer queries. Debug forks, JSON callbacks, and the host functions for IPFS,
  ENS, JSON, big decimals and Ethereum values, which neither change entities nor data sources,
  except for the callbacks of \<open>ipfs.map\<close>. Metrics and logging.
\<close>

end
